(* ===== verification/Prelude.thy ===== *)
theory Prelude
  imports Main "HOL-Library.Word" "HOL-Library.AList"
begin

text \<open>
  Shared vocabulary of the development: the machine integers of the server
  (src/src/server/namespace-stuffs.h), association lists for its
  std::map / std::unordered_map members, the error value of src/src/util/Result.h
  and the generic lemmas that several components use.
\<close>

section \<open>Machine integers and identifiers\<close>

type_synonym u8 = "8 word"
type_synonym u16 = "16 word"
type_synonym u32 = "32 word"
type_synonym u64 = "64 word"

type_synonym universe_t = "32 word"
type_synonym framenum_t = "64 word"
type_synonym creatureId_t = string
type_synonym fixtureId_t = string

text \<open>\<open>std::numeric_limits<framenum_t>::max()\<close>, the sentinel the schedulers use.\<close>

definition framenum_max :: framenum_t where
  "framenum_max = - 1"

lemma framenum_max_greatest [simp]: "f \<le> framenum_max"
  by (simp add: framenum_max_def)

text \<open>A 64-bit counter that has not yet wrapped moves forward when it is incremented.\<close>

lemma word_succ_greater: "(f :: u64) \<noteq> - 1 \<Longrightarrow> f < f + 1"
  by (meson inc_less_eq_triv_imp not_less)

section \<open>Collections of proof hints\<close>

named_theorems invariant_intros \<open>one-step preservation facts of component invariants\<close>
named_theorems frame_simps \<open>which fields an operation leaves alone\<close>

section \<open>Errors as values\<close>

datatype error_code = NotFound | Forbidden | InternalError | InvalidData | DatabaseError | Conflict

datatype server_error = ServerError (getCode: error_code) (getMessage: string)

type_synonym 'a result = "server_error + 'a"

definition isSuccess :: "'a result \<Rightarrow> bool" where
  "isSuccess r = (case r of Inl _ \<Rightarrow> False | Inr _ \<Rightarrow> True)"

definition getValue :: "'a result \<Rightarrow> 'a option" where
  "getValue r = (if isSuccess r then (case r of Inl _ \<Rightarrow> None | Inr v \<Rightarrow> Some v) else None)"

definition getError :: "'a result \<Rightarrow> server_error option" where
  "getError r = (if \<not> isSuccess r then (case r of Inl e \<Rightarrow> Some e | Inr _ \<Rightarrow> None) else None)"

definition serverErrorToStatusCode :: "error_code \<Rightarrow> int" where
  "serverErrorToStatusCode c = (case c of
     NotFound \<Rightarrow> 404
   | Forbidden \<Rightarrow> 403
   | InvalidData \<Rightarrow> 400
   | Conflict \<Rightarrow> 409
   | _ \<Rightarrow> 500)"

lemma isSuccess_simps [simp]: "isSuccess (Inr v)" "\<not> isSuccess (Inl e)"
  by (simp_all add: isSuccess_def)

lemma getValue_simps [simp]: "getValue (Inr v) = Some v" "getValue (Inl e) = None"
  by (simp_all add: getValue_def)

lemma getError_simps [simp]: "getError (Inl e) = Some e" "getError (Inr v) = None"
  by (simp_all add: getError_def)

lemma isSuccess_iff: "isSuccess r \<longleftrightarrow> (\<exists>v. r = Inr v)"
  by (cases r) auto

text \<open>
  Sequencing of fallible steps: an early return or a thrown error ends the chain. \<open>fold_result\<close>
  is a loop over a list whose body may end it that way. The \<open>result_iff\<close> rules say when a chain
  succeeds, so that a successful parse unfolds into its checks.
\<close>

named_theorems result_iff \<open>when a chain of fallible steps succeeds\<close>

definition bind_result :: "('e + 'a) \<Rightarrow> ('a \<Rightarrow> 'e + 'b) \<Rightarrow> 'e + 'b" where
  "bind_result r f = (case r of Inl e \<Rightarrow> Inl e | Inr v \<Rightarrow> f v)"

primrec fold_result :: "('x \<Rightarrow> 's \<Rightarrow> 'e + 's) \<Rightarrow> 'x list \<Rightarrow> 's \<Rightarrow> 'e + 's" where
  "fold_result f [] s = Inr s"
| "fold_result f (x # xs) s = (case f x s of Inl e \<Rightarrow> Inl e | Inr s' \<Rightarrow> fold_result f xs s')"

lemma bind_result_simps [simp]: "bind_result (Inr v) f = f v" "bind_result (Inl e) f = Inl e"
  by (simp_all add: bind_result_def)

lemma bind_result_iff [result_iff]: "bind_result r f = Inr y \<longleftrightarrow> (\<exists>v. r = Inr v \<and> f v = Inr y)"
  by (cases r) simp_all

lemma if_Inl_iff [result_iff]: "(if b then Inl e else r) = Inr y \<longleftrightarrow> \<not> b \<and> r = Inr y"
  by simp

lemma case_prod_iff: "(case p of (a, b) \<Rightarrow> f a b) = Inr y \<longleftrightarrow> (\<exists>a b. p = (a, b) \<and> f a b = Inr y)"
  by (cases p) simp

lemma fold_result_invariant:
  assumes "fold_result f xs s = Inr s'" "P s"
    and "\<And>x s s'. x \<in> set xs \<Longrightarrow> P s \<Longrightarrow> f x s = Inr s' \<Longrightarrow> P s'"
  shows "P s'"
  using assms
proof (induction xs arbitrary: s)
  case (Cons x xs)
  then obtain s1 where "f x s = Inr s1" "fold_result f xs s1 = Inr s'" by (auto split: sum.splits)
  then show ?case using Cons.IH [of s1] Cons.prems(2,3) by (meson list.set_intros)
qed simp

lemma fold_result_count:
  assumes "fold_result f xs s = Inr s'" "\<And>x s s'. f x s = Inr s' \<Longrightarrow> m s' = Suc (m s)"
  shows "m s' = m s + length xs"
  using assms(1)
proof (induction xs arbitrary: s)
  case (Cons x xs)
  then obtain s1 where "f x s = Inr s1" "fold_result f xs s1 = Inr s'" by (auto split: sum.splits)
  then show ?case using Cons.IH [of s1] assms(2) [of x s s1] by simp
qed simp

section \<open>Decimal text, as fmt prints unsigned integers\<close>

fun dec :: "nat \<Rightarrow> string" where
  "dec n = (if n < 10 then [char_of (48 + n)] else dec (n div 10) @ [char_of (48 + n mod 10)])"

declare dec.simps [simp del]

definition quoted :: "string \<Rightarrow> string" where
  "quoted s = CHR 0x27 # s @ [CHR 0x27]"

definition dec_int :: "int \<Rightarrow> string" where
  "dec_int i = (if i < 0 then CHR ''-'' # dec (nat (- i)) else dec (nat i))"

section \<open>Association lists\<close>

text \<open>
  A std::map or std::unordered_map member is a list of key/value pairs with distinct
  keys. Lookups are \<open>map_of\<close>, assignment is \<open>AList.update\<close>, erase is \<open>AList.delete\<close>.
  Iterating the container walks the list; the order of an unordered_map is unspecified,
  so a theorem that holds for every list holds for every iteration order.
\<close>

definition keys_ok :: "('k \<times> 'v) list \<Rightarrow> bool" where
  "keys_ok m \<longleftrightarrow> distinct (map fst m)"

lemma keys_ok_Nil [simp]: "keys_ok []"
  by (simp add: keys_ok_def)

lemma keys_ok_update [simp, invariant_intros]: "keys_ok m \<Longrightarrow> keys_ok (AList.update k v m)"
  by (simp add: keys_ok_def distinct_update)

lemma keys_ok_delete [simp, invariant_intros]: "keys_ok m \<Longrightarrow> keys_ok (AList.delete k m)"
  by (simp add: keys_ok_def distinct_delete)

lemma map_of_update [simp]: "map_of (AList.update k v m) = (map_of m)(k \<mapsto> v)"
  by (rule update_conv')

lemma map_of_delete [simp]: "map_of (AList.delete k m) = (map_of m)(k := None)"
  by (simp add: delete_conv')

lemma keys_ok_map_of: "keys_ok m \<Longrightarrow> (k, v) \<in> set m \<longleftrightarrow> map_of m k = Some v"
  by (simp add: keys_ok_def)

lemma set_update_subset: "set (AList.update k v m) \<subseteq> insert (k, v) (set m)"
  by (induction m) auto

lemma set_delete_subset: "set (AList.delete k m) \<subseteq> set m"
  by (auto simp: AList.delete_eq)

lemma keys_ok_map_values [simp]:
  "keys_ok (map (\<lambda>(k, v). (k, f k v)) m) \<longleftrightarrow> keys_ok m"
  by (simp add: keys_ok_def case_prod_unfold comp_def)

lemma map_of_map_values:
  "map_of (map (\<lambda>(k, v). (k, f k v)) m) k = map_option (f k) (map_of m k)"
  by (induction m) auto

lemma keys_ok_filter [simp]: "keys_ok m \<Longrightarrow> keys_ok (filter P m)"
  by (auto simp: keys_ok_def intro: distinct_map_filter)

lemma map_of_filter_key:
  "map_of (filter (\<lambda>(k, v). P k) m) k = (if P k then map_of m k else None)"
  by (induction m) auto

lemma map_of_fold_delete:
  "map_of (fold AList.delete ks m) k = (if k \<in> set ks then None else map_of m k)"
  by (induction ks arbitrary: m) auto

lemma keys_ok_fold_delete [simp]: "keys_ok m \<Longrightarrow> keys_ok (fold AList.delete ks m)"
  by (induction ks arbitrary: m) auto

lemma set_fold_delete_subset: "set (fold AList.delete ks m) \<subseteq> set m"
  by (induction ks arbitrary: m) (auto dest: set_delete_subset [THEN subsetD] subsetD)

section \<open>Vectors\<close>

text \<open>\<open>std::vector::resize(n, x)\<close>: trim, or pad with \<open>x\<close>.\<close>

definition resize_vec :: "nat \<Rightarrow> 'a \<Rightarrow> 'a list \<Rightarrow> 'a list" where
  "resize_vec n x xs = take n xs @ replicate (n - length xs) x"

lemma length_resize_vec [simp]: "length (resize_vec n x xs) = n"
  by (simp add: resize_vec_def)

lemma nth_resize_vec:
  "i < n \<Longrightarrow> resize_vec n x xs ! i = (if i < length xs then xs ! i else x)"
  by (simp add: resize_vec_def nth_append)

lemma resize_vec_same [simp]: "length xs = n \<Longrightarrow> resize_vec n x xs = xs"
  by (simp add: resize_vec_def)

text \<open>Bounds-checked read with a default, the \<open>i < v.size() ? v[i] : d\<close> idiom.\<close>

definition nth_or :: "'a \<Rightarrow> 'a list \<Rightarrow> nat \<Rightarrow> 'a" where
  "nth_or d xs i = (if i < length xs then xs ! i else d)"

lemma nth_or_in [simp]: "i < length xs \<Longrightarrow> nth_or d xs i = xs ! i"
  by (simp add: nth_or_def)

end
