(* ===== verification/Rtp_Coordination.thy ===== *)
theory Rtp_Coordination
  imports Prelude
begin

text \<open>
  Who may drive the RTP output: the lease coordinator (src/src/server/rtp/RtpOutputCoordinator.h),
  the bounded queue between the event loop and the output worker (BoundedCommandQueue.h) and the
  admission flag of standalone playback (StandaloneRtpAdmission.h). Each operation runs under its
  own mutex or is one atomic access, so it is one function. The locale \<open>exclusive_lease\<close> is what
  the clients of a coordinator rely on.
\<close>

text \<open>The trace context that follows a sound from the request to the wire (AsyncAudioTraceContext.h).\<close>

record async_trace =
  tr_triggerTraceId :: string
  tr_triggerSpanId :: string
  tr_sessionId :: string
  tr_animationId :: string
  tr_soundFile :: string
  tr_enqueueFrame :: u64

definition no_trace :: async_trace where
  "no_trace = \<lparr>tr_triggerTraceId = [], tr_triggerSpanId = [], tr_sessionId = [],
     tr_animationId = [], tr_soundFile = [], tr_enqueueFrame = 0\<rparr>"

section \<open>Leases\<close>

record rtp_lease =
  lease_generation :: u64
  lease_ownerId :: string

definition lease_valid :: "rtp_lease \<Rightarrow> bool" where
  "lease_valid l \<longleftrightarrow> lease_generation l \<noteq> 0 \<and> lease_ownerId l \<noteq> []"

record output_coordinator =
  nextGeneration :: u64
  activeGeneration :: u64
  co_activeOwnerId :: string

definition new_coordinator :: output_coordinator where
  "new_coordinator = \<lparr>nextGeneration = 0, activeGeneration = 0, co_activeOwnerId = []\<rparr>"

definition acquire :: "string \<Rightarrow> output_coordinator \<Rightarrow> rtp_lease \<times> output_coordinator" where
  "acquire ownerId C =
     (let n1 = nextGeneration C + 1;
          n2 = (if n1 = 0 then n1 + 1 else n1)
      in (\<lparr>lease_generation = n2, lease_ownerId = ownerId\<rparr>,
          C\<lparr>nextGeneration := n2, activeGeneration := n2, co_activeOwnerId := ownerId\<rparr>))"

definition isCurrent :: "rtp_lease \<Rightarrow> output_coordinator \<Rightarrow> bool" where
  "isCurrent l C \<longleftrightarrow> lease_valid l \<and> lease_generation l = activeGeneration C"

text \<open>
  \<open>lockIfCurrent\<close> evaluates the same condition with the mutex held; the caller keeps the mutex
  as long as the guard lives.
\<close>

definition lockIfCurrent :: "rtp_lease \<Rightarrow> output_coordinator \<Rightarrow> bool" where
  "lockIfCurrent l C \<longleftrightarrow> lease_valid l \<and> lease_generation l = activeGeneration C"

text \<open>
  \<open>release\<close> is a compare-and-swap; the owner name is cleared only when the mutex happens to be
  free (\<open>got_lock\<close>).
\<close>

definition release :: "bool \<Rightarrow> rtp_lease \<Rightarrow> output_coordinator \<Rightarrow> output_coordinator" where
  "release got_lock l C =
     (if \<not> lease_valid l then C
      else if activeGeneration C = lease_generation l
      then (let C1 = C\<lparr>activeGeneration := 0\<rparr>
            in if got_lock \<and> activeGeneration C1 = 0 then C1\<lparr>co_activeOwnerId := []\<rparr> else C1)
      else C)"

definition activeOwnerId :: "output_coordinator \<Rightarrow> string" where
  "activeOwnerId C = (if activeGeneration C = 0 then [] else co_activeOwnerId C)"

section \<open>What a client of a coordinator relies on\<close>

text \<open>
  An exclusive lease: claiming supersedes every lease issued before, releasing ends one lease and
  revives none. \<open>room\<close> bounds the claims that may still follow before the generation counter wraps.
\<close>

datatype ('o, 'd, 'l) lease_op = Claim 'o | Drop 'd 'l

primrec run_leases :: "('o \<Rightarrow> 's \<Rightarrow> 'l \<times> 's) \<Rightarrow> ('d \<Rightarrow> 'l \<Rightarrow> 's \<Rightarrow> 's) \<Rightarrow> ('o, 'd, 'l) lease_op list \<Rightarrow> 's \<Rightarrow> 's" where
  "run_leases claim drop_lease [] s = s"
| "run_leases claim drop_lease (x # xs) s =
     run_leases claim drop_lease xs
       (case x of Claim ow \<Rightarrow> snd (claim ow s) | Drop d l \<Rightarrow> drop_lease d l s)"

locale exclusive_lease =
  fixes claim :: "'o \<Rightarrow> 's \<Rightarrow> 'l \<times> 's"
    and drop_lease :: "'d \<Rightarrow> 'l \<Rightarrow> 's \<Rightarrow> 's"
    and current :: "'l \<Rightarrow> 's \<Rightarrow> bool"
    and issued :: "'l \<Rightarrow> 's \<Rightarrow> bool"
    and room :: "'s \<Rightarrow> nat"
  assumes claim_supersedes: "issued l s \<Longrightarrow> 0 < room s \<Longrightarrow> \<not> current l (snd (claim ow s))"
    and claim_issues: "0 < room s \<Longrightarrow> issued (fst (claim ow s)) (snd (claim ow s))"
    and claim_keeps_issued: "issued l s \<Longrightarrow> 0 < room s \<Longrightarrow> issued l (snd (claim ow s))"
    and claim_room: "0 < room s \<Longrightarrow> room (snd (claim ow s)) = room s - 1"
    and drop_ends: "issued l s \<Longrightarrow> \<not> current l (drop_lease d l s)"
    and drop_revives_none: "current l (drop_lease d m s) \<Longrightarrow> current l s"
    and drop_keeps_issued: "issued l (drop_lease d m s) = issued l s"
    and drop_room: "room (drop_lease d m s) = room s"
begin

lemma stale_stays_stale:
  assumes "issued l s" "\<not> current l s" "length xs \<le> room s"
  shows "\<not> current l (run_leases claim drop_lease xs s)"
  using assms
proof (induction xs arbitrary: s)
  case (Cons x xs)
  show ?case
  proof (cases x)
    case (Claim ow)
    then show ?thesis using Cons claim_supersedes claim_keeps_issued claim_room by simp
  next
    case (Drop d m)
    then show ?thesis
      using Cons.IH [of "drop_lease d m s"] Cons.prems drop_revives_none [of l d m s]
      by (auto simp: drop_keeps_issued drop_room)
  qed
qed simp

lemma superseded_never_current:
  assumes "issued l s" "length xs < room s"
  shows "\<not> current l (run_leases claim drop_lease (Claim ow # xs) s)"
  using assms stale_stays_stale [of l "snd (claim ow s)" xs] claim_supersedes claim_keeps_issued claim_room
  by simp

lemma released_never_current:
  assumes "issued l s" "length xs \<le> room s"
  shows "\<not> current l (run_leases claim drop_lease (Drop d l # xs) s)"
  using assms stale_stays_stale [of l "drop_lease d l s" xs] drop_ends drop_keeps_issued drop_room by simp

end

text \<open>The coordinator's generations before the 64-bit counter wraps.\<close>

definition lease_issued :: "rtp_lease \<Rightarrow> output_coordinator \<Rightarrow> bool" where
  "lease_issued l C \<longleftrightarrow> lease_generation l \<le> nextGeneration C"

definition generations_left :: "output_coordinator \<Rightarrow> nat" where
  "generations_left C = unat (- 1 - nextGeneration C)"

lemma generations_left_pos: "0 < generations_left C \<longleftrightarrow> nextGeneration C \<noteq> - 1"
  by (auto simp: generations_left_def unat_gt_0)

lemma acquire_generation:
  assumes "0 < generations_left C"
  shows "nextGeneration (snd (acquire ow C)) = nextGeneration C + 1"
    and "lease_generation (fst (acquire ow C)) = nextGeneration C + 1"
    and "activeGeneration (snd (acquire ow C)) = nextGeneration C + 1"
    and "nextGeneration C < nextGeneration C + 1"
proof -
  have ne: "nextGeneration C + 1 \<noteq> 0" using assms by (simp add: generations_left_pos eq_neg_iff_add_eq_0)
  then show "nextGeneration (snd (acquire ow C)) = nextGeneration C + 1"
    "lease_generation (fst (acquire ow C)) = nextGeneration C + 1"
    "activeGeneration (snd (acquire ow C)) = nextGeneration C + 1"
    by (simp_all add: acquire_def Let_def)
  show "nextGeneration C < nextGeneration C + 1"
    using assms by (simp add: generations_left_pos word_succ_greater)
qed

interpretation rtp_leases: exclusive_lease acquire release isCurrent lease_issued generations_left
proof
  fix l s and ow :: string assume "lease_issued l s" "0 < generations_left s"
  then show "\<not> isCurrent l (snd (acquire ow s))" "lease_issued l (snd (acquire ow s))"
    using acquire_generation(1-3) [of s ow] acquire_generation(4) [of s]
    by (auto simp: isCurrent_def lease_issued_def)
next
  fix s and ow :: string assume r: "0 < generations_left s"
  then show "lease_issued (fst (acquire ow s)) (snd (acquire ow s))"
    using acquire_generation(1,2) [of s ow] by (simp add: lease_issued_def)
  have "unat (- 1 - nextGeneration s - 1) = unat (- 1 - nextGeneration s) - 1"
    using r by (intro unat_minus_one) (auto simp: generations_left_pos)
  then show "generations_left (snd (acquire ow s)) = generations_left s - 1"
    using acquire_generation(1) [OF r, of ow] by (simp add: generations_left_def algebra_simps)
next
  fix l m s got_lock
  show "\<not> isCurrent l (release got_lock l s)"
    by (auto simp: isCurrent_def release_def Let_def lease_valid_def)
  show "isCurrent l (release got_lock m s) \<Longrightarrow> isCurrent l s"
    by (auto simp: isCurrent_def release_def Let_def lease_valid_def split: if_splits)
  show "lease_issued l (release got_lock m s) = lease_issued l s"
    "generations_left (release got_lock m s) = generations_left s"
    by (simp_all add: lease_issued_def generations_left_def release_def Let_def)
qed

text \<open>
  A lease that was superseded by a new owner, or released, never becomes current again,
  whatever owners acquire and release the output afterwards, as long as the 64-bit generation
  counter does not wrap.
\<close>

theorem stale_lease_never_current:
  assumes "lease_issued l C" "length xs < generations_left C"
  shows "\<not> isCurrent l (run_leases acquire release (Claim ow # xs) C)
       \<and> \<not> isCurrent l (run_leases acquire release (Drop got_lock l # xs) C)"
  using assms rtp_leases.superseded_never_current [of l C xs ow]
    rtp_leases.released_never_current [of l C xs got_lock]
  by simp

theorem stale_lease_never_current_witness:
  "\<not> isCurrent (fst (acquire ''bgm'' new_coordinator))
     (run_leases acquire release [Claim ''show'', Drop False \<lparr>lease_generation = 2, lease_ownerId = ''show''\<rparr>]
        (snd (acquire ''bgm'' new_coordinator)))
   \<and> isCurrent (fst (acquire ''bgm'' new_coordinator)) (snd (acquire ''bgm'' new_coordinator))"
  using stale_lease_never_current [of "fst (acquire ''bgm'' new_coordinator)" "snd (acquire ''bgm'' new_coordinator)"
      "[Drop False \<lparr>lease_generation = 2, lease_ownerId = ''show''\<rparr>]" "''show''" True]
  by (simp add: lease_issued_def generations_left_def acquire_def new_coordinator_def isCurrent_def lease_valid_def)

section \<open>The command queue\<close>

record 'c command_queue =
  q_capacity :: nat
  q_items :: "'c list"
  q_stopped :: bool

definition new_queue :: "nat \<Rightarrow> 'c command_queue" where
  "new_queue n = \<lparr>q_capacity = n, q_items = [], q_stopped = False\<rparr>"

definition tryPush :: "'c \<Rightarrow> 'c command_queue \<Rightarrow> bool \<times> 'c command_queue" where
  "tryPush c Q =
     (if q_stopped Q \<or> q_capacity Q \<le> length (q_items Q) then (False, Q)
      else (True, Q\<lparr>q_items := q_items Q @ [c]\<rparr>))"

text \<open>\<open>waitPop\<close> blocks while the queue is empty and not stopped; a stopped queue ends the worker.\<close>

datatype 'c pop_result = Blocked | Ended | Popped 'c

definition waitPop :: "'c command_queue \<Rightarrow> 'c pop_result \<times> 'c command_queue" where
  "waitPop Q =
     (if \<not> (q_stopped Q \<or> q_items Q \<noteq> []) then (Blocked, Q)
      else if q_stopped Q then (Ended, Q)
      else (Popped (hd (q_items Q)), Q\<lparr>q_items := tl (q_items Q)\<rparr>))"

definition eraseIf :: "('c \<Rightarrow> bool) \<Rightarrow> 'c command_queue \<Rightarrow> nat \<times> 'c command_queue" where
  "eraseIf P Q =
     (let Q1 = Q\<lparr>q_items := filter (\<lambda>c. \<not> P c) (q_items Q)\<rparr>
      in (length (q_items Q) - length (q_items Q1), Q1))"

definition stop_queue :: "'c command_queue \<Rightarrow> 'c command_queue" where
  "stop_queue Q = Q\<lparr>q_stopped := True, q_items := []\<rparr>"

definition queue_ok :: "'c command_queue \<Rightarrow> bool" where
  "queue_ok Q \<longleftrightarrow> length (q_items Q) \<le> q_capacity Q \<and> (q_stopped Q \<longrightarrow> q_items Q = [])"

text \<open>
  The queue as its clients see it: a first-in first-out channel that may refuse, that loses
  commands only to an erase or a stop, and that accepts nothing once stopped.
\<close>

locale bounded_channel =
  fixes push :: "'c \<Rightarrow> 'q \<Rightarrow> bool \<times> 'q"
    and pop :: "'q \<Rightarrow> 'c pop_result \<times> 'q"
    and erase :: "('c \<Rightarrow> bool) \<Rightarrow> 'q \<Rightarrow> nat \<times> 'q"
    and stop :: "'q \<Rightarrow> 'q"
    and pending_of :: "'q \<Rightarrow> 'c list"
  assumes push_law: "push c q = (b, q') \<Longrightarrow> pending_of q' = pending_of q @ (if b then [c] else [])"
    and pop_law: "pop q = (r, q') \<Longrightarrow>
      (case r of Popped c \<Rightarrow> pending_of q = c # pending_of q' | _ \<Rightarrow> pending_of q' = pending_of q)"
    and erase_law: "erase P q = (n, q') \<Longrightarrow> pending_of q' = filter (\<lambda>c. \<not> P c) (pending_of q)
      \<and> n = length (filter P (pending_of q))"
    and stop_law: "pending_of (stop q) = []"
begin

text \<open>A property of all queued commands survives every operation that pushes only such commands.\<close>

lemma all_pending_push: "list_all P (pending_of q) \<Longrightarrow> P c \<Longrightarrow> list_all P (pending_of (snd (push c q)))"
  using push_law [of c q "fst (push c q)" "snd (push c q)"] by simp

lemma all_pending_pop: "list_all P (pending_of q) \<Longrightarrow> pop q = (Popped c, q') \<Longrightarrow>
    P c \<and> list_all P (pending_of q')"
  using pop_law [of q "Popped c" q'] by simp

lemma all_pending_erase: "list_all P (pending_of q) \<Longrightarrow> list_all P (pending_of (snd (erase R q)))"
  using erase_law [of R q "fst (erase R q)" "snd (erase R q)"] by (simp add: list_all_iff)

lemma erased_gone: "c \<in> set (pending_of (snd (erase R q))) \<Longrightarrow> \<not> R c"
  using erase_law [of R q "fst (erase R q)" "snd (erase R q)"] by simp

end

interpretation command_channel: bounded_channel tryPush waitPop eraseIf stop_queue q_items
proof
  fix c and q q' :: "'a command_queue" and b r P n
  show "tryPush c q = (b, q') \<Longrightarrow> q_items q' = q_items q @ (if b then [c] else [])"
    by (auto simp: tryPush_def split: if_splits)
  show "waitPop q = (r, q') \<Longrightarrow>
      (case r of Popped c \<Rightarrow> q_items q = c # q_items q' | _ \<Rightarrow> q_items q' = q_items q)"
    by (auto simp: waitPop_def split: if_splits)
  show "eraseIf P q = (n, q') \<Longrightarrow> q_items q' = filter (\<lambda>c. \<not> P c) (q_items q)
      \<and> n = length (filter P (q_items q))"
    using sum_length_filter_compl [of P "q_items q"] by (auto simp: eraseIf_def Let_def)
  show "q_items (stop_queue q) = []" by (simp add: stop_queue_def)
qed

lemma queue_ok_new [simp]: "queue_ok (new_queue n)"
  by (simp add: queue_ok_def new_queue_def)

lemma queue_ok_ops [invariant_intros]:
  "queue_ok Q \<Longrightarrow> queue_ok (snd (tryPush c Q))" "queue_ok Q \<Longrightarrow> queue_ok (snd (waitPop Q))"
  "queue_ok Q \<Longrightarrow> queue_ok (snd (eraseIf P Q))" "queue_ok Q \<Longrightarrow> queue_ok (stop_queue Q)"
  by (auto simp: queue_ok_def tryPush_def waitPop_def eraseIf_def stop_queue_def Let_def
      intro: order_trans [OF length_filter_le])

section \<open>Standalone playback\<close>

text \<open>
  \<open>StandaloneRtpAdmission\<close>: one reservation at a time. The holders share a reference-counted
  token whose destructor, run when the last holder drops it, clears the flag.
\<close>

record admission =
  reserved :: bool
  holders :: nat

definition new_admission :: admission where
  "new_admission = \<lparr>reserved = False, holders = 0\<rparr>"

definition tryAcquire :: "admission \<Rightarrow> bool \<times> admission" where
  "tryAcquire A = (if reserved A then (False, A) else (True, A\<lparr>reserved := True, holders := 1\<rparr>))"

definition share_token :: "admission \<Rightarrow> admission" where
  "share_token A = A\<lparr>holders := holders A + 1\<rparr>"

definition drop_token :: "admission \<Rightarrow> admission" where
  "drop_token A = (if holders A = 1 then A\<lparr>holders := 0, reserved := False\<rparr>
                   else A\<lparr>holders := holders A - 1\<rparr>)"

definition admission_ok :: "admission \<Rightarrow> bool" where
  "admission_ok A \<longleftrightarrow> (reserved A \<longleftrightarrow> 0 < holders A)"

lemma admission_ok_ops [invariant_intros]:
  "admission_ok new_admission" "admission_ok A \<Longrightarrow> admission_ok (snd (tryAcquire A))"
  "admission_ok A \<Longrightarrow> 0 < holders A \<Longrightarrow> admission_ok (share_token A)"
  "admission_ok A \<Longrightarrow> 0 < holders A \<Longrightarrow> admission_ok (drop_token A)"
  by (auto simp: admission_ok_def new_admission_def tryAcquire_def share_token_def drop_token_def)

end
