(* ===== verification/Rtp_Health.thy ===== *)
theory Rtp_Health
  imports Rtp_Coordination
begin

text \<open>
  The health bookkeeping of the RTP output (src/src/server/rtp/RtpOutputHealth.h): the
  send-failure circuit breaker \<open>RtpSendFailureTracker\<close>, which counts failures consecutively
  and in a ring of one-second buckets, and \<open>RtpTerminalFailureRegistry\<close>, the ring through
  which the output worker tells the event loop that it ended a generation. A steady_clock time
  point is its count of nanoseconds, an unbounded integer.
\<close>

section \<open>Durations\<close>

text \<open>\<open>std::chrono::duration_cast\<close> and C++ integer division truncate towards zero.\<close>

definition trunc_div :: "int \<Rightarrow> int \<Rightarrow> int" where
  "trunc_div a b = (if 0 \<le> a then a div b else - ((- a) div b))"

definition NANOSECONDS_PER_SECOND :: int where
  "NANOSECONDS_PER_SECOND = 1000000000"

definition whole_seconds :: "int \<Rightarrow> int" where
  "whole_seconds d = trunc_div d NANOSECONDS_PER_SECOND"

lemma whole_seconds_nonneg: "0 \<le> d \<Longrightarrow> whole_seconds d = d div NANOSECONDS_PER_SECOND"
  by (simp add: whole_seconds_def trunc_div_def)

lemma whole_seconds_pos_iff: "0 < whole_seconds d \<longleftrightarrow> NANOSECONDS_PER_SECOND \<le> d"
  unfolding whole_seconds_def trunc_div_def NANOSECONDS_PER_SECOND_def by (cases "0 \<le> d") auto

section \<open>The circuit breaker\<close>

record breaker_config =
  consecutiveFailuresToTrip :: u32
  windowedFailuresToTrip :: u32
  windowSeconds :: u32
  detailEmitInterval :: u32

definition default_breaker_config :: breaker_config where
  "default_breaker_config =
     \<lparr>consecutiveFailuresToTrip = 50, windowedFailuresToTrip = 300,
      windowSeconds = 10, detailEmitInterval = 100\<rparr>"

record breaker_action =
  emitDetail :: bool
  trip :: bool
  recovered :: bool
  suppressedSinceLast :: u64
  consecutiveSeen :: u64
  windowedSeen :: u64

definition no_action :: breaker_action where
  "no_action =
     \<lparr>emitDetail = False, trip = False, recovered = False,
      suppressedSinceLast = 0, consecutiveSeen = 0, windowedSeen = 0\<rparr>"

record failure_tracker =
  breakerConfig :: breaker_config
  trackedGeneration :: u64
  tripped :: bool
  consecutiveFailures :: u64
  windowedFailures :: u64
  suppressedSinceLastEmit :: u64
  buckets :: "u64 list"
  bucketIndex :: nat
  bucketTime :: int

text \<open>The constructor; \<open>time_point{}\<close> is the clock's epoch.\<close>

definition new_tracker :: "breaker_config \<Rightarrow> failure_tracker" where
  "new_tracker cfg =
     (let cfg1 = (if windowSeconds cfg = 0 then cfg\<lparr>windowSeconds := 1\<rparr> else cfg)
      in \<lparr>breakerConfig = cfg1, trackedGeneration = 0, tripped = False,
          consecutiveFailures = 0, windowedFailures = 0, suppressedSinceLastEmit = 0,
          buckets = replicate (unat (windowSeconds cfg1)) 0, bucketIndex = 0, bucketTime = 0\<rparr>)"

definition beginGeneration :: "u64 \<Rightarrow> int \<Rightarrow> failure_tracker \<Rightarrow> failure_tracker" where
  "beginGeneration g now T = T\<lparr>trackedGeneration := g, tripped := False,
     consecutiveFailures := 0, windowedFailures := 0, suppressedSinceLastEmit := 0,
     buckets := replicate (unat (windowSeconds (breakerConfig T))) 0,
     bucketIndex := 0, bucketTime := now\<rparr>"

definition window_length :: "failure_tracker \<Rightarrow> nat" where
  "window_length T = unat (windowSeconds (breakerConfig T))"

text \<open>One turn of the loop in \<open>advanceWindow\<close>: the oldest bucket is forgotten.\<close>

definition expire_bucket :: "failure_tracker \<Rightarrow> failure_tracker" where
  "expire_bucket T =
     (let i = (bucketIndex T + 1) mod window_length T
      in T\<lparr>bucketIndex := i,
           windowedFailures := windowedFailures T - buckets T ! i,
           buckets := (buckets T)[i := 0]\<rparr>)"

definition advanceWindow :: "int \<Rightarrow> failure_tracker \<Rightarrow> failure_tracker" where
  "advanceWindow now T =
     (let elapsed = whole_seconds (now - bucketTime T)
      in if elapsed \<le> 0 then T
         else (let steps = min elapsed (int (window_length T));
                   T1 = (expire_bucket ^^ nat steps) T
               in T1\<lparr>bucketTime := bucketTime T1 + elapsed * NANOSECONDS_PER_SECOND\<rparr>))"

definition recordFailure :: "u64 \<Rightarrow> int \<Rightarrow> failure_tracker \<Rightarrow> breaker_action \<times> failure_tracker" where
  "recordFailure g now T0 =
     (let T1 = (if g \<noteq> trackedGeneration T0 then beginGeneration g now T0 else T0)
      in if tripped T1 then (no_action, T1)
         else
           (let T2 = advanceWindow now T1;
                c = consecutiveFailures T2 + 1;
                w = windowedFailures T2 + 1;
                i = bucketIndex T2;
                T3 = T2\<lparr>consecutiveFailures := c, windowedFailures := w,
                        buckets := (buckets T2)[i := buckets T2 ! i + 1]\<rparr>;
                cfg = breakerConfig T3;
                every = detailEmitInterval cfg;
                trips = ucast (consecutiveFailuresToTrip cfg) \<le> c
                        \<or> ucast (windowedFailuresToTrip cfg) \<le> w;
                emit = (trips \<or> c = 1 \<or> (0 < every \<and> c mod ucast every = 0));
                T4 = (if trips then T3\<lparr>tripped := True\<rparr> else T3);
                act = no_action\<lparr>emitDetail := emit, trip := trips,
                                consecutiveSeen := c, windowedSeen := w\<rparr>
            in if emit
               then (act\<lparr>suppressedSinceLast := suppressedSinceLastEmit T4\<rparr>,
                     T4\<lparr>suppressedSinceLastEmit := 0\<rparr>)
               else (act, T4\<lparr>suppressedSinceLastEmit := suppressedSinceLastEmit T4 + 1\<rparr>)))"

definition recordSuccess :: "u64 \<Rightarrow> int \<Rightarrow> failure_tracker \<Rightarrow> breaker_action \<times> failure_tracker" where
  "recordSuccess g now T =
     (if g \<noteq> trackedGeneration T then (no_action, beginGeneration g now T)
      else if tripped T then (no_action, T)
      else
        (let T1 = advanceWindow now T
         in if 0 < consecutiveFailures T1
            then (no_action\<lparr>recovered := True, consecutiveSeen := consecutiveFailures T1,
                            windowedSeen := windowedFailures T1,
                            suppressedSinceLast := suppressedSinceLastEmit T1\<rparr>,
                  T1\<lparr>consecutiveFailures := 0, suppressedSinceLastEmit := 0\<rparr>)
            else (no_action, T1)))"

section \<open>What the ring of buckets means\<close>

text \<open>
  Read from the current bucket backwards, the ring is a shift register: \<open>recent T ! d\<close> is the
  bucket of \<open>d\<close> seconds ago.
\<close>

definition recent :: "failure_tracker \<Rightarrow> u64 list" where
  "recent T = map (\<lambda>d. buckets T ! ((bucketIndex T + window_length T - d) mod window_length T))
                  [0 ..< window_length T]"

definition ring_ok :: "failure_tracker \<Rightarrow> bool" where
  "ring_ok T \<longleftrightarrow> 0 < window_length T \<and> length (buckets T) = window_length T
               \<and> bucketIndex T < window_length T \<and> windowedFailures T = sum_list (buckets T)"

lemma length_recent [simp]: "length (recent T) = window_length T"
  by (simp add: recent_def)

lemma ring_ok_beginGeneration:
  "0 < window_length T \<Longrightarrow> ring_ok (beginGeneration g now T)"
  by (simp add: ring_ok_def beginGeneration_def window_length_def sum_list_replicate)

lemma ring_ok_new: "ring_ok (new_tracker cfg)"
  by (simp add: ring_ok_def new_tracker_def window_length_def Let_def unat_gt_0 sum_list_replicate)

lemma sum_list_update_word:
  "i < length xs \<Longrightarrow> sum_list (xs[i := (x :: u64)]) = sum_list xs - xs ! i + x"
  by (induction xs arbitrary: i) (auto split: nat.split simp: algebra_simps nth_Cons)

lemma window_length_expire [simp]: "window_length (expire_bucket T) = window_length T"
  by (simp add: expire_bucket_def window_length_def Let_def)

lemma ring_ok_expire: "ring_ok T \<Longrightarrow> ring_ok (expire_bucket T)"
  unfolding ring_ok_def window_length_expire
  by (simp add: expire_bucket_def Let_def sum_list_update_word)

lemma ring_ok_expires: "ring_ok T \<Longrightarrow> ring_ok ((expire_bucket ^^ n) T)"
  by (induction n) (simp_all add: ring_ok_expire)

lemma window_length_expires [simp]: "window_length ((expire_bucket ^^ n) T) = window_length T"
  by (induction n) simp_all

lemma ring_slots_distinct:
  assumes "(0 :: nat) < W" "i < W" "d < W" "e < W" "(i + W - d) mod W = (i + W - e) mod W"
  shows "d = e"
proof -
  have slot: "(i + W - d) mod W = (if d \<le> i then i - d else i + W - d)" if "d < W" for d
    using assms(2) that by (simp add: mod_if)
  show ?thesis using assms(2-5) slot [of d] slot [of e] by (auto split: if_splits)
qed

lemma recent_expire:
  assumes "ring_ok T"
  shows "recent (expire_bucket T) = 0 # butlast (recent T)"
proof (rule nth_equalityI)
  let ?W = "window_length T" and ?i = "bucketIndex T"
  have W: "0 < ?W" "length (buckets T) = ?W" "?i < ?W" using assms by (simp_all add: ring_ok_def)
  show "length (recent (expire_bucket T)) = length (0 # butlast (recent T))" using W by simp
  fix d assume "d < length (recent (expire_bucket T))"
  then have d: "d < ?W" by simp
  define j where "j = (?i + 1) mod ?W"
  have j: "j < ?W" using W by (simp add: j_def)
  have at: "recent (expire_bucket T) ! d = (buckets T)[j := 0] ! ((j + ?W - d) mod ?W)"
    using d by (simp add: recent_def expire_bucket_def Let_def j_def window_length_def)
  show "recent (expire_bucket T) ! d = (0 # butlast (recent T)) ! d"
  proof (cases d)
    case 0
    then show ?thesis using at W j by simp
  next
    case (Suc d')
    have "(j + ?W - d) mod ?W = (?i + ?W - d') mod ?W"
    proof (cases "?i + 1 = ?W")
      case True
      then have "?i + ?W - d' = ?W - d + ?W" "j = 0" using Suc d by (simp_all add: j_def)
      then show ?thesis using Suc by simp
    next
      case False
      then show ?thesis using W(3) Suc by (simp add: j_def)
    qed
    moreover have "(j + ?W - d) mod ?W \<noteq> j"
      using ring_slots_distinct [of ?W j d 0] W j d Suc by auto
    ultimately show ?thesis using at Suc d by (simp add: nth_butlast recent_def)
  qed
qed

lemma recent_expires:
  assumes "ring_ok T" "n \<le> window_length T" "d < window_length T"
  shows "recent ((expire_bucket ^^ n) T) ! d = (if d < n then 0 else recent T ! (d - n))"
  using assms(2,3)
proof (induction n arbitrary: d)
  case (Suc n)
  have step: "recent ((expire_bucket ^^ Suc n) T) = 0 # butlast (recent ((expire_bucket ^^ n) T))"
    using recent_expire [OF ring_ok_expires [OF assms(1)], of n] by simp
  show ?case
    using Suc.IH [of "d - 1"] Suc.prems
    by (subst step) (auto simp: nth_Cons nth_butlast split: nat.split)
qed simp

lemma sum_list_recent:
  assumes "ring_ok T"
  shows "sum_list (recent T) = windowedFailures T"
proof -
  let ?W = "window_length T" and ?f = "\<lambda>d. (bucketIndex T + window_length T - d) mod window_length T"
  have W: "0 < ?W" "length (buckets T) = ?W" "bucketIndex T < ?W" using assms by (simp_all add: ring_ok_def)
  have inj: "inj_on ?f {..<?W}"
    by (rule inj_onI) (use ring_slots_distinct [OF W(1) W(3)] in blast)
  have "?f ` {..<?W} \<subseteq> {..<?W}" using W(1) by auto
  then have "bij_betw ?f {..<?W} {..<?W}"
    using endo_inj_surj [of "{..<?W}" ?f] inj by (simp only: bij_betw_def finite_lessThan simp_thms)
  then have "(\<Sum>d<?W. buckets T ! ?f d) = (\<Sum>j<?W. buckets T ! j)"
    by (rule sum.reindex_bij_betw)
  then have "(\<Sum>d<?W. buckets T ! ?f d) = sum_list (buckets T)"
    unfolding sum_list_sum_nth W(2) atLeast0LessThan .
  moreover have "sum_list (recent T) = (\<Sum>d<?W. buckets T ! ?f d)"
    unfolding recent_def interv_sum_list_conv_sum_set_nat set_upt atLeast0LessThan ..
  ultimately show ?thesis using assms by (simp only: ring_ok_def)
qed

section \<open>What the counters mean\<close>

text \<open>
  The history of one generation: the outcomes of its frame sets and when they were recorded.
  Its reference reading needs no ring: the failures at the end of the history, and the failures
  of the last \<open>windowSeconds\<close> seconds, seconds counted from the start of the generation.
\<close>

datatype send_outcome = Sent (outcome_time: int) | Failed (outcome_time: int)

definition is_failed :: "send_outcome \<Rightarrow> bool" where
  "is_failed x = (case x of Sent _ \<Rightarrow> False | Failed _ \<Rightarrow> True)"

lemma is_failed_simps [simp]: "\<not> is_failed (Sent t)" "is_failed (Failed t)"
  by (simp_all add: is_failed_def)

definition record_outcome :: "u64 \<Rightarrow> send_outcome \<Rightarrow> failure_tracker \<Rightarrow> breaker_action \<times> failure_tracker" where
  "record_outcome g x T = (case x of Sent t \<Rightarrow> recordSuccess g t T | Failed t \<Rightarrow> recordFailure g t T)"

primrec feed :: "u64 \<Rightarrow> send_outcome list \<Rightarrow> failure_tracker \<Rightarrow> breaker_action list \<times> failure_tracker" where
  "feed g [] T = ([], T)"
| "feed g (x # xs) T =
     (let (a, T1) = record_outcome g x T; (as, T2) = feed g xs T1 in (a # as, T2))"

definition trailing_failures :: "send_outcome list \<Rightarrow> nat" where
  "trailing_failures xs = length (takeWhile is_failed (rev xs))"

definition second_of :: "int \<Rightarrow> int \<Rightarrow> int" where
  "second_of t0 t = (t - t0) div NANOSECONDS_PER_SECOND"

definition failure_seconds :: "int \<Rightarrow> send_outcome list \<Rightarrow> int list" where
  "failure_seconds t0 xs = map (second_of t0 \<circ> outcome_time) (filter is_failed xs)"

definition recent_failures :: "int \<Rightarrow> nat \<Rightarrow> int \<Rightarrow> send_outcome list \<Rightarrow> nat" where
  "recent_failures t0 W now xs =
     length (filter (\<lambda>s. second_of t0 now - s < int W) (failure_seconds t0 xs))"

lemma feed_snoc:
  "feed g (xs @ [x]) T =
     (let (as, T1) = feed g xs T; (a, T2) = record_outcome g x T1 in (as @ [a], T2))"
  by (induction xs arbitrary: T) (simp_all split: prod.splits)

lemma second_of_mono: "s \<le> t \<Longrightarrow> second_of t0 s \<le> second_of t0 t"
  by (simp add: second_of_def NANOSECONDS_PER_SECOND_def zdiv_mono1)

text \<open>The ring holds, for each of the last seconds, the number of failures in that second.\<close>

definition ring_counts :: "int \<Rightarrow> int \<Rightarrow> int list \<Rightarrow> failure_tracker \<Rightarrow> bool" where
  "ring_counts t0 cur ss T \<longleftrightarrow>
     ring_ok T \<and> bucketTime T = t0 + cur * NANOSECONDS_PER_SECOND \<and> (\<forall>s\<in>set ss. s \<le> cur)
     \<and> (\<forall>d < window_length T. recent T ! d = of_nat (count_list ss (cur - int d)))"

lemma recent_bucketTime [simp]: "recent (T\<lparr>bucketTime := b\<rparr>) = recent T"
  by (simp add: recent_def window_length_def)

lemma ring_ok_bucketTime [simp]: "ring_ok (T\<lparr>bucketTime := b\<rparr>) = ring_ok T"
  by (simp add: ring_ok_def window_length_def)

lemma window_length_bucketTime [simp]: "window_length (T\<lparr>bucketTime := b\<rparr>) = window_length T"
  by (simp add: window_length_def)

lemma bucketTime_expires [simp]: "bucketTime ((expire_bucket ^^ n) T) = bucketTime T"
  by (induction n) (simp_all add: expire_bucket_def Let_def)

lemma count_list_above: "\<forall>s\<in>set ss. s \<le> cur \<Longrightarrow> cur < x \<Longrightarrow> count_list ss x = 0" for cur x :: int
  by (rule count_notin) auto

lemma advanceWindow_counts:
  assumes R: "ring_counts t0 cur ss T" and now: "cur \<le> second_of t0 now"
  shows "ring_counts t0 (second_of t0 now) ss (advanceWindow now T)"
proof -
  let ?N = NANOSECONDS_PER_SECOND and ?cur' = "second_of t0 now"
  have N: "0 < ?N" by (simp add: NANOSECONDS_PER_SECOND_def)
  have bt: "bucketTime T = t0 + cur * ?N" using R by (simp add: ring_counts_def)
  have split_now: "now - bucketTime T = (now - t0) - cur * ?N" using bt by simp
  have "cur * ?N \<le> now - t0"
    using mult_right_mono [OF now, of ?N] N pos_mod_sign [OF N, of "now - t0"]
      div_mult_mod_eq [of "now - t0" ?N]
    unfolding second_of_def by linarith
  then have el: "whole_seconds (now - bucketTime T) = ?cur' - cur"
    using N by (simp add: split_now whole_seconds_nonneg second_of_def div_diff NANOSECONDS_PER_SECOND_def)
  show ?thesis
  proof (cases "?cur' = cur")
    case True
    then show ?thesis using R el by (simp add: advanceWindow_def Let_def)
  next
    case False
    define e where "e = ?cur' - cur"
    define n where "n = nat (min e (int (window_length T)))"
    have e: "0 < e" using now False by (simp add: e_def)
    have adv: "advanceWindow now T =
        ((expire_bucket ^^ n) T)\<lparr>bucketTime := bucketTime T + e * ?N\<rparr>"
      using e el by (simp add: advanceWindow_def Let_def n_def e_def)
    have ok: "ring_ok T" and le: "\<forall>s\<in>set ss. s \<le> cur"
      and cnt: "\<And>d. d < window_length T \<Longrightarrow> recent T ! d = of_nat (count_list ss (cur - int d))"
      using R by (auto simp: ring_counts_def)
    have n: "n \<le> window_length T" by (simp add: n_def)
    have "recent (advanceWindow now T) ! d = of_nat (count_list ss (?cur' - int d))"
      if d: "d < window_length T" for d
    proof (cases "d < n")
      case True
      then have "cur < ?cur' - int d" by (auto simp: n_def e_def)
      then show ?thesis using True d n by (simp add: adv recent_expires [OF ok n] count_list_above [OF le])
    next
      case False
      then have "int n = e" using d e by (auto simp: n_def min_def split: if_splits)
      then have "?cur' - int d = cur - int (d - n)" using False by (simp add: e_def)
      moreover have "recent (advanceWindow now T) ! d = of_nat (count_list ss (cur - int (d - n)))"
        using False d n by (simp add: adv recent_expires [OF ok n] cnt)
      ultimately show ?thesis by simp
    qed
    then show ?thesis
      using ok le e n bt
      by (auto simp: ring_counts_def adv ring_ok_expires e_def algebra_simps)
  qed
qed

lemma count_list_window:
  assumes "\<forall>s\<in>set ss. s \<le> cur"
  shows "(\<Sum>d<W. count_list ss (cur - int d)) = length (filter (\<lambda>s. cur - s < int W) ss)"
  using assms
proof (induction ss)
  case (Cons s ss)
  have "(\<Sum>d<W. if s = cur - int d then 1 else 0 :: nat) = (\<Sum>d<W. if d = nat (cur - s) then 1 else 0)"
    using Cons.prems by (intro sum.cong) auto
  also have "\<dots> = (if cur - s < int W then 1 else 0)" using Cons.prems by auto
  finally have "(\<Sum>d<W. if s = cur - int d then 1 else 0 :: nat) = (if cur - s < int W then 1 else 0)" .
  moreover have "(\<Sum>d<W. count_list (s # ss) (cur - int d)) =
      (\<Sum>d<W. count_list ss (cur - int d)) + (\<Sum>d<W. if s = cur - int d then 1 else 0)"
    unfolding sum.distrib [symmetric] by (rule sum.cong) auto
  ultimately show ?case using Cons by simp
qed simp

lemma ring_counts_windowed:
  assumes "ring_counts t0 cur ss T"
  shows "windowedFailures T = of_nat (length (filter (\<lambda>s. cur - s < int (window_length T)) ss))"
proof -
  let ?W = "window_length T"
  have "windowedFailures T = sum_list (recent T)"
    using assms by (simp add: ring_counts_def sum_list_recent)
  also have "\<dots> = (\<Sum>d<?W. recent T ! d)"
    by (simp add: sum_list_sum_nth atLeast0LessThan)
  also have "\<dots> = (\<Sum>d<?W. of_nat (count_list ss (cur - int d)))"
    using assms by (simp add: ring_counts_def)
  also have "\<dots> = of_nat (\<Sum>d<?W. count_list ss (cur - int d))" by simp
  also have "\<dots> = of_nat (length (filter (\<lambda>s. cur - s < int ?W) ss))"
    using assms by (subst count_list_window) (simp_all add: ring_counts_def)
  finally show ?thesis .
qed

lemma ring_counts_begin:
  assumes "0 < window_length T"
  shows "ring_counts t0 0 [] (beginGeneration g t0 T)"
proof -
  have W: "window_length (beginGeneration g t0 T) = window_length T"
    by (simp add: beginGeneration_def window_length_def)
  have "recent (beginGeneration g t0 T) ! d = 0" if "d < window_length T" for d
    using that assms by (simp add: recent_def W) (simp add: beginGeneration_def window_length_def)
  then show ?thesis
    using assms by (simp add: ring_counts_def ring_ok_beginGeneration W) (simp add: beginGeneration_def)
qed

text \<open>Counting one failure in the current bucket.\<close>

definition count_failure :: "failure_tracker \<Rightarrow> failure_tracker" where
  "count_failure T = T\<lparr>consecutiveFailures := consecutiveFailures T + 1,
     windowedFailures := windowedFailures T + 1,
     buckets := (buckets T)[bucketIndex T := buckets T ! bucketIndex T + 1]\<rparr>"

lemma ring_counts_failure:
  assumes R: "ring_counts t0 cur ss T"
  shows "ring_counts t0 cur (cur # ss) (count_failure T)"
proof -
  let ?T = "count_failure T" and ?W = "window_length T"
  have ok: "0 < ?W" "length (buckets T) = ?W" "bucketIndex T < ?W" using R by (simp_all add: ring_counts_def ring_ok_def)
  have W: "window_length ?T = ?W" by (simp add: count_failure_def window_length_def)
  have rec: "recent ?T ! d = recent T ! d + (if d = 0 then 1 else 0)" if d: "d < ?W" for d
  proof (cases "d = 0")
    case True
    then show ?thesis using ok by (simp add: recent_def W) (simp add: count_failure_def window_length_def)
  next
    case False
    then have "(bucketIndex T + ?W - d) mod ?W \<noteq> bucketIndex T"
      using ring_slots_distinct [of ?W "bucketIndex T" d 0] ok d by auto
    then show ?thesis using ok d False
      by (simp add: recent_def W) (simp add: count_failure_def window_length_def)
  qed
  have "ring_ok ?T"
    using R ok by (simp add: ring_counts_def ring_ok_def W) (simp add: count_failure_def sum_list_update_word)
  then show ?thesis
    using R by (auto simp: ring_counts_def W rec) (simp_all add: count_failure_def)
qed

section \<open>When the breaker trips\<close>

lemma config_expires [simp]: "breakerConfig ((expire_bucket ^^ n) T) = breakerConfig T"
  "trackedGeneration ((expire_bucket ^^ n) T) = trackedGeneration T"
  "tripped ((expire_bucket ^^ n) T) = tripped T"
  "consecutiveFailures ((expire_bucket ^^ n) T) = consecutiveFailures T"
  by (induction n; simp add: expire_bucket_def Let_def)+

lemma advanceWindow_frame [simp]:
  "breakerConfig (advanceWindow now T) = breakerConfig T"
  "trackedGeneration (advanceWindow now T) = trackedGeneration T"
  "tripped (advanceWindow now T) = tripped T"
  "consecutiveFailures (advanceWindow now T) = consecutiveFailures T"
  by (simp_all add: advanceWindow_def Let_def)

definition trips_now :: "failure_tracker \<Rightarrow> bool" where
  "trips_now T \<longleftrightarrow> ucast (consecutiveFailuresToTrip (breakerConfig T)) \<le> consecutiveFailures T
                 \<or> ucast (windowedFailuresToTrip (breakerConfig T)) \<le> windowedFailures T"

text \<open>Two trackers that differ at most in the latch and in the logging gate.\<close>

definition agrees :: "failure_tracker \<Rightarrow> failure_tracker \<Rightarrow> bool" where
  "agrees T F \<longleftrightarrow> breakerConfig T = breakerConfig F \<and> trackedGeneration T = trackedGeneration F
     \<and> consecutiveFailures T = consecutiveFailures F \<and> windowedFailures T = windowedFailures F
     \<and> buckets T = buckets F \<and> bucketIndex T = bucketIndex F \<and> bucketTime T = bucketTime F"

lemma agrees_ring_counts: "agrees T F \<Longrightarrow> ring_counts t0 cur ss T = ring_counts t0 cur ss F"
  by (simp add: agrees_def ring_counts_def ring_ok_def recent_def window_length_def)

lemma ring_counts_consecutive [simp]:
  "ring_counts t0 cur ss (T\<lparr>consecutiveFailures := v\<rparr>) = ring_counts t0 cur ss T"
  by (simp add: ring_counts_def ring_ok_def recent_def window_length_def)

lemma recordFailure_spec:
  assumes "trackedGeneration T = g" "\<not> tripped T" "recordFailure g now T = (a, T')"
  shows "trip a = trips_now (count_failure (advanceWindow now T))"
    and "tripped T' = trip a" and "agrees T' (count_failure (advanceWindow now T))"
  using assms by (auto simp: recordFailure_def Let_def trips_now_def count_failure_def no_action_def
      agrees_def split: if_splits)

lemma recordSuccess_spec:
  assumes "trackedGeneration T = g" "\<not> tripped T" "recordSuccess g now T = (a, T')"
  shows "\<not> trip a" and "\<not> tripped T'"
    and "agrees T' ((advanceWindow now T)\<lparr>consecutiveFailures := 0\<rparr>)"
  using assms by (auto simp: recordSuccess_def Let_def no_action_def agrees_def word_gt_0 split: if_splits)

lemma tripped_stays:
  assumes "trackedGeneration T = g" "tripped T"
  shows "record_outcome g x T = (no_action, T)"
  using assms by (cases x) (simp_all add: record_outcome_def recordFailure_def recordSuccess_def Let_def)

lemma tripped_stays_feed:
  assumes "trackedGeneration T = g" "tripped T"
  shows "feed g xs T = (replicate (length xs) no_action, T)"
  using assms by (induction xs) (simp_all add: tripped_stays)

lemma generation_kept:
  assumes g: "trackedGeneration T = g"
  shows "trackedGeneration (snd (record_outcome g x T)) = g"
proof (cases "tripped T")
  case True
  then show ?thesis using g by (simp add: tripped_stays)
next
  case False
  obtain a T' where r: "record_outcome g x T = (a, T')" by fastforce
  show ?thesis
  proof (cases x)
    case (Sent t)
    then show ?thesis using g r recordSuccess_spec(3) [OF g False, of t a T']
      by (simp add: record_outcome_def agrees_def)
  next
    case (Failed t)
    then show ?thesis using g r recordFailure_spec(3) [OF g False, of t a T']
      by (simp add: record_outcome_def agrees_def count_failure_def)
  qed
qed

lemma generation_kept_feed:
  "trackedGeneration T = g \<Longrightarrow> trackedGeneration (snd (feed g xs T)) = g"
  by (induction xs arbitrary: T) (simp_all add: split_def Let_def generation_kept)

text \<open>What the tracker knows of a history in which it has not tripped.\<close>

definition knows :: "int \<Rightarrow> int \<Rightarrow> send_outcome list \<Rightarrow> failure_tracker \<Rightarrow> bool" where
  "knows t0 t xs T \<longleftrightarrow> ring_counts t0 (second_of t0 t) (rev (failure_seconds t0 xs)) T
     \<and> consecutiveFailures T = of_nat (trailing_failures xs)"

lemma knows_step:
  assumes K: "knows t0 t xs T" and g: "trackedGeneration T = g" "\<not> tripped T"
    and le: "t \<le> outcome_time x" and r: "record_outcome g x T = (a, T')"
  shows "knows t0 (outcome_time x) (xs @ [x]) T'"
    and "is_failed x \<Longrightarrow> trip a = trips_now T'" and "trip a = tripped T'"
    and "breakerConfig T' = breakerConfig T"
proof -
  let ?A = "advanceWindow (outcome_time x) T" and ?cur = "second_of t0 (outcome_time x)"
  have A: "ring_counts t0 ?cur (rev (failure_seconds t0 xs)) ?A"
    using K second_of_mono [OF le] unfolding knows_def by (elim conjE) (rule advanceWindow_counts)
  have c: "consecutiveFailures T = of_nat (trailing_failures xs)" using K by (simp add: knows_def)
  have "knows t0 (outcome_time x) (xs @ [x]) T' \<and> (is_failed x \<longrightarrow> trip a = trips_now T')
     \<and> trip a = tripped T' \<and> breakerConfig T' = breakerConfig T"
  proof (cases x)
    case (Sent u)
    then have r': "recordSuccess g u T = (a, T')" using r by (simp add: record_outcome_def)
    note spec = recordSuccess_spec [OF g r']
    have fs: "failure_seconds t0 (xs @ [x]) = failure_seconds t0 xs" "trailing_failures (xs @ [x]) = 0"
      using Sent by (simp_all add: failure_seconds_def trailing_failures_def)
    have "ring_counts t0 ?cur (rev (failure_seconds t0 xs)) T'"
      using A Sent agrees_ring_counts [OF spec(3)] by simp
    moreover have "consecutiveFailures T' = 0" "breakerConfig T' = breakerConfig T"
      using spec(3) by (simp_all add: agrees_def)
    ultimately show ?thesis using spec(1,2) Sent by (simp add: knows_def fs [unfolded Sent])
  next
    case (Failed u)
    then have r': "recordFailure g u T = (a, T')" using r by (simp add: record_outcome_def)
    note spec = recordFailure_spec [OF g r']
    have fs: "failure_seconds t0 (xs @ [x]) = failure_seconds t0 xs @ [?cur]"
      "trailing_failures (xs @ [x]) = Suc (trailing_failures xs)"
      using Failed by (simp_all add: failure_seconds_def trailing_failures_def)
    have "ring_counts t0 ?cur (?cur # rev (failure_seconds t0 xs)) (count_failure ?A)"
      by (rule ring_counts_failure [OF A])
    then have "ring_counts t0 ?cur (?cur # rev (failure_seconds t0 xs)) T'"
      using Failed agrees_ring_counts [OF spec(3)] by simp
    moreover have "consecutiveFailures T' = of_nat (Suc (trailing_failures xs))"
      "breakerConfig T' = breakerConfig T"
      using spec(3) c by (simp_all add: agrees_def count_failure_def)
    moreover have "trip a = trips_now T'"
      using spec(1,3) by (simp add: agrees_def trips_now_def)
    ultimately show ?thesis using spec(2) Failed by (simp add: knows_def fs [unfolded Failed])
  qed
  then show "knows t0 (outcome_time x) (xs @ [x]) T'" "is_failed x \<Longrightarrow> trip a = trips_now T'"
    "trip a = tripped T'" "breakerConfig T' = breakerConfig T" by simp_all
qed

lemma last_time_le: "sorted (t0 # map outcome_time (xs @ [x])) \<Longrightarrow>
    last (t0 # map outcome_time xs) \<le> outcome_time x"
  by (cases xs rule: rev_cases) (auto simp: sorted_append)

lemma knows_feed:
  assumes "0 < window_length T0" "sorted (t0 # map outcome_time xs)"
    and "\<not> tripped (snd (feed g xs (beginGeneration g t0 T0)))"
  shows "knows t0 (last (t0 # map outcome_time xs)) xs (snd (feed g xs (beginGeneration g t0 T0)))
    \<and> breakerConfig (snd (feed g xs (beginGeneration g t0 T0))) = breakerConfig T0"
  using assms(2,3)
proof (induction xs rule: rev_induct)
  case Nil
  show ?case using ring_counts_begin [OF assms(1), of t0 g]
    by (simp add: knows_def failure_seconds_def trailing_failures_def second_of_def)
       (simp add: beginGeneration_def)
next
  case (snoc x xs)
  let ?T = "snd (feed g xs (beginGeneration g t0 T0))"
  obtain a T' where r: "record_outcome g x ?T = (a, T')" by fastforce
  have T': "snd (feed g (xs @ [x]) (beginGeneration g t0 T0)) = T'"
    using r by (simp add: feed_snoc split_def Let_def)
  have g: "trackedGeneration ?T = g"
    by (rule generation_kept_feed) (simp add: beginGeneration_def)
  have nt: "\<not> tripped ?T" using snoc.prems(2) r T' tripped_stays [OF g, of x] by auto
  have "sorted (t0 # map outcome_time xs)" using snoc.prems(1) by (simp add: sorted_append)
  from snoc.IH [OF this nt]
  have K: "knows t0 (last (t0 # map outcome_time xs)) xs ?T" and cfg: "breakerConfig ?T = breakerConfig T0"
    by simp_all
  show ?case
    using knows_step(1,4) [OF K g nt last_time_le [OF snoc.prems(1)] r] T' cfg by simp
qed

lemma trailing_failures_le: "trailing_failures xs \<le> length xs"
  unfolding trailing_failures_def using length_takeWhile_le [of is_failed "rev xs"] by simp

lemma recent_failures_le: "recent_failures t0 W now xs \<le> length xs"
  unfolding recent_failures_def failure_seconds_def
  by (rule order_trans [OF length_filter_le]) simp

lemma unat_ucast_32_64 [simp]: "unat (ucast (c :: u32) :: u64) = unat c"
  using unsigned_less [where 'a = nat, of c] by (simp add: unsigned_ucast_eq take_bit_nat_eq_self)

lemma count_reaches: "n < 2 ^ 64 \<Longrightarrow> ucast (c :: u32) \<le> (of_nat n :: u64) \<longleftrightarrow> unat c \<le> n"
  by (simp add: word_le_nat_alt unsigned_of_nat take_bit_nat_eq_self)

text \<open>
  C31: the circuit breaker trips exactly on persistent failure. After any history of a generation
  that has not tripped it, the next failure trips it if and only if the failures since the last
  success, or the failures of the last \<open>windowSeconds\<close> seconds, the new one included, reach the
  configured threshold. The ring of buckets and its counters appear on one side only.
\<close>

theorem breaker_trips_exactly:
  assumes "0 < window_length T0" "sorted (t0 # map outcome_time xs @ [now])"
    and "Suc (length xs) < 2 ^ 64" "\<not> tripped (snd (feed g xs (beginGeneration g t0 T0)))"
  shows "trip (fst (recordFailure g now (snd (feed g xs (beginGeneration g t0 T0))))) \<longleftrightarrow>
      unat (consecutiveFailuresToTrip (breakerConfig T0)) \<le> Suc (trailing_failures xs)
      \<or> unat (windowedFailuresToTrip (breakerConfig T0))
          \<le> Suc (recent_failures t0 (window_length T0) now xs)"
proof -
  let ?T = "snd (feed g xs (beginGeneration g t0 T0))" and ?x = "Failed now"
  obtain a T' where r: "record_outcome g ?x ?T = (a, T')" by fastforce
  have g: "trackedGeneration ?T = g" by (rule generation_kept_feed) (simp add: beginGeneration_def)
  have srt: "sorted (t0 # map outcome_time xs)" "sorted (t0 # map outcome_time (xs @ [?x]))"
    using assms(2) by (simp_all add: sorted_append)
  note K = knows_feed [OF assms(1) srt(1) assms(4)]
  note step = knows_step [OF conjunct1 [OF K] g assms(4) last_time_le [OF srt(2)] r]
  have W: "window_length T' = window_length T0" "breakerConfig T' = breakerConfig T0"
    using step(4) K by (simp_all add: window_length_def)
  have secs: "failure_seconds t0 (xs @ [?x]) = failure_seconds t0 xs @ [second_of t0 now]"
    by (simp add: failure_seconds_def)
  have "consecutiveFailures T' = of_nat (Suc (trailing_failures xs))"
    using step(1) by (simp add: knows_def trailing_failures_def)
  moreover have "windowedFailures T' = of_nat (Suc (recent_failures t0 (window_length T0) now xs))"
    using ring_counts_windowed [of t0 "second_of t0 now" "rev (failure_seconds t0 (xs @ [?x]))" T']
      step(1) assms(1)
    by (simp add: knows_def W secs recent_failures_def rev_filter [symmetric])
  moreover have "trip a = trips_now T'" using step(2) by simp
  moreover have "fst (recordFailure g now ?T) = a" using r by (simp add: record_outcome_def)
  ultimately show ?thesis
    using count_reaches trailing_failures_le [of xs] recent_failures_le [of t0 "window_length T0" now xs] assms(3)
    by (simp only: trips_now_def W)
qed

theorem breaker_trips_exactly_witness:
  "trip (fst (recordFailure 7 3 (snd (feed 7 [Failed 1, Sent 1, Failed 2]
      (beginGeneration 7 0 (new_tracker \<lparr>consecutiveFailuresToTrip = 2, windowedFailuresToTrip = 9,
        windowSeconds = 2, detailEmitInterval = 1\<rparr>)))))) \<longleftrightarrow>
   unat (2 :: u32) \<le> Suc (trailing_failures [Failed 1, Sent 1, Failed 2])
   \<or> unat (9 :: u32) \<le> Suc (recent_failures 0 2 3 [Failed 1, Sent 1, Failed 2])"
  using breaker_trips_exactly [of "new_tracker \<lparr>consecutiveFailuresToTrip = 2, windowedFailuresToTrip = 9,
        windowSeconds = 2, detailEmitInterval = 1\<rparr>" 0 "[Failed 1, Sent 1, Failed 2]" 3 7]
  by (simp add: new_tracker_def window_length_def) code_simp

text \<open>A trip is reported once; the generation is silent afterwards.\<close>

lemma breaker_trips_once:
  "length (filter trip (fst (feed g xs (beginGeneration g t0 T0))))
     = (if tripped (snd (feed g xs (beginGeneration g t0 T0))) then 1 else 0)"
proof -
  have "length (filter trip (fst (feed g xs T))) = (if tripped (snd (feed g xs T)) then 1 else 0)"
    if "trackedGeneration T = g" "\<not> tripped T" for T
    using that
  proof (induction xs arbitrary: T)
    case (Cons x xs)
    obtain a T' where r: "record_outcome g x T = (a, T')" by fastforce
    have g: "trackedGeneration T' = g" using generation_kept [OF Cons.prems(1), of x] r by simp
    have a: "trip a = tripped T'"
    proof (cases x)
      case (Sent t)
      then show ?thesis using recordSuccess_spec(1,2) [OF Cons.prems] r by (simp add: record_outcome_def)
    next
      case (Failed t)
      then show ?thesis using recordFailure_spec(2) [OF Cons.prems] r by (simp add: record_outcome_def)
    qed
    show ?case
    proof (cases "tripped T'")
      case True
      then show ?thesis using r a tripped_stays_feed [OF g True]
        by (simp add: filter_replicate no_action_def)
    next
      case False
      obtain as T'' where f: "feed g xs T' = (as, T'')" by fastforce
      then show ?thesis using r a False Cons.IH [OF g False] by simp
    qed
  qed simp
  then show ?thesis by (simp add: beginGeneration_def)
qed

section \<open>Terminal failures\<close>

record terminal_failure =
  tf_generation :: u64
  tf_errorCode :: int
  tf_errorMessage :: string
  tf_firstFailedChannel :: u8
  tf_rtpTimestamp :: u32
  tf_commandType :: string
  tf_frameIndex :: u64
  tf_consecutiveFailures :: u64
  tf_ownerId :: string
  tf_trace :: async_trace

definition empty_failure :: terminal_failure where
  "empty_failure = \<lparr>tf_generation = 0, tf_errorCode = 0, tf_errorMessage = [],
     tf_firstFailedChannel = 0, tf_rtpTimestamp = 0, tf_commandType = [], tf_frameIndex = 0,
     tf_consecutiveFailures = 0, tf_ownerId = [], tf_trace = no_trace\<rparr>"

definition RING_SIZE :: nat where
  "RING_SIZE = 4"

text \<open>
  The entries are behind a mutex, the generations are atomics that readers load without it.
  \<open>nextSlot\<close> is a size_t of which only the value modulo the ring size matters.
\<close>

record failure_registry =
  reg_entries :: "terminal_failure list"
  reg_generations :: "u64 list"
  reg_nextSlot :: nat

definition new_registry :: failure_registry where
  "new_registry = \<lparr>reg_entries = replicate RING_SIZE empty_failure,
     reg_generations = replicate RING_SIZE 0, reg_nextSlot = 0\<rparr>"

text \<open>\<open>publish\<close> in its two visible steps: the entry under the lock, then the generation.\<close>

definition publish_entry :: "terminal_failure \<Rightarrow> failure_registry \<Rightarrow> nat \<times> failure_registry" where
  "publish_entry f R =
     (let slot = reg_nextSlot R mod RING_SIZE
      in (slot, R\<lparr>reg_entries := (reg_entries R)[slot := f], reg_nextSlot := reg_nextSlot R + 1\<rparr>))"

definition publish_mark :: "nat \<Rightarrow> u64 \<Rightarrow> failure_registry \<Rightarrow> failure_registry" where
  "publish_mark slot g R = R\<lparr>reg_generations := (reg_generations R)[slot := g]\<rparr>"

definition publish :: "terminal_failure \<Rightarrow> failure_registry \<Rightarrow> failure_registry" where
  "publish f R =
     (if tf_generation f = 0 then R
      else (let (slot, R1) = publish_entry f R in publish_mark slot (tf_generation f) R1))"

definition isTripped :: "u64 \<Rightarrow> failure_registry \<Rightarrow> bool" where
  "isTripped g R = (if g = 0 then False else g \<in> set (reg_generations R))"

definition find_failure :: "u64 \<Rightarrow> failure_registry \<Rightarrow> terminal_failure option" where
  "find_failure g R =
     (if \<not> isTripped g R then None else find (\<lambda>e. tf_generation e = g) (reg_entries R))"

text \<open>Between two publications, the ring of generations names the entries.\<close>

definition ring_matches :: "failure_registry \<Rightarrow> bool" where
  "ring_matches R \<longleftrightarrow> length (reg_entries R) = RING_SIZE
                     \<and> reg_generations R = map tf_generation (reg_entries R)"

lemma ring_matches_new [simp]: "ring_matches new_registry"
  by (simp add: ring_matches_def new_registry_def empty_failure_def)

lemma ring_matches_publish [invariant_intros]: "ring_matches R \<Longrightarrow> ring_matches (publish f R)"
  by (simp add: ring_matches_def publish_def publish_entry_def publish_mark_def Let_def map_update)

lemma isTripped_find:
  assumes "ring_matches R" "isTripped g R"
  shows "\<exists>f. find_failure g R = Some f \<and> tf_generation f = g"
proof -
  from assms have "\<exists>e\<in>set (reg_entries R). tf_generation e = g"
    by (auto simp: ring_matches_def isTripped_def split: if_splits)
  then obtain f where "find (\<lambda>e. tf_generation e = g) (reg_entries R) = Some f"
    by (cases "find (\<lambda>e. tf_generation e = g) (reg_entries R)") (auto simp: find_None_iff)
  then show ?thesis using assms(2) by (auto simp: find_failure_def find_Some_iff)
qed

lemma isTripped_publish:
  "tf_generation f \<noteq> 0 \<Longrightarrow> ring_matches R \<Longrightarrow> isTripped (tf_generation f) (publish f R)"
  by (simp add: isTripped_def publish_def publish_entry_def publish_mark_def Let_def ring_matches_def
      set_update_memI RING_SIZE_def)


text \<open>Read from the slot that is overwritten next, the ring is the last four publications.\<close>

definition oldest_first :: "failure_registry \<Rightarrow> terminal_failure list" where
  "oldest_first R = rotate (reg_nextSlot R mod RING_SIZE) (reg_entries R)"

lemma set_oldest_first [simp]: "set (oldest_first R) = set (reg_entries R)"
  by (simp add: oldest_first_def)

lemma ring_push:
  assumes "length xs = RING_SIZE"
  shows "rotate (Suc n mod RING_SIZE) (xs[n mod RING_SIZE := x]) = tl (rotate (n mod RING_SIZE) xs) @ [x]"
proof -
  obtain a b c d where xs: "xs = [a, b, c, d]"
    using assms by (auto simp: RING_SIZE_def numeral_eq_Suc length_Suc_conv)
  have "n mod 4 < 4" by simp
  then consider "n mod 4 = 0" | "n mod 4 = 1" | "n mod 4 = 2" | "n mod 4 = 3" by linarith
  then show ?thesis
    by cases (simp_all add: xs RING_SIZE_def mod_Suc rotate_def numeral_2_eq_2 numeral_3_eq_3)
qed

lemma oldest_first_publish:
  assumes "ring_matches R" "tf_generation f \<noteq> 0"
  shows "oldest_first (publish f R) = tl (oldest_first R) @ [f]"
  using assms ring_push [of "reg_entries R" "reg_nextSlot R" f]
  by (simp add: oldest_first_def publish_def publish_entry_def publish_mark_def ring_matches_def Let_def)

lemma drop_snoc: "n < length xs \<Longrightarrow> drop (Suc n) (xs @ [x]) = tl (drop n xs) @ [x]"
  by (simp add: drop_Suc tl_drop)

lemma oldest_first_fold:
  assumes "\<forall>f\<in>set fs. tf_generation f \<noteq> 0"
  shows "ring_matches (fold publish fs new_registry)
    \<and> oldest_first (fold publish fs new_registry) = drop (length fs) (replicate RING_SIZE empty_failure @ fs)"
  using assms
proof (induction fs rule: rev_induct)
  case Nil
  show ?case by (simp add: oldest_first_def) (simp add: new_registry_def)
next
  case (snoc f fs)
  let ?xs = "replicate RING_SIZE empty_failure @ fs"
  have "drop (Suc (length fs)) (?xs @ [f]) = tl (drop (length fs) ?xs) @ [f]"
    by (rule drop_snoc) (simp add: RING_SIZE_def)
  then show ?case
    using snoc by (simp add: ring_matches_publish oldest_first_publish del: drop_append)
qed

text \<open>
  The registry answers for exactly the last four generations that were ended, and every
  generation it reports as tripped has its record.
\<close>

theorem registry_remembers_last_four:
  assumes "\<forall>f\<in>set fs. tf_generation f \<noteq> 0"
  shows "(isTripped g (fold publish fs new_registry)
            \<longleftrightarrow> g \<in> tf_generation ` set (drop (length fs - 4) fs))
       \<and> (isTripped g (fold publish fs new_registry) \<longrightarrow>
            (\<exists>f \<in> set fs. find_failure g (fold publish fs new_registry) = Some f \<and> tf_generation f = g))"
proof -
  define R where "R = fold publish fs new_registry"
  have ok: "ring_matches R" and ring: "set (reg_entries R) =
      set (replicate (4 - length fs) empty_failure) \<union> set (drop (length fs - 4) fs)"
    using oldest_first_fold [OF assms(1)] set_oldest_first [of R] by (simp_all add: R_def RING_SIZE_def)
  have nz: "0 \<notin> tf_generation ` set (drop (length fs - 4) fs)"
    using assms(1) by (auto dest: in_set_dropD)
  have "isTripped g R \<longleftrightarrow> g \<noteq> 0 \<and> g \<in> tf_generation ` set (reg_entries R)"
    using ok by (simp add: isTripped_def ring_matches_def)
  also have "\<dots> \<longleftrightarrow> g \<in> tf_generation ` set (drop (length fs - 4) fs)"
    using nz by (auto simp: ring empty_failure_def)
  finally have "isTripped g R \<longleftrightarrow> g \<in> tf_generation ` set (drop (length fs - 4) fs)" .
  moreover have "\<exists>f \<in> set fs. find_failure g R = Some f \<and> tf_generation f = g" if t: "isTripped g R"
  proof -
    obtain f where f: "find_failure g R = Some f" "tf_generation f = g"
      using isTripped_find [OF ok t] by blast
    then have "f \<in> set (reg_entries R)"
      by (auto simp: find_failure_def find_Some_iff split: if_splits)
    moreover have "f \<noteq> empty_failure" using f(2) t by (auto simp: isTripped_def empty_failure_def)
    ultimately show ?thesis using f ring by (auto dest: in_set_dropD)
  qed
  ultimately show ?thesis by (simp add: R_def)
qed

definition demo_failure :: "u64 \<Rightarrow> terminal_failure" where
  "demo_failure g = empty_failure\<lparr>tf_generation := g\<rparr>"

theorem registry_remembers_last_four_witness:
  "isTripped 2 (fold publish (map demo_failure [1, 2, 3, 4, 5]) new_registry)
   \<and> \<not> isTripped 1 (fold publish (map demo_failure [1, 2, 3, 4, 5]) new_registry)"
  using registry_remembers_last_four [of "map demo_failure [1, 2, 3, 4, 5]" 2]
    registry_remembers_last_four [of "map demo_failure [1, 2, 3, 4, 5]" 1]
  by (simp add: demo_failure_def)

text \<open>
  The comment in \<open>publish\<close> says that a reader who sees \<open>isTripped\<close> can always \<open>find\<close> the details.
  Between its two steps this fails for the generation whose slot is reused: the record is gone
  while the atomic still names it.
\<close>

lemma overwritten_generation_has_no_record:
  "let R = fold publish (map demo_failure [1, 2, 3, 4]) new_registry;
       R' = snd (publish_entry (demo_failure 5) R)
   in isTripped 1 R' \<and> find_failure 1 R' = None"
  by code_simp

end
