(* ===== verification/Rtp_Clock.thy ===== *)
theory Rtp_Clock
  imports Rtp_Health
begin

unbundle bit_operations_syntax

text \<open>
  The clocks of the RTP output: the sample clock of the frames
  (src/src/server/rtp/RtpFrameClock.h) and the mapping from the monotonic clock to NTP and RTP
  time (RtpClockMapping.cpp). Durations and time points are counts of nanoseconds, unbounded
  integers: the 64-bit counts of the code overflow only after 292 years. The system clock ticks
  in nanoseconds, as libstdc++ has it, so the cast of the wall time to its duration is the
  identity.
\<close>

section \<open>The frame clock\<close>

definition RTP_SRATE :: int where "RTP_SRATE = 48000"
definition RTP_FRAME_MS :: int where "RTP_FRAME_MS = 10"
definition RTP_SAMPLES :: int where "RTP_SAMPLES = RTP_SRATE * RTP_FRAME_MS div 1000"

definition reset_clock :: "u32 \<Rightarrow> u32 \<Rightarrow> u32" where
  "reset_clock timestamp nextTimestamp = timestamp"

text \<open>\<open>frameCount * RTP_SAMPLES\<close> is a size_t product, narrowed to 32 bits.\<close>

definition advance :: "u64 \<Rightarrow> u32 \<Rightarrow> u32" where
  "advance frameCount nextTimestamp = nextTimestamp + ucast (frameCount * of_int RTP_SAMPLES)"

lemma RTP_SAMPLES_eq: "RTP_SAMPLES = 480"
  by (simp add: RTP_SAMPLES_def RTP_SRATE_def RTP_FRAME_MS_def)

lemma ucast_mult_64_32: "(ucast (x * y :: u64) :: u32) = ucast x * ucast y"
  by (rule word_unat_eq_iff [THEN iffD2])
     (simp add: unsigned_ucast_eq unat_word_ariths take_bit_eq_mod mod_mod_cancel mod_mult_eq)

lemma advance_eq: "advance n t = t + ucast n * 480"
  by (simp add: advance_def ucast_mult_64_32 RTP_SAMPLES_eq)

lemma advance_one: "advance 1 t = t + 480"
  by (simp add: advance_eq)

section \<open>The wall clock\<close>

definition NTP_UNIX_EPOCH_OFFSET_SECONDS :: int where
  "NTP_UNIX_EPOCH_OFFSET_SECONDS = 2208988800"

definition wallClockToNtp :: "int \<Rightarrow> string + u64" where
  "wallClockToNtp sinceUnixEpoch =
     (let whole = whole_seconds sinceUnixEpoch;
          rem = sinceUnixEpoch - whole * NANOSECONDS_PER_SECOND;
          (whole1, rem1) = (if rem < 0 then (whole - 1, rem + NANOSECONDS_PER_SECOND) else (whole, rem));
          ntpSeconds = whole1 + NTP_UNIX_EPOCH_OFFSET_SECONDS
      in if ntpSeconds < 0 then Inl ''wall time predates the NTP epoch''
         else (let fraction = (of_int rem1 * 2 ^ 32 :: u64) div of_int NANOSECONDS_PER_SECOND
               in Inr (push_bit 32 (of_int ntpSeconds) OR fraction)))"

definition samplesForDuration :: "int \<Rightarrow> u32 \<Rightarrow> u32" where
  "samplesForDuration elapsed sampleRate =
     (let whole = whole_seconds elapsed;
          rem = elapsed - whole * NANOSECONDS_PER_SECOND;
          wholeSamples = whole * uint sampleRate;
          fractionalSamples = trunc_div (rem * uint sampleRate) NANOSECONDS_PER_SECOND
      in of_int (wholeSamples + fractionalSamples))"

record clock_mapping =
  monotonicEpoch :: int
  wallEpoch :: int
  map_rtpEpoch :: u32
  sampleRate :: u32

definition new_clock_mapping :: "int \<Rightarrow> int \<Rightarrow> u32 \<Rightarrow> u32 \<Rightarrow> string + clock_mapping" where
  "new_clock_mapping monoTime wall rtp rate =
     (if rate = 0 then Inl ''RTP clock mapping requires a non-zero sample rate''
      else Inr \<lparr>monotonicEpoch = monoTime, wallEpoch = wall, map_rtpEpoch = rtp, sampleRate = rate\<rparr>)"

text \<open>\<open>capture\<close>, given the three clock reads it makes.\<close>

definition capture :: "int \<Rightarrow> int \<Rightarrow> int \<Rightarrow> u32 \<Rightarrow> string + clock_mapping" where
  "capture monotonicBefore wall monotonicAfter rate =
     (if rate = 0 then Inl ''RTP clock mapping requires a non-zero sample rate''
      else (let midpoint = monotonicBefore + trunc_div (monotonicAfter - monotonicBefore) 2
            in new_clock_mapping midpoint wall (samplesForDuration midpoint rate) rate))"

definition mapping_at :: "clock_mapping \<Rightarrow> int \<Rightarrow> string + u64 \<times> u32" where
  "mapping_at m monotonicTime =
     (let elapsed = monotonicTime - monotonicEpoch m
      in case wallClockToNtp (wallEpoch m + elapsed) of
           Inl e \<Rightarrow> Inl e
         | Inr ntp \<Rightarrow> Inr (ntp, map_rtpEpoch m + samplesForDuration elapsed (sampleRate m)))"

section \<open>What the mapping computes\<close>

lemma floor_seconds:
  fixes ns :: int
  defines "whole \<equiv> whole_seconds ns" and "rem \<equiv> ns - whole_seconds ns * NANOSECONDS_PER_SECOND"
  shows "(if rem < 0 then (whole - 1, rem + NANOSECONDS_PER_SECOND) else (whole, rem))
       = (ns div NANOSECONDS_PER_SECOND, ns mod NANOSECONDS_PER_SECOND)"
proof -
  let ?N = NANOSECONDS_PER_SECOND
  have N: "0 < ?N" by (simp add: NANOSECONDS_PER_SECOND_def)
  show ?thesis
  proof (cases "0 \<le> ns")
    case True
    then have "whole = ns div ?N" by (simp add: whole_def whole_seconds_nonneg)
    moreover have "rem = ns mod ?N"
      using True by (simp add: rem_def whole_seconds_nonneg minus_div_mult_eq_mod)
    ultimately show ?thesis using pos_mod_sign [OF N, of ns] by (simp only: not_less [symmetric] if_False)
  next
    case False
    have w: "whole = - ((- ns) div ?N)" using False by (simp add: whole_def whole_seconds_def trunc_div_def)
    have r: "rem = - ((- ns) mod ?N)"
      using minus_div_mult_eq_mod [of "- ns" ?N] w by (simp add: rem_def whole_def [symmetric])
    show ?thesis
    proof (cases "(- ns) mod ?N = 0")
      case True
      then show ?thesis using w r zdiv_zminus1_eq_if [of ?N "- ns"] zmod_zminus1_eq_if [of "- ns" ?N] N
        by simp
    next
      case nz: False
      then have "rem < 0" using r pos_mod_sign [OF N, of "- ns"] by simp
      then show ?thesis using w r nz zdiv_zminus1_eq_if [of ?N "- ns"] zmod_zminus1_eq_if [of "- ns" ?N] N
        by simp
    qed
  qed
qed

lemma unat_fraction:
  assumes "0 \<le> r" "r < NANOSECONDS_PER_SECOND"
  shows "(of_int r * 2 ^ 32 :: u64) div of_int NANOSECONDS_PER_SECOND
       = of_int (r * 2 ^ 32 div NANOSECONDS_PER_SECOND)"
proof -
  have b: "r * 2 ^ 32 < 2 ^ 64" "r < 2 ^ 64" using assms(2) by (simp_all add: NANOSECONDS_PER_SECOND_def)
  have "uint (of_int r * 2 ^ 32 :: u64) = r * 2 ^ 32"
    using assms(1) b by (simp add: uint_word_ariths word_of_int_2p [symmetric] unsigned_of_int take_bit_eq_mod mod_mult_left_eq)
  moreover have "uint (of_int NANOSECONDS_PER_SECOND :: u64) = NANOSECONDS_PER_SECOND"
    by (simp add: NANOSECONDS_PER_SECOND_def)
  ultimately show ?thesis by (simp add: word_div_def)
qed

lemma or_low_half:
  assumes "b < (2 ^ 32 :: u64)"
  shows "push_bit 32 a OR b = push_bit 32 a + b"
proof (rule disjunctive_add [symmetric])
  fix n
  have "unat b < 2 ^ 32" using assms by (simp add: word_less_nat_alt)
  then have "take_bit 32 b = b"
    by (simp add: word_unat_eq_iff unsigned_take_bit_eq take_bit_nat_eq_self)
  then have "\<not> bit b n" if "32 \<le> n" using that by (metis bit_take_bit_iff leD)
  then show "\<not> bit (push_bit 32 a) n \<or> \<not> bit b n" by (auto simp: bit_push_bit_iff)
qed

lemma wallClockToNtp_eq:
  "wallClockToNtp ns =
     (let s = ns div NANOSECONDS_PER_SECOND + NTP_UNIX_EPOCH_OFFSET_SECONDS
      in if s < 0 then Inl ''wall time predates the NTP epoch''
         else Inr (push_bit 32 (of_int s) OR
                   ((of_int (ns mod NANOSECONDS_PER_SECOND) * 2 ^ 32) div of_int NANOSECONDS_PER_SECOND)))"
  unfolding wallClockToNtp_def Let_def floor_seconds by simp

text \<open>Seconds since 1900 in fixed point with 32 fractional bits, rounded down.\<close>

definition ntp_reference :: "int \<Rightarrow> int" where
  "ntp_reference ns =
     (ns + NTP_UNIX_EPOCH_OFFSET_SECONDS * NANOSECONDS_PER_SECOND) * 2 ^ 32 div NANOSECONDS_PER_SECOND"

lemma scaled_div_split:
  fixes a b :: int
  assumes "0 < n"
  shows "a * b div n = a div n * b + (a mod n * b) div n"
proof -
  have "a * b = (a mod n * b) + n * (a div n * b)"
    by (metis (no_types, lifting) add.commute distrib_right mult.assoc mult_div_mod_eq)
  then show ?thesis using assms by simp
qed

lemma wallClockToNtp_exact:
  assumes "- (NTP_UNIX_EPOCH_OFFSET_SECONDS * NANOSECONDS_PER_SECOND) \<le> ns"
  shows "wallClockToNtp ns = Inr (of_int (ntp_reference ns))"
proof -
  let ?N = NANOSECONDS_PER_SECOND and ?O = NTP_UNIX_EPOCH_OFFSET_SECONDS
  have N: "0 < ?N" by (simp add: NANOSECONDS_PER_SECOND_def)
  define s r where "s = ns div ?N + ?O" and "r = ns mod ?N"
  have r: "0 \<le> r" "r < ?N" using N by (simp_all add: r_def)
  have split_ns: "(ns + ?O * ?N) div ?N = s" "(ns + ?O * ?N) mod ?N = r" using N by (simp_all add: s_def r_def)
  have "0 \<le> ns + ?O * ?N" using assms by simp
  then have s: "0 \<le> s" using N split_ns(1) pos_imp_zdiv_nonneg_iff by blast
  define f where "f = r * 2 ^ 32 div ?N"
  have f: "0 \<le> f" "f < 2 ^ 32"
    using r unfolding f_def NANOSECONDS_PER_SECOND_def by simp_all
  have "wallClockToNtp ns = Inr (push_bit 32 (of_int s) OR of_int f)"
    using s unat_fraction [OF r] by (simp add: wallClockToNtp_eq Let_def s_def [symmetric] r_def [symmetric] f_def)
  also have "push_bit 32 (of_int s) OR of_int f = (push_bit 32 (of_int s) + of_int f :: u64)"
    using f by (intro or_low_half) (simp add: word_less_def unsigned_of_int take_bit_eq_mod)
  also have "\<dots> = of_int (s * 2 ^ 32 + f)" by (simp add: push_bit_eq_mult)
  also have "s * 2 ^ 32 + f = ntp_reference ns"
    by (simp only: ntp_reference_def scaled_div_split [OF N, of "ns + ?O * ?N"] split_ns f_def)
  finally show ?thesis .
qed

lemma samplesForDuration_exact:
  assumes "0 \<le> e"
  shows "samplesForDuration e rate = of_int (e * uint rate div NANOSECONDS_PER_SECOND)"
proof -
  let ?N = NANOSECONDS_PER_SECOND
  have N: "0 < ?N" by (simp add: NANOSECONDS_PER_SECOND_def)
  have "e - e div ?N * ?N = e mod ?N" by (simp only: minus_div_mult_eq_mod)
  then have "samplesForDuration e rate =
      of_int (e div ?N * uint rate + trunc_div (e mod ?N * uint rate) ?N)"
    using assms by (simp only: samplesForDuration_def Let_def whole_seconds_nonneg)
  moreover have "trunc_div (e mod ?N * uint rate) ?N = e mod ?N * uint rate div ?N"
    using pos_mod_sign [OF N, of e] by (simp add: trunc_div_def)
  ultimately show ?thesis by (simp only: scaled_div_split [OF N, of e "uint rate"])
qed

text \<open>
  the clock mapping reads both clocks off the same elapsed time. From the session epoch on,
  \<open>at\<close> gives the NTP time of the epoch's wall time plus the elapsed monotonic time and the RTP
  time of the epoch plus the samples of that time, each rounded down once: the two never drift
  apart by more than a tick, however long the session lasts.
\<close>

theorem clock_mapping_exact:
  assumes "monotonicEpoch m \<le> t"
    and "- (NTP_UNIX_EPOCH_OFFSET_SECONDS * NANOSECONDS_PER_SECOND) \<le> wallEpoch m + (t - monotonicEpoch m)"
  shows "mapping_at m t =
    Inr (of_int (ntp_reference (wallEpoch m + (t - monotonicEpoch m))),
         map_rtpEpoch m + of_int ((t - monotonicEpoch m) * uint (sampleRate m) div NANOSECONDS_PER_SECOND))"
  using assms wallClockToNtp_exact [OF assms(2)]
  by (simp add: mapping_at_def Let_def samplesForDuration_exact)

theorem clock_mapping_exact_witness:
  "mapping_at \<lparr>monotonicEpoch = 5, wallEpoch = 1000000000, map_rtpEpoch = 7, sampleRate = 48000\<rparr> 1500000005
     = Inr (of_int (ntp_reference 2500000000), 72007)"
  using clock_mapping_exact [of "\<lparr>monotonicEpoch = 5, wallEpoch = 1000000000, map_rtpEpoch = 7, sampleRate = 48000\<rparr>" 1500000005]
  by (simp add: NTP_UNIX_EPOCH_OFFSET_SECONDS_def NANOSECONDS_PER_SECOND_def)

text \<open>A time before 1900 is refused.\<close>

lemma wallClockToNtp_too_early:
  assumes "ns < - (NTP_UNIX_EPOCH_OFFSET_SECONDS * NANOSECONDS_PER_SECOND)"
  shows "wallClockToNtp ns = Inl ''wall time predates the NTP epoch''"
proof -
  have "ns div NANOSECONDS_PER_SECOND + NTP_UNIX_EPOCH_OFFSET_SECONDS < 0"
    using assms unfolding NTP_UNIX_EPOCH_OFFSET_SECONDS_def NANOSECONDS_PER_SECOND_def by simp
  then show ?thesis by (simp add: wallClockToNtp_eq)
qed

end
