(* ===== verification/Rtcp.thy ===== *)
theory Rtcp
  imports Rtp_Clock
begin

text \<open>
  RTCP timing reports: the compound packet of src/src/server/rtp/RtcpPacket.cpp, byte by byte,
  with the parser of RFC 3550 it has to satisfy, and the session state of RtcpSender.cpp with the
  turns of its worker thread. The socket is a parameter: which sends succeed is an argument.
\<close>

section \<open>The packet\<close>

record sender_report =
  synchronizationSource :: u32
  sr_ntpTimestamp :: u64
  sr_rtpTimestamp :: u32
  packetCount :: u32
  octetCount :: u32
  canonicalName :: "u8 list"

definition u16_bytes :: "u16 \<Rightarrow> u8 list" where
  "u16_bytes v = [ucast (drop_bit 8 v), ucast v]"

definition u32_bytes :: "u32 \<Rightarrow> u8 list" where
  "u32_bytes v = [ucast (drop_bit 24 v), ucast (drop_bit 16 v), ucast (drop_bit 8 v), ucast v]"

definition appendU16 :: "u16 \<Rightarrow> u8 list \<Rightarrow> u8 list" where
  "appendU16 v packet = packet @ u16_bytes v"

definition appendU32 :: "u32 \<Rightarrow> u8 list \<Rightarrow> u8 list" where
  "appendU32 v packet = packet @ u32_bytes v"

text \<open>\<open>while (packet.size() % 4 != 0) packet.push_back(0);\<close>\<close>

function pad_words :: "u8 list \<Rightarrow> u8 list" where
  "pad_words packet = (if length packet mod 4 \<noteq> 0 then pad_words (packet @ [0]) else packet)"
  by pat_completeness auto
termination
  by (relation "measure (\<lambda>p. (4 - length p mod 4) mod 4)") (auto simp: mod_Suc)

declare pad_words.simps [simp del]

definition RTCP_VERSION :: u8 where "RTCP_VERSION = 2"
definition RTCP_SENDER_REPORT :: u8 where "RTCP_SENDER_REPORT = 200"
definition RTCP_SOURCE_DESCRIPTION :: u8 where "RTCP_SOURCE_DESCRIPTION = 202"
definition RTCP_SDES_CNAME :: u8 where "RTCP_SDES_CNAME = 1"

definition sdes_packet_size :: "nat \<Rightarrow> nat" where
  "sdes_packet_size name_length =
     (let unpadded = 4 + 1 * 2 + name_length + 1;
          padded = (unpadded + 3) div 4 * 4
      in 4 + padded)"

definition buildRtcpSenderReport :: "sender_report \<Rightarrow> string + u8 list" where
  "buildRtcpSenderReport r =
     (if synchronizationSource r = 0
      then Inl ''RTCP Sender Report requires a non-zero SSRC''
      else if canonicalName r = [] \<or> 255 < length (canonicalName r)
      then Inl ''RTCP SDES CNAME must contain between 1 and 255 bytes''
      else
        (let p = [push_bit 6 RTCP_VERSION, RTCP_SENDER_REPORT];
             p = appendU16 6 p;
             p = appendU32 (synchronizationSource r) p;
             p = appendU32 (ucast (drop_bit 32 (sr_ntpTimestamp r))) p;
             p = appendU32 (ucast (sr_ntpTimestamp r)) p;
             p = appendU32 (sr_rtpTimestamp r) p;
             p = appendU32 (packetCount r) p;
             p = appendU32 (octetCount r) p;
             p = p @ [push_bit 6 RTCP_VERSION OR 1, RTCP_SOURCE_DESCRIPTION];
             p = appendU16 (of_nat (sdes_packet_size (length (canonicalName r)) div 4 - 1)) p;
             p = appendU32 (synchronizationSource r) p;
             p = p @ [RTCP_SDES_CNAME, of_nat (length (canonicalName r))];
             p = p @ canonicalName r;
             p = p @ [0]
         in Inr (pad_words p)))"

section \<open>A receiver\<close>

text \<open>
  The reference reader of RFC 3550: it checks the version, the packet types and the two length
  fields against the bytes that are there, and returns the report it finds.
\<close>

definition read16 :: "u8 list \<Rightarrow> nat \<Rightarrow> u16" where
  "read16 p i = push_bit 8 (ucast (p ! i)) OR ucast (p ! (i + 1))"

definition read32 :: "u8 list \<Rightarrow> nat \<Rightarrow> u32" where
  "read32 p i = push_bit 24 (ucast (p ! i)) OR push_bit 16 (ucast (p ! (i + 1)))
              OR push_bit 8 (ucast (p ! (i + 2))) OR ucast (p ! (i + 3))"

definition words_of :: "u8 list \<Rightarrow> nat \<Rightarrow> nat" where
  "words_of p i = unat (read16 p (i + 2)) + 1"

definition readSenderReport :: "u8 list \<Rightarrow> sender_report option" where
  "readSenderReport p =
     (if length p < 36 then None
      else if drop_bit 6 (p ! 0) \<noteq> 2 \<or> p ! 1 \<noteq> 200 \<or> words_of p 0 \<noteq> 7 then None
      else if p ! 28 \<noteq> 129 \<or> p ! 29 \<noteq> 202 \<or> length p \<noteq> 4 * (words_of p 0 + words_of p 28) then None
      else if read32 p 32 \<noteq> read32 p 4 \<or> p ! 36 \<noteq> 1 then None
      else
        (let n = unat (p ! 37)
         in if length p < 38 + n + 1 \<or> (\<exists>b \<in> set (drop (38 + n) p). b \<noteq> 0) then None
            else Some \<lparr>synchronizationSource = read32 p 4,
                       sr_ntpTimestamp = push_bit 32 (ucast (read32 p 8)) OR ucast (read32 p 12),
                       sr_rtpTimestamp = read32 p 16, packetCount = read32 p 20,
                       octetCount = read32 p 24, canonicalName = take n (drop 38 p)\<rparr>))"

lemma join16: "push_bit 8 (ucast (ucast (drop_bit 8 v) :: u8)) OR ucast (ucast v :: u8) = (v :: u16)"
  by (rule bit_word_eqI) (auto simp: bit_simps)

lemma join32:
  "push_bit 24 (ucast (ucast (drop_bit 24 v) :: u8)) OR push_bit 16 (ucast (ucast (drop_bit 16 v) :: u8))
   OR push_bit 8 (ucast (ucast (drop_bit 8 v) :: u8)) OR ucast (ucast v :: u8) = (v :: u32)"
  (is "?x = v")
proof (rule bit_word_eqI)
  fix n assume n: "n < LENGTH(32)"
  consider "n < 8" | "8 \<le> n" "n < 16" | "16 \<le> n" "n < 24" | "24 \<le> n" by linarith
  then show "bit ?x n = bit v n" using n by cases (auto simp: bit_simps)
qed

lemma join64: "push_bit 32 (ucast (ucast (drop_bit 32 v) :: u32)) OR ucast (ucast v :: u32) = (v :: u64)"
  by (rule bit_word_eqI) (auto simp: bit_simps)

lemma pad_words_eq: "pad_words p = p @ replicate ((4 - length p mod 4) mod 4) 0"
proof (induction p rule: pad_words.induct)
  case (1 p)
  show ?case
  proof (cases "length p mod 4 = 0")
    case True
    then show ?thesis by (subst pad_words.simps) simp
  next
    case False
    have "length p mod 4 < 4" by simp
    then have "(4 - length p mod 4) mod 4 = Suc ((4 - length (p @ [0]) mod 4) mod 4)"
      using False by (simp add: mod_Suc split: if_splits) linarith
    then show ?thesis using 1 False by (subst pad_words.simps) simp
  qed
qed

definition report_ok :: "sender_report \<Rightarrow> bool" where
  "report_ok r \<longleftrightarrow> synchronizationSource r \<noteq> 0 \<and> canonicalName r \<noteq> [] \<and> length (canonicalName r) \<le> 255"

text \<open>The packet as one expression.\<close>

lemma build_bytes:
  assumes "report_ok r"
  shows "buildRtcpSenderReport r = Inr
    ([128, 200] @ u16_bytes 6 @ u32_bytes (synchronizationSource r)
     @ u32_bytes (ucast (drop_bit 32 (sr_ntpTimestamp r))) @ u32_bytes (ucast (sr_ntpTimestamp r))
     @ u32_bytes (sr_rtpTimestamp r) @ u32_bytes (packetCount r) @ u32_bytes (octetCount r)
     @ [129, 202] @ u16_bytes (of_nat (sdes_packet_size (length (canonicalName r)) div 4 - 1))
     @ u32_bytes (synchronizationSource r) @ [1, of_nat (length (canonicalName r))]
     @ canonicalName r @ 0 # replicate ((4 - (39 + length (canonicalName r)) mod 4) mod 4) 0)"
  using assms
  by (simp add: buildRtcpSenderReport_def report_ok_def Let_def pad_words_eq appendU16_def appendU32_def
      RTCP_VERSION_def RTCP_SENDER_REPORT_def RTCP_SOURCE_DESCRIPTION_def RTCP_SDES_CNAME_def
      u16_bytes_def u32_bytes_def not_less)

lemma sdes_words:
  "sdes_packet_size n div 4 - 1 = (n + 10) div 4"
  by (simp add: sdes_packet_size_def Let_def)

lemma padded_length:
  "39 + n + (4 - (39 + n) mod 4) mod 4 = 4 * (8 + (n + 10) div 4)" for n :: nat
proof -
  define q k where "q = n div 4" and "k = n mod 4"
  have "n = 4 * q + k" "k < 4" by (simp_all add: q_def k_def)
  then consider "n = 4 * q" | "n = 4 * q + 1" | "n = 4 * q + 2" | "n = 4 * q + 3" by linarith
  then show ?thesis by cases simp_all
qed

text \<open>
  C40: an RTCP sender report reaches its receiver. A report with an SSRC and a CNAME of 1 to 255
  bytes is built without error into a compound packet whose length fields cover its bytes
  exactly, and the reader of RFC 3550 gets the same report back; anything else is refused.
\<close>

theorem sender_report_roundtrip:
  "if report_ok r
   then \<exists>p. buildRtcpSenderReport r = Inr p \<and> length p mod 4 = 0 \<and> readSenderReport p = Some r
   else \<exists>e. buildRtcpSenderReport r = Inl e"
proof (cases "report_ok r")
  case True
  define n where "n = length (canonicalName r)"
  define pad where "pad = replicate ((4 - (39 + n) mod 4) mod 4) (0 :: u8)"
  define w where "w = (of_nat ((n + 10) div 4) :: u16)"
  obtain p where p: "buildRtcpSenderReport r = Inr p" and bytes: "p =
      [128, 200] @ u16_bytes 6 @ u32_bytes (synchronizationSource r)
     @ u32_bytes (ucast (drop_bit 32 (sr_ntpTimestamp r))) @ u32_bytes (ucast (sr_ntpTimestamp r))
     @ u32_bytes (sr_rtpTimestamp r) @ u32_bytes (packetCount r) @ u32_bytes (octetCount r)
     @ [129, 202] @ u16_bytes w @ u32_bytes (synchronizationSource r) @ [1, of_nat n] @ canonicalName r @ 0 # pad"
    using build_bytes [OF True] unfolding sdes_words n_def pad_def w_def by blast
  have n: "n \<le> 255" using True by (simp add: report_ok_def n_def)
  have len: "length p = 4 * (8 + (n + 10) div 4)"
    using padded_length [of n] by (simp add: bytes u16_bytes_def u32_bytes_def n_def pad_def)
  have words: "words_of p 0 = 7" "words_of p 28 = (n + 10) div 4 + 1"
  proof -
    have "(n + 10) div 4 < 2 ^ 16" using n by simp
    then have "unat w = (n + 10) div 4" by (simp add: w_def unsigned_of_nat take_bit_nat_eq_self)
    moreover have "read16 p 30 = w" by (simp add: read16_def bytes u16_bytes_def u32_bytes_def join16)
    ultimately show "words_of p 28 = (n + 10) div 4 + 1" by (simp add: words_of_def)
    show "words_of p 0 = 7"
      by (simp add: words_of_def read16_def bytes u16_bytes_def u32_bytes_def)
  qed
  have head: "drop_bit 6 (p ! 0) = 2" "p ! 1 = 200" "p ! 28 = 129" "p ! 29 = 202" "p ! 36 = 1"
    "unat (p ! 37) = n"
    using n by (simp_all add: bytes u16_bytes_def u32_bytes_def unsigned_of_nat take_bit_nat_eq_self)
  have fields: "read32 p 4 = synchronizationSource r" "read32 p 32 = synchronizationSource r"
    "read32 p 8 = ucast (drop_bit 32 (sr_ntpTimestamp r))" "read32 p 12 = ucast (sr_ntpTimestamp r)"
    "read32 p 16 = sr_rtpTimestamp r" "read32 p 20 = packetCount r" "read32 p 24 = octetCount r"
    by (simp_all add: read32_def bytes u16_bytes_def u32_bytes_def join32)
  have tail: "drop 38 p = canonicalName r @ 0 # pad"
    by (simp add: bytes u16_bytes_def u32_bytes_def)
  have "drop (38 + n) p = 0 # pad"
    using tail by (simp add: n_def add.commute [of 38] flip: drop_drop)
  then have rest: "\<not> (\<exists>b \<in> set (drop (38 + n) p). b \<noteq> 0)" by (simp add: pad_def)
  have "length p \<ge> 39 + n" using len padded_length [of n] by simp
  then have "readSenderReport p = Some r"
    using len words head fields tail rest
    by (simp add: readSenderReport_def Let_def join64 n_def)
  moreover have "length p mod 4 = 0" using len by simp
  ultimately show ?thesis using True p by auto
next
  case False
  then show ?thesis by (auto simp: buildRtcpSenderReport_def report_ok_def)
qed

section \<open>The sender's session\<close>

definition RTP_STREAMING_CHANNELS :: nat where
  "RTP_STREAMING_CHANNELS = 17"

record rtcp_session =
  ses_generation :: u64
  ses_ownerId :: string
  ses_sources :: "u32 list"
  ses_clockMapping :: clock_mapping
  ses_trace :: async_trace
  packetCounts :: "u32 list"
  octetCounts :: "u32 list"
  hasPackets :: bool
  firstSuccessfulReportRecorded :: bool

record rtcp_sender =
  rs_ready :: bool
  rs_reportInterval :: int
  rs_canonicalName :: "u8 list"
  rs_session :: "rtcp_session option"
  stateRevision :: u64
  immediateReportRequested :: bool
  rs_stopping :: bool
  nextReportTime :: int

text \<open>\<open>makeCanonicalName\<close>, given the host name if the system has one.\<close>

definition ascii_bytes :: "string \<Rightarrow> u8 list" where
  "ascii_bytes s = map (\<lambda>c. of_nat (of_char c)) s"

definition makeCanonicalName :: "u8 list option \<Rightarrow> u8 list" where
  "makeCanonicalName hostname =
     (case hostname of
        None \<Rightarrow> ascii_bytes ''creature-server@unknown''
      | Some h \<Rightarrow> if h = [] then ascii_bytes ''creature-server@unknown''
                  else take 255 (ascii_bytes ''creature-server@'' @ take 255 h))"

lemma canonicalName_fits: "makeCanonicalName h \<noteq> [] \<and> length (makeCanonicalName h) \<le> 255"
  by (auto simp: makeCanonicalName_def ascii_bytes_def split: option.splits)

text \<open>The constructor; \<open>started\<close> says whether the socket and the worker thread came up.\<close>

definition new_rtcp_sender :: "int \<Rightarrow> u8 list option \<Rightarrow> bool \<Rightarrow> string + rtcp_sender" where
  "new_rtcp_sender interval hostname started =
     (if interval \<le> 0 then Inl ''RTCP report interval must be positive''
      else Inr \<lparr>rs_ready = started, rs_reportInterval = interval,
                rs_canonicalName = makeCanonicalName hostname, rs_session = None, stateRevision = 0,
                immediateReportRequested = False, rs_stopping = False, nextReportTime = 0\<rparr>)"

definition rtcp_beginSession ::
  "u64 \<Rightarrow> string \<Rightarrow> u32 list \<Rightarrow> clock_mapping \<Rightarrow> async_trace \<Rightarrow> rtcp_sender \<Rightarrow> rtcp_sender" where
  "rtcp_beginSession g owner sources mapping tr S =
     (if \<not> rs_ready S \<or> rs_stopping S then S
      else S\<lparr>rs_session := Some \<lparr>ses_generation = g, ses_ownerId = owner, ses_sources = sources,
               ses_clockMapping = mapping, ses_trace = tr,
               packetCounts = replicate RTP_STREAMING_CHANNELS 0,
               octetCounts = replicate RTP_STREAMING_CHANNELS 0,
               hasPackets = False, firstSuccessfulReportRecorded = False\<rparr>,
             stateRevision := stateRevision S + 1,
             immediateReportRequested := False, nextReportTime := 0\<rparr>)"

text \<open>The loop of \<open>recordFrame\<close> over the channels; a channel that sent nothing is skipped.\<close>

fun count_channels :: "u32 list \<Rightarrow> u32 list \<Rightarrow> u32 list \<Rightarrow> u32 list \<times> u32 list \<times> bool" where
  "count_channels (s # ss) (p # ps) (oc # ocs) =
     (let (ps', ocs', any) = count_channels ss ps ocs
      in if s = 0 then (p # ps', oc # ocs', any) else ((p + 1) # ps', (oc + s) # ocs', True))"
| "count_channels _ ps ocs = (ps, ocs, False)"

definition rtcp_recordFrame :: "u64 \<Rightarrow> u32 list \<Rightarrow> rtcp_sender \<Rightarrow> rtcp_sender" where
  "rtcp_recordFrame g sentOctets S =
     (if \<not> rs_ready S then S
      else (case rs_session S of
        None \<Rightarrow> S
      | Some ses \<Rightarrow>
          if rs_stopping S \<or> ses_generation ses \<noteq> g then S
          else
            (let (ps, ocs, anyPackets) = count_channels sentOctets (packetCounts ses) (octetCounts ses);
                 ses1 = ses\<lparr>packetCounts := ps, octetCounts := ocs\<rparr>
             in if anyPackets \<and> \<not> hasPackets ses1
                then S\<lparr>rs_session := Some (ses1\<lparr>hasPackets := True\<rparr>), immediateReportRequested := True\<rparr>
                else S\<lparr>rs_session := Some ses1\<rparr>)))"

definition drop_session :: "rtcp_sender \<Rightarrow> rtcp_sender" where
  "drop_session S = S\<lparr>rs_session := None, stateRevision := stateRevision S + 1,
                      immediateReportRequested := False, nextReportTime := 0\<rparr>"

definition rtcp_endSession :: "u64 \<Rightarrow> rtcp_sender \<Rightarrow> rtcp_sender" where
  "rtcp_endSession g S =
     (if \<not> rs_ready S \<or> rs_stopping S then S
      else (case rs_session S of
              None \<Rightarrow> S
            | Some ses \<Rightarrow> if ses_generation ses \<noteq> g then S else drop_session S))"

definition rtcp_discardSessionUnless :: "u64 \<Rightarrow> rtcp_sender \<Rightarrow> rtcp_sender" where
  "rtcp_discardSessionUnless g S =
     (if \<not> rs_ready S \<or> rs_stopping S then S
      else (case rs_session S of
              None \<Rightarrow> S
            | Some ses \<Rightarrow> if ses_generation ses = g then S else drop_session S))"

definition rtcp_shutdown :: "rtcp_sender \<Rightarrow> rtcp_sender" where
  "rtcp_shutdown S =
     (let S1 = S\<lparr>rs_ready := False\<rparr>
      in if rs_stopping S1 then S1
         else S1\<lparr>rs_stopping := True, rs_session := None, stateRevision := stateRevision S1 + 1\<rparr>)"

section \<open>The worker's turns\<close>

text \<open>
  One pass of the loop in \<open>run\<close>, holding the mutex: wait for packets, wait for the next report
  time, or take a snapshot. The report is sent without the mutex; \<open>report_done\<close> is the locked
  step after it.
\<close>

datatype rtcp_turn = Exit_worker | Wait_packets | Wait_until int | Send_report rtcp_session

definition rtcp_turn :: "int \<Rightarrow> rtcp_sender \<Rightarrow> rtcp_turn \<times> rtcp_sender" where
  "rtcp_turn now S =
     (if rs_stopping S then (Exit_worker, S)
      else (case rs_session S of
        None \<Rightarrow> (Wait_packets, S)
      | Some ses \<Rightarrow>
          if \<not> hasPackets ses then (Wait_packets, S)
          else if \<not> immediateReportRequested S \<and> now < nextReportTime S
          then (Wait_until (nextReportTime S), S)
          else (Send_report ses,
                S\<lparr>immediateReportRequested := False, nextReportTime := now + rs_reportInterval S\<rparr>)))"

definition report_done :: "rtcp_session \<Rightarrow> bool \<Rightarrow> rtcp_sender \<Rightarrow> rtcp_sender" where
  "report_done snapshot succeeded S =
     (case rs_session S of
        Some ses \<Rightarrow>
          if succeeded \<and> \<not> firstSuccessfulReportRecorded snapshot
             \<and> ses_generation ses = ses_generation snapshot
          then S\<lparr>rs_session := Some (ses\<lparr>firstSuccessfulReportRecorded := True\<rparr>)\<rparr>
          else S
      | None \<Rightarrow> S)"

text \<open>
  \<open>sendReport\<close>: one packet per channel, each from the snapshot's counters. The clock mapping or
  the packet builder may throw, which ends the report; \<open>sent i\<close> says whether the socket took the
  packet of channel \<open>i\<close>. The result is the packets sent and whether the report succeeded.
\<close>

fun send_channels :: "(nat \<Rightarrow> bool) \<Rightarrow> (nat \<Rightarrow> string + u8 list) \<Rightarrow> nat list \<Rightarrow> (nat \<times> u8 list) list \<times> bool" where
  "send_channels sent build [] = ([], True)"
| "send_channels sent build (i # is) =
     (case build i of
        Inl e \<Rightarrow> ([], False)
      | Inr p \<Rightarrow>
          (let (ps, ok) = send_channels sent build is
           in if sent i then ((i, p) # ps, ok) else (ps, False)))"

definition channel_report :: "u8 list \<Rightarrow> rtcp_session \<Rightarrow> u64 \<times> u32 \<Rightarrow> nat \<Rightarrow> sender_report" where
  "channel_report name snapshot stamp i =
     \<lparr>synchronizationSource = ses_sources snapshot ! i, sr_ntpTimestamp = fst stamp,
      sr_rtpTimestamp = snd stamp, packetCount = packetCounts snapshot ! i,
      octetCount = octetCounts snapshot ! i, canonicalName = name\<rparr>"

definition sendReport ::
  "int \<Rightarrow> (nat \<Rightarrow> bool) \<Rightarrow> u8 list \<Rightarrow> rtcp_session \<Rightarrow> (nat \<times> u8 list) list \<times> bool" where
  "sendReport now sent name snapshot =
     (case mapping_at (ses_clockMapping snapshot) now of
        Inl e \<Rightarrow> ([], False)
      | Inr stamp \<Rightarrow>
          send_channels sent (\<lambda>i. buildRtcpSenderReport (channel_report name snapshot stamp i))
            [0 ..< RTP_STREAMING_CHANNELS])"

section \<open>What a report tells its receiver\<close>

lemma count_channels_nth:
  assumes "length ps = length ss" "length ocs = length ss" "count_channels ss ps ocs = (ps', ocs', any)"
  shows "length ps' = length ss \<and> length ocs' = length ss \<and> (any \<longleftrightarrow> (\<exists>s\<in>set ss. s \<noteq> 0))
    \<and> (\<forall>i < length ss. ps' ! i = ps ! i + (if ss ! i = 0 then 0 else 1) \<and> ocs' ! i = ocs ! i + ss ! i)"
  using assms
proof (induction ss ps ocs arbitrary: ps' ocs' any rule: count_channels.induct)
  case (1 s ss p ps oc ocs)
  obtain ps1 ocs1 any1 where r: "count_channels ss ps ocs = (ps1, ocs1, any1)" by (rule prod_cases3)
  show ?case using 1(1) [OF _ _ r] 1(2-4) r by (auto simp: nth_Cons split: if_splits nat.splits)
qed auto

definition sent_count :: "u32 list list \<Rightarrow> nat \<Rightarrow> u32" where
  "sent_count fs i = of_nat (length (filter (\<lambda>f. f ! i \<noteq> 0) fs))"

definition sent_octets :: "u32 list list \<Rightarrow> nat \<Rightarrow> u32" where
  "sent_octets fs i = sum_list (map (\<lambda>f. f ! i) fs)"

text \<open>The session after \<open>fs\<close> frame sets of its generation were recorded.\<close>

definition session_counts :: "u64 \<Rightarrow> u32 list \<Rightarrow> clock_mapping \<Rightarrow> u32 list list \<Rightarrow> rtcp_sender \<Rightarrow> bool" where
  "session_counts g sources mapping fs S \<longleftrightarrow>
     rs_ready S \<and> \<not> rs_stopping S \<and>
     (\<exists>ses. rs_session S = Some ses \<and> ses_generation ses = g \<and> ses_sources ses = sources
        \<and> ses_clockMapping ses = mapping
        \<and> length (packetCounts ses) = RTP_STREAMING_CHANNELS \<and> length (octetCounts ses) = RTP_STREAMING_CHANNELS
        \<and> (hasPackets ses \<longleftrightarrow> (\<exists>f\<in>set fs. \<exists>s\<in>set f. s \<noteq> 0))
        \<and> (\<forall>i < RTP_STREAMING_CHANNELS. packetCounts ses ! i = sent_count fs i
              \<and> octetCounts ses ! i = sent_octets fs i))"

lemma session_counts_begin:
  "rs_ready S \<Longrightarrow> \<not> rs_stopping S \<Longrightarrow>
     session_counts g sources mapping [] (rtcp_beginSession g owner sources mapping tr S)"
  by (simp add: session_counts_def rtcp_beginSession_def sent_count_def sent_octets_def)

lemma session_counts_record:
  assumes C: "session_counts g sources mapping fs S" and f: "length f = RTP_STREAMING_CHANNELS"
  shows "session_counts g sources mapping (fs @ [f]) (rtcp_recordFrame g f S)"
proof -
  from C obtain ses where ses: "rs_session S = Some ses" "ses_generation ses = g"
    and len: "length (packetCounts ses) = length f" "length (octetCounts ses) = length f"
    unfolding session_counts_def f by blast
  obtain ps ocs any where r: "count_channels f (packetCounts ses) (octetCounts ses) = (ps, ocs, any)"
    by (rule prod_cases3)
  note cc = count_channels_nth [OF len r]
  have cnt: "sent_count (fs @ [f]) i = sent_count fs i + (if f ! i = 0 then 0 else 1)"
    "sent_octets (fs @ [f]) i = sent_octets fs i + f ! i" for i
    by (simp_all add: sent_count_def sent_octets_def)
  show ?thesis
    using C cc f ses by (auto simp: session_counts_def rtcp_recordFrame_def r cnt Let_def)
qed

lemma other_generation_not_counted:
  "session_counts g sources mapping fs S \<Longrightarrow> g' \<noteq> g \<Longrightarrow>
     rtcp_recordFrame g' f S = S \<and> rtcp_endSession g' S = S \<and> rtcp_discardSessionUnless g S = S"
  by (auto simp: session_counts_def rtcp_recordFrame_def rtcp_endSession_def rtcp_discardSessionUnless_def)

lemma session_counts_fold:
  assumes "rs_ready S" "\<not> rs_stopping S" "\<forall>f\<in>set fs. length f = RTP_STREAMING_CHANNELS"
  shows "session_counts g sources mapping fs
           (fold (rtcp_recordFrame g) fs (rtcp_beginSession g owner sources mapping tr S))"
  using assms(3)
  by (induction fs rule: rev_induct) (simp_all add: session_counts_begin [OF assms(1,2)] session_counts_record)

lemma send_channels_packet:
  "(i, p) \<in> set (fst (send_channels sent build is)) \<Longrightarrow> build i = Inr p"
  by (induction "is") (auto split: sum.splits prod.splits if_splits)


definition demo_sender :: rtcp_sender where
  "demo_sender = \<lparr>rs_ready = True, rs_reportInterval = 1000000000, rs_canonicalName = makeCanonicalName None,
     rs_session = None, stateRevision = 0, immediateReportRequested = False, rs_stopping = False,
     nextReportTime = 0\<rparr>"

definition demo_sources :: "u32 list" where
  "demo_sources = [100, 101, 102, 103, 104, 105, 106, 107, 108, 109, 110, 111, 112, 113, 114, 115, 116]"

definition demo_mapping :: clock_mapping where
  "demo_mapping = \<lparr>monotonicEpoch = 0, wallEpoch = 0, map_rtpEpoch = 0, sampleRate = 48000\<rparr>"

definition demo_recorded :: rtcp_sender where
  "demo_recorded = fold (rtcp_recordFrame 7) [demo_sources, replicate 17 5]
     (rtcp_beginSession 7 ''show'' demo_sources demo_mapping no_trace demo_sender)"

definition demo_snapshot :: rtcp_session where
  "demo_snapshot = (case rs_session demo_recorded of Some ses \<Rightarrow> ses)"

lemma send_channels_all:
  assumes "\<forall>i\<in>set is. sent i \<and> (\<exists>p. build i = Inr p)"
  shows "set (fst (send_channels sent build is)) = {(i, p). i \<in> set is \<and> build i = Inr p}
     \<and> snd (send_channels sent build is)"
  using assms
proof (induction "is")
  case (Cons i "is")
  then obtain p where "build i = Inr p" by auto
  then show ?case using Cons by (auto simp: split_def Let_def)
qed simp

text \<open>When the socket takes every packet, the report reaches every channel.\<close>

lemma every_channel_reported:
  assumes "mapping_at (ses_clockMapping snapshot) now = Inr stamp" "\<forall>i. sent i"
    and "\<forall>i < RTP_STREAMING_CHANNELS. report_ok (channel_report name snapshot stamp i)"
    and "i < RTP_STREAMING_CHANNELS"
  shows "snd (sendReport now sent name snapshot)
    \<and> (\<exists>p. (i, p) \<in> set (fst (sendReport now sent name snapshot)))"
proof -
  let ?build = "\<lambda>i. buildRtcpSenderReport (channel_report name snapshot stamp i)"
  have ok: "\<exists>p. ?build j = Inr p" if "j < RTP_STREAMING_CHANNELS" for j
    using assms(3) that sender_report_roundtrip [of "channel_report name snapshot stamp j"] by auto
  then have "\<forall>j\<in>set [0 ..< RTP_STREAMING_CHANNELS]. sent j \<and> (\<exists>p. ?build j = Inr p)"
    using assms(2) by simp
  note all = send_channels_all [OF this]
  obtain p where "?build i = Inr p" using ok assms(4) by blast
  then have "(i, p) \<in> set (fst (send_channels sent ?build [0 ..< RTP_STREAMING_CHANNELS]))"
    using conjunct1 [OF all] assms(4) by simp
  then show ?thesis using conjunct2 [OF all] unfolding sendReport_def assms(1) by auto
qed


end
