(* ===== verification/Rtp_Server.thy ===== *)
theory Rtp_Server
  imports Rtp_Coordination Rtcp
begin

text \<open>
  The RTP output server (src/src/server/rtp/MultiOpusRtpServer.cpp): clients take a lease and
  queue commands, one worker thread executes them. The uvgRTP streams, the clocks and the random
  SSRC are a parameter, \<open>worker_env\<close>: what each call returned while one command ran. Packets that
  \<open>push_frame\<close> accepted are appended to \<open>rtp_wire\<close>. Metrics, spans, logs and the notice to the
  websocket clients are not modelled. The constructor starts the worker only when all 17 streams
  exist, so the null checks of \<open>send\<close> and of the SSRC loop never fire here.
\<close>

section \<open>Data\<close>

record audio_stream_buffer =
  numberOfFramesPerChannel :: nat
  encodedOpusFrames :: "u8 list list list"

definition getFrameCount :: "audio_stream_buffer \<Rightarrow> nat" where
  "getFrameCount B = numberOfFramesPerChannel B"

definition getEncodedFrame :: "audio_stream_buffer \<Rightarrow> nat \<Rightarrow> nat \<Rightarrow> u8 list" where
  "getEncodedFrame B channel frame = encodedOpusFrames B ! channel ! frame"

datatype enqueue_result = Accepted | StaleLease | QueueFull | ServerNotReady | InvalidBuffer

datatype output_command_type = Reset | SilentFrame | AudioFrame

record output_command =
  oc_type :: output_command_type
  oc_lease :: rtp_lease
  oc_buffer :: "audio_stream_buffer option"
  oc_frameIndex :: nat
  oc_skippedFrames :: u64
  oc_releaseAfterSend :: bool
  oc_trace :: async_trace

abbreviation oc_generation :: "output_command \<Rightarrow> u64" where
  "oc_generation c \<equiv> lease_generation (oc_lease c)"

record output_result =
  or_error :: int
  or_firstFailedChannel :: nat
  or_timestamp :: u32
  or_sentOctets :: "u32 list"

definition new_output_result :: "u32 \<Rightarrow> output_result" where
  "new_output_result timestamp = \<lparr>or_error = 0, or_firstFailedChannel = 0, or_timestamp = timestamp,
     or_sentOctets = replicate RTP_STREAMING_CHANNELS 0\<rparr>"

record rtp_packet =
  pk_generation :: u64
  pk_channel :: nat
  pk_ssrc :: u32
  pk_timestamp :: u32
  pk_payload :: "u8 list"

datatype send_result = Returned int | Threw string

text \<open>What the environment answered while one command ran.\<close>

record worker_env =
  env_push :: "nat \<Rightarrow> send_result"
  env_ssrc_base :: u32
  env_ssrc_ok :: "nat \<Rightarrow> bool"
  env_before :: int
  env_wall :: int
  env_after :: int
  env_instant :: int
  env_got_lock :: bool

record rtp_server =
  isServerReady :: bool
  coordinator :: output_coordinator
  outputQueue :: "output_command command_queue"
  readyGeneration :: u64
  failureTracker :: failure_tracker
  terminalFailures :: failure_registry
  frameClock :: u32
  rtcpSender :: rtcp_sender
  ssrcs :: "u32 list"
  silentFrames :: "u8 list list list"
  rtp_wire :: "rtp_packet list"

definition OUTPUT_QUEUE_CAPACITY :: nat where "OUTPUT_QUEUE_CAPACITY = 64"
definition RTP_PRIMING_FRAMES :: nat where "RTP_PRIMING_FRAMES = 4"

text \<open>
  The server after its constructor: the silence packets come from the Opus encoder, the SSRCs, the
  clock and the RTCP session from the first rotation. The breaker's configuration is an argument;
  the code uses \<open>default_breaker_config\<close>.
\<close>

definition new_rtp_server ::
  "breaker_config \<Rightarrow> rtcp_sender \<Rightarrow> u32 list \<Rightarrow> u32 \<Rightarrow> u8 list list list \<Rightarrow> rtp_server" where
  "new_rtp_server cfg rtcp sources clock silence =
     \<lparr>isServerReady = True, coordinator = new_coordinator, outputQueue = new_queue OUTPUT_QUEUE_CAPACITY,
      readyGeneration = 0, failureTracker = new_tracker cfg,
      terminalFailures = new_registry, frameClock = clock, rtcpSender = rtcp, ssrcs = sources,
      silentFrames = silence, rtp_wire = []\<rparr>"

section \<open>The client side\<close>

definition other_generation :: "u64 \<Rightarrow> output_command \<Rightarrow> bool" where
  "other_generation g c \<longleftrightarrow> oc_generation c \<noteq> g"

definition same_generation :: "u64 \<Rightarrow> output_command \<Rightarrow> bool" where
  "same_generation g c \<longleftrightarrow> oc_generation c = g"

text \<open>The two critical sections of \<open>acquireOutput\<close>, and the whole.\<close>

definition claim_output :: "string \<Rightarrow> rtp_server \<Rightarrow> rtp_lease \<times> rtp_server" where
  "claim_output owner S =
     (let (l, C) = acquire owner (coordinator S) in (l, S\<lparr>coordinator := C\<rparr>))"

definition clear_stale :: "rtp_lease \<Rightarrow> rtp_server \<Rightarrow> rtp_server" where
  "clear_stale l S =
     (if lockIfCurrent l (coordinator S)
      then S\<lparr>readyGeneration := 0,
             rtcpSender := rtcp_discardSessionUnless (lease_generation l) (rtcpSender S),
             outputQueue := snd (eraseIf (other_generation (lease_generation l)) (outputQueue S))\<rparr>
      else S)"

definition acquireOutput :: "string \<Rightarrow> rtp_server \<Rightarrow> rtp_lease \<times> rtp_server" where
  "acquireOutput owner S = (let (l, S1) = claim_output owner S in (l, clear_stale l S1))"

definition release_lease :: "bool \<Rightarrow> rtp_lease \<Rightarrow> rtp_server \<Rightarrow> rtp_server" where
  "release_lease got_lock l S = S\<lparr>coordinator := release got_lock l (coordinator S)\<rparr>"

definition end_rtcp :: "u64 \<Rightarrow> rtp_server \<Rightarrow> rtp_server" where
  "end_rtcp g S = S\<lparr>rtcpSender := rtcp_endSession g (rtcpSender S)\<rparr>"

text \<open>\<open>readyGeneration_.compare_exchange_strong(expectedGeneration, 0)\<close>\<close>

definition unready :: "u64 \<Rightarrow> rtp_server \<Rightarrow> rtp_server" where
  "unready g S = (if readyGeneration S = g then S\<lparr>readyGeneration := 0\<rparr> else S)"

definition purge_generation :: "u64 \<Rightarrow> rtp_server \<Rightarrow> rtp_server" where
  "purge_generation g S = S\<lparr>outputQueue := snd (eraseIf (same_generation g) (outputQueue S))\<rparr>"

definition releaseGeneration :: "bool \<Rightarrow> rtp_lease \<Rightarrow> rtp_server \<Rightarrow> rtp_server" where
  "releaseGeneration got_lock l S =
     unready (lease_generation l) (end_rtcp (lease_generation l) (release_lease got_lock l S))"

definition releaseOutput :: "bool \<Rightarrow> rtp_lease \<Rightarrow> rtp_server \<Rightarrow> rtp_server" where
  "releaseOutput got_lock l S = purge_generation (lease_generation l) (releaseGeneration got_lock l S)"

definition isCurrentOutput :: "rtp_lease \<Rightarrow> rtp_server \<Rightarrow> bool" where
  "isCurrentOutput l S = isCurrent l (coordinator S)"

definition push_command :: "output_command \<Rightarrow> rtp_server \<Rightarrow> enqueue_result \<times> rtp_server" where
  "push_command c S =
     (let (ok, Q) = tryPush c (outputQueue S)
      in if \<not> ok then (QueueFull, S) else (Accepted, S\<lparr>outputQueue := Q\<rparr>))"

definition enqueueReset :: "rtp_lease \<Rightarrow> async_trace \<Rightarrow> rtp_server \<Rightarrow> enqueue_result \<times> rtp_server" where
  "enqueueReset l tr S =
     (if \<not> isServerReady S then (ServerNotReady, S)
      else if \<not> isCurrent l (coordinator S) then (StaleLease, S)
      else push_command \<lparr>oc_type = Reset, oc_lease = l, oc_buffer = None, oc_frameIndex = 0,
             oc_skippedFrames = 0, oc_releaseAfterSend = False, oc_trace = tr\<rparr> S)"

definition enqueueSilentFrame ::
  "rtp_lease \<Rightarrow> nat \<Rightarrow> async_trace \<Rightarrow> rtp_server \<Rightarrow> enqueue_result \<times> rtp_server" where
  "enqueueSilentFrame l primingFrameIndex tr S =
     (if \<not> isServerReady S then (ServerNotReady, S)
      else if \<not> isCurrent l (coordinator S) then (StaleLease, S)
      else if RTP_PRIMING_FRAMES \<le> primingFrameIndex then (InvalidBuffer, S)
      else push_command \<lparr>oc_type = SilentFrame, oc_lease = l, oc_buffer = None,
             oc_frameIndex = primingFrameIndex, oc_skippedFrames = 0, oc_releaseAfterSend = False,
             oc_trace = tr\<rparr> S)"

definition enqueueAudioFrame ::
  "rtp_lease \<Rightarrow> audio_stream_buffer option \<Rightarrow> nat \<Rightarrow> u64 \<Rightarrow> bool \<Rightarrow> async_trace \<Rightarrow> rtp_server
     \<Rightarrow> enqueue_result \<times> rtp_server" where
  "enqueueAudioFrame l buffer frameIndex skipped releaseAfterSend tr S =
     (if \<not> isServerReady S then (ServerNotReady, S)
      else (case buffer of
        None \<Rightarrow> (InvalidBuffer, S)
      | Some B \<Rightarrow>
          if getFrameCount B \<le> frameIndex then (InvalidBuffer, S)
          else if \<not> isCurrent l (coordinator S) then (StaleLease, S)
          else push_command \<lparr>oc_type = AudioFrame, oc_lease = l, oc_buffer = buffer,
                 oc_frameIndex = frameIndex, oc_skippedFrames = skipped,
                 oc_releaseAfterSend = releaseAfterSend, oc_trace = tr\<rparr> S))"

section \<open>The worker: sending\<close>

text \<open>
  The channel loop shared by \<open>sendSilentFrameSet\<close> and \<open>sendAudioFrameSet\<close>: a failed channel does
  not stop the others, a throwing one does. The first component is what the network took.
\<close>

primrec send_loop ::
  "(nat \<Rightarrow> send_result) \<Rightarrow> (nat \<Rightarrow> u8 list) \<Rightarrow> nat list \<Rightarrow> output_result \<Rightarrow> (nat \<times> u8 list) list \<times> (string + output_result)"
where
  "send_loop push frame_of [] r = ([], Inr r)"
| "send_loop push frame_of (i # is) r =
     (case push i of
        Threw e \<Rightarrow> ([], Inl e)
      | Returned code \<Rightarrow>
          if code \<noteq> 0 \<and> or_error r = 0
          then send_loop push frame_of is (r\<lparr>or_error := code, or_firstFailedChannel := i\<rparr>)
          else if code = 0
          then (let (ps, out) = send_loop push frame_of is
                      (r\<lparr>or_sentOctets := (or_sentOctets r)[i := of_nat (length (frame_of i))]\<rparr>)
                in ((i, frame_of i) # ps, out))
          else send_loop push frame_of is r)"

definition packet_of :: "u64 \<Rightarrow> u32 list \<Rightarrow> u32 \<Rightarrow> nat \<times> u8 list \<Rightarrow> rtp_packet" where
  "packet_of g sources timestamp p =
     \<lparr>pk_generation = g, pk_channel = fst p, pk_ssrc = sources ! fst p, pk_timestamp = timestamp,
      pk_payload = snd p\<rparr>"

definition send_frame_set ::
  "worker_env \<Rightarrow> u64 \<Rightarrow> (nat \<Rightarrow> u8 list) \<Rightarrow> rtp_server \<Rightarrow> (string + output_result) \<times> rtp_server" where
  "send_frame_set E g frame_of S =
     (let timestamp = frameClock S;
          (ps, out) = send_loop (env_push E) frame_of [0 ..< RTP_STREAMING_CHANNELS] (new_output_result timestamp)
      in (out, S\<lparr>rtp_wire := rtp_wire S @ map (packet_of g (ssrcs S) timestamp) ps\<rparr>))"

definition sendSilentFrameSet ::
  "worker_env \<Rightarrow> u64 \<Rightarrow> nat \<Rightarrow> rtp_server \<Rightarrow> (string + output_result) \<times> rtp_server" where
  "sendSilentFrameSet E g primingFrameIndex S =
     send_frame_set E g (\<lambda>channel. silentFrames S ! channel ! primingFrameIndex) S"

definition sendAudioFrameSet ::
  "worker_env \<Rightarrow> u64 \<Rightarrow> audio_stream_buffer \<Rightarrow> nat \<Rightarrow> rtp_server \<Rightarrow> (string + output_result) \<times> rtp_server" where
  "sendAudioFrameSet E g B frameIndex S =
     send_frame_set E g (\<lambda>channel. getEncodedFrame B channel frameIndex) S"

text \<open>
  \<open>rotateSynchronizationSourceIdentifiers\<close>: fresh consecutive SSRCs, a fresh clock mapping, a new
  RTCP session. A stream that refuses its SSRC ends it with an exception, the SSRCs before it set.
\<close>

primrec assign_ssrcs :: "(nat \<Rightarrow> bool) \<Rightarrow> u32 \<Rightarrow> nat list \<Rightarrow> u32 list \<Rightarrow> (string + u32) \<times> u32 list" where
  "assign_ssrcs ok next_id [] sources = (Inr next_id, sources)"
| "assign_ssrcs ok next_id (i # is) sources =
     (if ok i then assign_ssrcs ok (next_id + 1) is (sources[i := next_id])
      else (Inl (''unable to configure RTP SSRC for channel '' @ dec i), sources))"

definition rotate_ssrcs ::
  "worker_env \<Rightarrow> u64 \<Rightarrow> string \<Rightarrow> async_trace \<Rightarrow> rtp_server \<Rightarrow> string option \<times> rtp_server" where
  "rotate_ssrcs E g owner tr S =
     (let (r, sources) = assign_ssrcs (env_ssrc_ok E) (env_ssrc_base E) [0 ..< RTP_STREAMING_CHANNELS] (ssrcs S);
          S1 = S\<lparr>ssrcs := sources\<rparr>
      in case r of
           Inl e \<Rightarrow> (Some e, S1)
         | Inr _ \<Rightarrow>
             (case capture (env_before E) (env_wall E) (env_after E) (of_int RTP_SRATE) of
                Inl e \<Rightarrow> (Some e, S1)
              | Inr mapping \<Rightarrow>
                  (None, S1\<lparr>frameClock := reset_clock (map_rtpEpoch mapping) (frameClock S1),
                            rtcpSender := rtcp_beginSession g owner sources mapping tr (rtcpSender S1)\<rparr>)))"

section \<open>The worker: one command\<close>

datatype command_outcome = Command_ok output_result | Command_threw string

text \<open>The switch of \<open>processOutputCommand\<close>, run while the guard holds the coordinator's mutex.\<close>

definition run_reset :: "worker_env \<Rightarrow> output_command \<Rightarrow> rtp_server \<Rightarrow> command_outcome \<times> rtp_server" where
  "run_reset E c S =
     (let S1 = S\<lparr>readyGeneration := 0\<rparr>;
          (err, S2) = rotate_ssrcs E (oc_generation c) (lease_ownerId (oc_lease c)) (oc_trace c) S1
      in case err of
           Some e \<Rightarrow> (Command_threw e, S2)
         | None \<Rightarrow>
             (Command_ok (new_output_result 0),
              S2\<lparr>readyGeneration := oc_generation c,
                 failureTracker := beginGeneration (oc_generation c) (env_instant E) (failureTracker S2)\<rparr>))"

definition record_and_advance ::
  "output_command \<Rightarrow> (string + output_result) \<times> rtp_server \<Rightarrow> command_outcome \<times> rtp_server" where
  "record_and_advance c sent =
     (case sent of
        (Inl e, S) \<Rightarrow> (Command_threw e, S)
      | (Inr r, S) \<Rightarrow>
          (Command_ok r,
           S\<lparr>rtcpSender := rtcp_recordFrame (oc_generation c) (or_sentOctets r) (rtcpSender S),
             frameClock := advance 1 (frameClock S)\<rparr>))"

definition run_silent :: "worker_env \<Rightarrow> output_command \<Rightarrow> rtp_server \<Rightarrow> command_outcome \<times> rtp_server" where
  "run_silent E c S =
     (if readyGeneration S \<noteq> oc_generation c
      then (Command_threw ''RTP silent frame rejected because its generation was not reset'', S)
      else record_and_advance c (sendSilentFrameSet E (oc_generation c) (oc_frameIndex c) S))"

definition run_audio :: "worker_env \<Rightarrow> output_command \<Rightarrow> rtp_server \<Rightarrow> command_outcome \<times> rtp_server" where
  "run_audio E c S =
     (if readyGeneration S \<noteq> oc_generation c
      then (Command_threw ''RTP audio frame rejected because its generation was not reset'', S)
      else (let S1 = S\<lparr>frameClock := advance (oc_skippedFrames c) (frameClock S)\<rparr>
            in record_and_advance c
                 (sendAudioFrameSet E (oc_generation c) (case oc_buffer c of Some B \<Rightarrow> B) (oc_frameIndex c) S1)))"

definition run_guarded :: "worker_env \<Rightarrow> output_command \<Rightarrow> rtp_server \<Rightarrow> command_outcome \<times> rtp_server" where
  "run_guarded E c S =
     (case oc_type c of
        Reset \<Rightarrow> run_reset E c S
      | SilentFrame \<Rightarrow> run_silent E c S
      | AudioFrame \<Rightarrow> run_audio E c S)"

definition commandTypeName :: "output_command_type \<Rightarrow> string" where
  "commandTypeName t = (case t of Reset \<Rightarrow> ''reset'' | SilentFrame \<Rightarrow> ''silent_frame'' | AudioFrame \<Rightarrow> ''audio_frame'')"

text \<open>The terminal record that \<open>tripCircuitBreaker\<close> publishes.\<close>

definition terminal_record :: "output_command \<Rightarrow> command_outcome \<Rightarrow> breaker_action \<Rightarrow> terminal_failure" where
  "terminal_record c out a =
     (let f = empty_failure\<lparr>tf_generation := oc_generation c, tf_ownerId := lease_ownerId (oc_lease c),
                tf_commandType := commandTypeName (oc_type c), tf_frameIndex := of_nat (oc_frameIndex c),
                tf_consecutiveFailures := consecutiveSeen a, tf_trace := oc_trace c\<rparr>
      in case out of
           Command_ok r \<Rightarrow>
             f\<lparr>tf_errorCode := or_error r, tf_firstFailedChannel := of_nat (or_firstFailedChannel r),
               tf_rtpTimestamp := or_timestamp r,
               tf_errorMessage := ''RTP send failed on channel '' @ dec (or_firstFailedChannel r)
                 @ '' with error '' @ dec_int (or_error r)\<rparr>
         | Command_threw e \<Rightarrow> f\<lparr>tf_errorMessage := e\<rparr>)"

definition publish_record :: "terminal_failure \<Rightarrow> rtp_server \<Rightarrow> rtp_server" where
  "publish_record f S = S\<lparr>terminalFailures := publish f (terminalFailures S)\<rparr>"

definition tripCircuitBreaker ::
  "bool \<Rightarrow> output_command \<Rightarrow> command_outcome \<Rightarrow> breaker_action \<Rightarrow> rtp_server \<Rightarrow> rtp_server" where
  "tripCircuitBreaker got_lock c out a S =
     purge_generation (oc_generation c)
       (releaseGeneration got_lock (oc_lease c) (publish_record (terminal_record c out a) S))"

text \<open>
  \<open>handleSendOutcome\<close>: the tracker's step and, when it or the final-frame rule says so, the trip.
  \<open>judge_outcome\<close> is the part that touches only the worker's own tracker.
\<close>

definition send_failed :: "command_outcome \<Rightarrow> bool" where
  "send_failed out = (case out of Command_ok r \<Rightarrow> or_error r \<noteq> 0 | Command_threw e \<Rightarrow> True)"

definition judge_outcome ::
  "int \<Rightarrow> output_command \<Rightarrow> command_outcome \<Rightarrow> rtp_server \<Rightarrow> breaker_action option \<times> rtp_server" where
  "judge_outcome now c out S =
     (if \<not> send_failed out
      then (None, S\<lparr>failureTracker := snd (recordSuccess (oc_generation c) now (failureTracker S))\<rparr>)
      else (let (a, T) = recordFailure (oc_generation c) now (failureTracker S);
                S1 = S\<lparr>failureTracker := T\<rparr>
            in if trip a \<or> (oc_releaseAfterSend c \<and> 2 \<le> consecutiveSeen a) then (Some a, S1) else (None, S1)))"

definition handleSendOutcome ::
  "int \<Rightarrow> bool \<Rightarrow> output_command \<Rightarrow> command_outcome \<Rightarrow> rtp_server \<Rightarrow> rtp_server" where
  "handleSendOutcome now got_lock c out S =
     (let (verdict, S1) = judge_outcome now c out S
      in case verdict of
           None \<Rightarrow> S1
         | Some a \<Rightarrow> tripCircuitBreaker got_lock c out a S1)"

definition handleCommandException ::
  "int \<Rightarrow> bool \<Rightarrow> output_command \<Rightarrow> string \<Rightarrow> rtp_server \<Rightarrow> rtp_server" where
  "handleCommandException now got_lock c e S =
     (if oc_type c = Reset then tripCircuitBreaker got_lock c (Command_threw e) no_action S
      else (let S1 = handleSendOutcome now got_lock c (Command_threw e) S
            in if oc_releaseAfterSend c then releaseGeneration got_lock (oc_lease c) S1 else S1))"

definition processOutputCommand :: "worker_env \<Rightarrow> output_command \<Rightarrow> rtp_server \<Rightarrow> rtp_server" where
  "processOutputCommand E c S =
     (if \<not> lockIfCurrent (oc_lease c) (coordinator S) then S
      else
        (let (out, S1) = run_guarded E c S
         in case out of
              Command_threw e \<Rightarrow> handleCommandException (env_instant E) (env_got_lock E) c e S1
            | Command_ok r \<Rightarrow>
                (let S2 = (if oc_type c \<noteq> Reset
                           then handleSendOutcome (env_instant E) (env_got_lock E) c out S1 else S1)
                 in if oc_releaseAfterSend c
                    then releaseGeneration (env_got_lock E) (oc_lease c) S2 else S2)))"

text \<open>One turn of \<open>runOutputWorker\<close>; \<open>None\<close> when the worker blocks or ends.\<close>

definition worker_turn :: "worker_env \<Rightarrow> rtp_server \<Rightarrow> rtp_server option" where
  "worker_turn E S =
     (case waitPop (outputQueue S) of
        (Popped c, Q) \<Rightarrow> Some (processOutputCommand E c (S\<lparr>outputQueue := Q\<rparr>))
      | _ \<Rightarrow> None)"

definition isGenerationTripped :: "u64 \<Rightarrow> rtp_server \<Rightarrow> bool" where
  "isGenerationTripped g S = isTripped g (terminalFailures S)"

definition terminalFailureFor :: "u64 \<Rightarrow> rtp_server \<Rightarrow> terminal_failure option" where
  "terminalFailureFor g S = find_failure g (terminalFailures S)"

definition terminalFailureMessage :: "u64 \<Rightarrow> rtp_server \<Rightarrow> string" where
  "terminalFailureMessage g S =
     (let message = ''the RTP send-failure circuit breaker terminated output generation '' @ dec (unat g)
      in case terminalFailureFor g S of
           None \<Rightarrow> message
         | Some f \<Rightarrow> message @ '': '' @ tf_errorMessage f)"

text \<open>The destructor's stop of queue and RTCP sender; the worker ends at its next \<open>waitPop\<close>.\<close>

definition shutdown_rtp_server :: "rtp_server \<Rightarrow> rtp_server" where
  "shutdown_rtp_server S =
     S\<lparr>isServerReady := False, outputQueue := stop_queue (outputQueue S),
       rtcpSender := rtcp_shutdown (rtcpSender S)\<rparr>"

end
