(* ===== verification/Rtp_Protocol.thy ===== *)
theory Rtp_Protocol
  imports Rtp_Server
begin

text \<open>
  The RTP server under concurrency: the clients' operations and the worker's command are cut into
  the steps between which other threads can run, and every interleaving of them is considered. A
  step holds a mutex, is one atomic access, or touches only what the worker owns. Clients may take
  any of their steps at any time and in any order, which covers their operations; a step that takes
  the coordinator's mutex has to wait while the worker holds it.
\<close>

section \<open>The worker's program counter\<close>

datatype worker_pc =
    Idle
  | Got output_command
  | Locked output_command
  | Resetting output_command
  | Rotated output_command
  | Checked output_command
  | Sent_set output_command "string + output_result"
  | Judging output_command command_outcome
  | Publishing output_command terminal_failure
  | Unleasing bool output_command
  | Unreporting bool output_command
  | Unreadying bool output_command
  | Purging output_command
  | Finishing output_command

text \<open>The worker holds the guard, hence the mutex, from the lock to the end of the switch.\<close>

fun holding :: "worker_pc \<Rightarrow> output_command option" where
  "holding (Locked c) = Some c"
| "holding (Resetting c) = Some c"
| "holding (Rotated c) = Some c"
| "holding (Checked c) = Some c"
| "holding (Sent_set c out) = Some c"
| "holding _ = None"

fun working :: "worker_pc \<Rightarrow> output_command option" where
  "working (Judging c out) = Some c"
| "working (Publishing c f) = Some c"
| "working (Unleasing b c) = Some c"
| "working (Unreporting b c) = Some c"
| "working (Unreadying b c) = Some c"
| "working (Purging c) = Some c"
| "working (Finishing c) = Some c"
| "working w = holding w"

definition judge_command ::
  "int \<Rightarrow> output_command \<Rightarrow> command_outcome \<Rightarrow> rtp_server \<Rightarrow> breaker_action option \<times> rtp_server" where
  "judge_command now c out S =
     (if oc_type c = Reset
      then (case out of Command_threw e \<Rightarrow> (Some no_action, S) | Command_ok r \<Rightarrow> (None, S))
      else judge_outcome now c out S)"

text \<open>The worker's next step, given what its environment answers; \<open>None\<close> when it has to wait.\<close>

fun worker_step :: "worker_env \<Rightarrow> rtp_server \<Rightarrow> worker_pc \<Rightarrow> (rtp_server \<times> worker_pc) option" where
  "worker_step E S Idle =
     (case waitPop (outputQueue S) of
        (Popped c, Q) \<Rightarrow> Some (S\<lparr>outputQueue := Q\<rparr>, Got c)
      | _ \<Rightarrow> None)"
| "worker_step E S (Got c) =
     Some (S, if lockIfCurrent (oc_lease c) (coordinator S) then Locked c else Idle)"
| "worker_step E S (Locked c) =
     (if oc_type c = Reset then Some (S\<lparr>readyGeneration := 0\<rparr>, Resetting c)
      else if readyGeneration S \<noteq> oc_generation c
      then Some (S, Judging c (Command_threw
        (if oc_type c = SilentFrame then ''RTP silent frame rejected because its generation was not reset''
         else ''RTP audio frame rejected because its generation was not reset'')))
      else Some (S, Checked c))"
| "worker_step E S (Resetting c) =
     (let (err, S1) = rotate_ssrcs E (oc_generation c) (lease_ownerId (oc_lease c)) (oc_trace c) S
      in Some (S1, case err of Some e \<Rightarrow> Judging c (Command_threw e) | None \<Rightarrow> Rotated c))"
| "worker_step E S (Rotated c) =
     Some (S\<lparr>readyGeneration := oc_generation c,
             failureTracker := beginGeneration (oc_generation c) (env_instant E) (failureTracker S)\<rparr>,
           Judging c (Command_ok (new_output_result 0)))"
| "worker_step E S (Checked c) =
     (let (out, S1) =
        (if oc_type c = SilentFrame then sendSilentFrameSet E (oc_generation c) (oc_frameIndex c) S
         else sendAudioFrameSet E (oc_generation c) (case oc_buffer c of Some B \<Rightarrow> B) (oc_frameIndex c)
                (S\<lparr>frameClock := advance (oc_skippedFrames c) (frameClock S)\<rparr>))
      in Some (S1, Sent_set c out))"
| "worker_step E S (Sent_set c out) =
     (let (res, S1) = record_and_advance c (out, S) in Some (S1, Judging c res))"
| "worker_step E S (Judging c out) =
     (let (verdict, S1) = judge_command (env_instant E) c out S
      in Some (S1, case verdict of Some a \<Rightarrow> Publishing c (terminal_record c out a) | None \<Rightarrow> Finishing c))"
| "worker_step E S (Publishing c f) = Some (publish_record f S, Unleasing True c)"
| "worker_step E S (Unleasing b c) = Some (release_lease (env_got_lock E) (oc_lease c) S, Unreporting b c)"
| "worker_step E S (Unreporting b c) = Some (end_rtcp (oc_generation c) S, Unreadying b c)"
| "worker_step E S (Unreadying b c) = Some (unready (oc_generation c) S, if b then Purging c else Idle)"
| "worker_step E S (Purging c) = Some (purge_generation (oc_generation c) S, Finishing c)"
| "worker_step E S (Finishing c) = Some (S, if oc_releaseAfterSend c then Unleasing False c else Idle)"

text \<open>Run alone, the steps of the worker are \<open>processOutputCommand\<close>.\<close>

primrec worker_steps :: "worker_env \<Rightarrow> nat \<Rightarrow> rtp_server \<times> worker_pc \<Rightarrow> (rtp_server \<times> worker_pc) option" where
  "worker_steps E 0 s = Some s"
| "worker_steps E (Suc n) s =
     (if snd s = Idle then Some s
      else (case worker_step E (fst s) (snd s) of Some s' \<Rightarrow> worker_steps E n s' | None \<Rightarrow> None))"

definition command_ok :: "output_command \<Rightarrow> bool" where
  "command_ok c \<longleftrightarrow> (oc_type c = Reset \<longrightarrow> \<not> oc_releaseAfterSend c)"

lemma worker_steps_Suc:
  "w \<noteq> Idle \<Longrightarrow> worker_step E S w = Some s' \<Longrightarrow> worker_steps E (Suc n) (S, w) = worker_steps E n s'"
  by simp

lemma finish_steps:
  "worker_steps E 4 (S, Finishing c) =
     Some (if oc_releaseAfterSend c then releaseGeneration (env_got_lock E) (oc_lease c) S else S, Idle)"
  by (simp add: numeral_eq_Suc releaseGeneration_def)

lemma trip_steps:
  "worker_steps E 9 (S, Publishing c (terminal_record c out a)) =
     Some (let S1 = tripCircuitBreaker (env_got_lock E) c out a S
           in if oc_releaseAfterSend c then releaseGeneration (env_got_lock E) (oc_lease c) S1 else S1, Idle)"
  using finish_steps [of E _ c]
  by (simp add: numeral_eq_Suc tripCircuitBreaker_def releaseGeneration_def Let_def)

definition after_command :: "worker_env \<Rightarrow> output_command \<Rightarrow> command_outcome \<Rightarrow> rtp_server \<Rightarrow> rtp_server" where
  "after_command E c out S =
     (case out of
        Command_threw e \<Rightarrow> handleCommandException (env_instant E) (env_got_lock E) c e S
      | Command_ok r \<Rightarrow>
          (let S2 = (if oc_type c \<noteq> Reset
                     then handleSendOutcome (env_instant E) (env_got_lock E) c out S else S)
           in if oc_releaseAfterSend c then releaseGeneration (env_got_lock E) (oc_lease c) S2 else S2))"

lemma processOutputCommand_after:
  "processOutputCommand E c S =
     (if \<not> lockIfCurrent (oc_lease c) (coordinator S) then S
      else (let (out, S1) = run_guarded E c S in after_command E c out S1))"
  by (simp add: processOutputCommand_def after_command_def)

lemma worker_steps_Idle [simp]: "worker_steps E n (S, Idle) = Some (S, Idle)"
  by (cases n) simp_all

lemma worker_steps_add:
  "worker_steps E m s = Some s' \<Longrightarrow> worker_steps E (m + n) s = worker_steps E n s'"
proof (induction m arbitrary: s)
  case (Suc m)
  then show ?case by (cases s; cases s') (auto split: if_splits option.splits)
qed simp

lemma judge_steps:
  assumes "command_ok c"
  shows "worker_steps E 10 (S, Judging c out) = Some (after_command E c out S, Idle)"
proof -
  obtain v S1 where j: "judge_command (env_instant E) c out S = (v, S1)" by fastforce
  have first: "worker_steps E 10 (S, Judging c out) =
      worker_steps E 9 (S1, case v of Some a \<Rightarrow> Publishing c (terminal_record c out a) | None \<Rightarrow> Finishing c)"
    using worker_steps_Suc [of "Judging c out" E S _ 9] j by simp
  show ?thesis
  proof (cases v)
    case None
    have "worker_steps E 9 (S1, Finishing c) =
        Some (if oc_releaseAfterSend c then releaseGeneration (env_got_lock E) (oc_lease c) S1 else S1, Idle)"
      using worker_steps_add [OF finish_steps [of E S1 c], of 5] by simp
    then show ?thesis
      using first None j assms
      by (auto simp: judge_command_def after_command_def handleCommandException_def handleSendOutcome_def
          command_ok_def Let_def split: if_splits command_outcome.splits)
  next
    case (Some a)
    then show ?thesis
      using first trip_steps [of E S1 c out a] j assms
      by (auto simp: judge_command_def after_command_def handleCommandException_def handleSendOutcome_def
          command_ok_def Let_def split: if_splits command_outcome.splits)
  qed
qed

lemma locked_steps:
  "\<exists>n. worker_steps E n (S, Locked c) =
     Some (case run_guarded E c S of (out, S1) \<Rightarrow> (S1, Judging c out))"
proof (cases "oc_type c")
  case Reset
  obtain err S1 where r: "rotate_ssrcs E (oc_generation c) (lease_ownerId (oc_lease c)) (oc_trace c)
      (S\<lparr>readyGeneration := 0\<rparr>) = (err, S1)" by fastforce
  show ?thesis
  proof (cases err)
    case None
    then have "worker_steps E 3 (S, Locked c) = Some (case run_guarded E c S of (out, S1) \<Rightarrow> (S1, Judging c out))"
      using Reset r by (simp add: numeral_eq_Suc run_guarded_def run_reset_def Let_def)
    then show ?thesis by blast
  next
    case (Some e)
    then have "worker_steps E 2 (S, Locked c) = Some (case run_guarded E c S of (out, S1) \<Rightarrow> (S1, Judging c out))"
      using Reset r by (simp add: numeral_eq_Suc run_guarded_def run_reset_def Let_def)
    then show ?thesis by blast
  qed
next
  case SilentFrame
  show ?thesis
  proof (cases "readyGeneration S = oc_generation c")
    case True
    then have "worker_steps E 3 (S, Locked c) = Some (case run_guarded E c S of (out, S1) \<Rightarrow> (S1, Judging c out))"
      using SilentFrame by (simp add: numeral_eq_Suc run_guarded_def run_silent_def split_def Let_def)
    then show ?thesis by blast
  next
    case False
    then have "worker_steps E 1 (S, Locked c) = Some (case run_guarded E c S of (out, S1) \<Rightarrow> (S1, Judging c out))"
      using SilentFrame by (simp add: run_guarded_def run_silent_def)
    then show ?thesis by blast
  qed
next
  case AudioFrame
  show ?thesis
  proof (cases "readyGeneration S = oc_generation c")
    case True
    then have "worker_steps E 3 (S, Locked c) = Some (case run_guarded E c S of (out, S1) \<Rightarrow> (S1, Judging c out))"
      using AudioFrame by (simp add: numeral_eq_Suc run_guarded_def run_audio_def split_def Let_def)
    then show ?thesis by blast
  next
    case False
    then have "worker_steps E 1 (S, Locked c) = Some (case run_guarded E c S of (out, S1) \<Rightarrow> (S1, Judging c out))"
      using AudioFrame by (simp add: run_guarded_def run_audio_def)
    then show ?thesis by blast
  qed
qed

text \<open>
  Undisturbed, the cut-up worker computes \<open>processOutputCommand\<close>: the protocol below is the code's.
\<close>

lemma steps_are_processOutputCommand:
  assumes "command_ok c"
  shows "\<exists>n. worker_steps E n (S, Got c) = Some (processOutputCommand E c S, Idle)"
proof (cases "lockIfCurrent (oc_lease c) (coordinator S)")
  case False
  then have "worker_steps E 1 (S, Got c) = Some (processOutputCommand E c S, Idle)"
    by (simp add: processOutputCommand_def)
  then show ?thesis by blast
next
  case True
  obtain out S1 where r: "run_guarded E c S = (out, S1)" by fastforce
  obtain n where n: "worker_steps E n (S, Locked c) = Some (S1, Judging c out)"
    using locked_steps [of E S c] r by auto
  have "worker_steps E (Suc (n + 10)) (S, Got c) = worker_steps E (n + 10) (S, Locked c)"
    by (rule worker_steps_Suc) (simp_all add: True)
  also have "\<dots> = Some (after_command E c out S1, Idle)"
    using worker_steps_add [OF n] judge_steps [OF assms] by simp
  finally show ?thesis using True r by (auto simp: processOutputCommand_after)
qed

section \<open>All interleavings\<close>

inductive rtp_step :: "rtp_server \<times> worker_pc \<Rightarrow> rtp_server \<times> worker_pc \<Rightarrow> bool" where
  worker: "worker_step E S w = Some s' \<Longrightarrow> rtp_step (S, w) s'"
| claim: "holding w = None \<Longrightarrow> 0 < generations_left (coordinator S) \<Longrightarrow>
    rtp_step (S, w) (snd (claim_output owner S), w)"
| clear: "holding w = None \<Longrightarrow> rtp_step (S, w) (clear_stale l S, w)"
| unlease: "rtp_step (S, w) (release_lease got_lock l S, w)"
| unreport: "rtp_step (S, w) (end_rtcp g S, w)"
| unready: "rtp_step (S, w) (unready g S, w)"
| purge: "rtp_step (S, w) (purge_generation g S, w)"
| push: "rtp_step (S, w) (snd (push_command c S), w)"

inductive_cases rtp_step_elim: "rtp_step (S, w) s'"

abbreviation rtp_reachable :: "rtp_server \<Rightarrow> rtp_server \<times> worker_pc \<Rightarrow> bool" where
  "rtp_reachable S0 s \<equiv> rtp_step\<^sup>*\<^sup>* (S0, Idle) s"

text \<open>The clients' operations are sequences of these steps.\<close>

lemma acquireOutput_steps:
  assumes "holding w = None" "0 < generations_left (coordinator S)"
  shows "rtp_step\<^sup>*\<^sup>* (S, w) (snd (acquireOutput owner S), w)"
proof -
  have "rtp_step (S, w) (snd (claim_output owner S), w)" using assms by (rule rtp_step.claim)
  moreover have "rtp_step (snd (claim_output owner S), w)
      (clear_stale (fst (claim_output owner S)) (snd (claim_output owner S)), w)"
    using assms(1) by (rule rtp_step.clear)
  ultimately show ?thesis
    unfolding acquireOutput_def by (simp add: split_def Let_def)
qed

lemma releaseOutput_steps: "rtp_step\<^sup>*\<^sup>* (S, w) (releaseOutput got_lock l S, w)"
  unfolding releaseOutput_def releaseGeneration_def
  by (meson rtp_step.unlease rtp_step.unreport rtp_step.unready rtp_step.purge
      converse_rtranclp_into_rtranclp rtranclp.rtrancl_refl)

lemma enqueue_steps:
  "rtp_step\<^sup>*\<^sup>* (S, w) (snd (enqueueReset l tr S), w)"
  "rtp_step\<^sup>*\<^sup>* (S, w) (snd (enqueueSilentFrame l i tr S), w)"
  "rtp_step\<^sup>*\<^sup>* (S, w) (snd (enqueueAudioFrame l B n k b tr S), w)"
  by (auto simp: enqueueReset_def enqueueSilentFrame_def enqueueAudioFrame_def
      intro: rtp_step.push r_into_rtranclp split: option.splits)

text \<open>What each primitive leaves alone.\<close>

lemma server_frames [frame_simps]:
  "coordinator (unready g S) = coordinator S" "rtp_wire (unready g S) = rtp_wire S"
  "outputQueue (unready g S) = outputQueue S" "failureTracker (unready g S) = failureTracker S"
  "terminalFailures (unready g S) = terminalFailures S"
  "coordinator (end_rtcp g S) = coordinator S" "rtp_wire (end_rtcp g S) = rtp_wire S"
  "outputQueue (end_rtcp g S) = outputQueue S" "failureTracker (end_rtcp g S) = failureTracker S"
  "terminalFailures (end_rtcp g S) = terminalFailures S" "readyGeneration (end_rtcp g S) = readyGeneration S"
  "coordinator (purge_generation g S) = coordinator S" "rtp_wire (purge_generation g S) = rtp_wire S"
  "failureTracker (purge_generation g S) = failureTracker S"
  "terminalFailures (purge_generation g S) = terminalFailures S"
  "readyGeneration (purge_generation g S) = readyGeneration S"
  "coordinator (publish_record f S) = coordinator S" "rtp_wire (publish_record f S) = rtp_wire S"
  "outputQueue (publish_record f S) = outputQueue S" "failureTracker (publish_record f S) = failureTracker S"
  "readyGeneration (publish_record f S) = readyGeneration S"
  "rtp_wire (release_lease b l S) = rtp_wire S" "outputQueue (release_lease b l S) = outputQueue S"
  "failureTracker (release_lease b l S) = failureTracker S"
  "terminalFailures (release_lease b l S) = terminalFailures S"
  "readyGeneration (release_lease b l S) = readyGeneration S"
  "coordinator (clear_stale l S) = coordinator S" "rtp_wire (clear_stale l S) = rtp_wire S"
  "failureTracker (clear_stale l S) = failureTracker S"
  "terminalFailures (clear_stale l S) = terminalFailures S"
  by (simp_all add: unready_def end_rtcp_def purge_generation_def publish_record_def release_lease_def clear_stale_def)

lemma push_command_frames [frame_simps]:
  "coordinator (snd (push_command c S)) = coordinator S" "rtp_wire (snd (push_command c S)) = rtp_wire S"
  "failureTracker (snd (push_command c S)) = failureTracker S"
  "terminalFailures (snd (push_command c S)) = terminalFailures S"
  "readyGeneration (snd (push_command c S)) = readyGeneration S"
  by (simp_all add: push_command_def split: prod.splits)

lemma claim_output_frames [frame_simps]:
  "rtp_wire (snd (claim_output ow S)) = rtp_wire S" "outputQueue (snd (claim_output ow S)) = outputQueue S"
  "failureTracker (snd (claim_output ow S)) = failureTracker S"
  "terminalFailures (snd (claim_output ow S)) = terminalFailures S"
  "readyGeneration (snd (claim_output ow S)) = readyGeneration S"
  "coordinator (snd (claim_output ow S)) = snd (acquire ow (coordinator S))"
  by (simp_all add: claim_output_def split: prod.splits)

lemma rotate_frames [frame_simps]:
  "rotate_ssrcs E g ow tr S = (e, S') \<Longrightarrow> coordinator S' = coordinator S \<and> rtp_wire S' = rtp_wire S
     \<and> outputQueue S' = outputQueue S \<and> failureTracker S' = failureTracker S
     \<and> terminalFailures S' = terminalFailures S \<and> readyGeneration S' = readyGeneration S"
  by (auto simp: rotate_ssrcs_def Let_def split: prod.splits sum.splits)

text \<open>A frame set adds packets of its own generation and touches nothing shared.\<close>

lemma send_frame_set_frames [frame_simps]:
  "send_frame_set E g frame_of S = (out, S') \<Longrightarrow> coordinator S' = coordinator S
     \<and> outputQueue S' = outputQueue S \<and> failureTracker S' = failureTracker S
     \<and> terminalFailures S' = terminalFailures S \<and> readyGeneration S' = readyGeneration S
     \<and> (\<exists>ps. rtp_wire S' = rtp_wire S @ ps \<and> (\<forall>p\<in>set ps. pk_generation p = g))"
  by (auto simp: send_frame_set_def packet_of_def Let_def split: prod.splits)

lemma record_frames [frame_simps]:
  "record_and_advance c (out, S) = (res, S') \<Longrightarrow> coordinator S' = coordinator S \<and> rtp_wire S' = rtp_wire S
     \<and> outputQueue S' = outputQueue S \<and> failureTracker S' = failureTracker S
     \<and> terminalFailures S' = terminalFailures S \<and> readyGeneration S' = readyGeneration S"
  by (auto simp: record_and_advance_def split: sum.splits)

lemma judge_frames [frame_simps]:
  "judge_command now c out S = (v, S') \<Longrightarrow> coordinator S' = coordinator S \<and> rtp_wire S' = rtp_wire S
     \<and> outputQueue S' = outputQueue S \<and> terminalFailures S' = terminalFailures S
     \<and> readyGeneration S' = readyGeneration S"
  by (auto simp: judge_command_def judge_outcome_def Let_def split: if_splits command_outcome.splits prod.splits)

lemma rtp_invariant:
  assumes "rtp_reachable S0 s" "P (S0, Idle)" "\<And>s s'. P s \<Longrightarrow> rtp_step s s' \<Longrightarrow> P s'"
  shows "P s"
  using assms(1) by (induction rule: rtranclp_induct) (use assms(2,3) in auto)

section \<open>One owner at a time\<close>

definition owner_inv :: "rtp_server \<times> worker_pc \<Rightarrow> bool" where
  "owner_inv s \<longleftrightarrow>
     (let C = coordinator (fst s); g = nextGeneration C
      in (activeGeneration C = 0 \<or> activeGeneration C = g)
         \<and> (\<forall>c. holding (snd s) = Some c \<longrightarrow> oc_generation c = g \<and> oc_generation c \<noteq> 0)
         \<and> sorted (map pk_generation (rtp_wire (fst s)))
         \<and> (\<forall>p \<in> set (rtp_wire (fst s)). pk_generation p \<le> g))"

lemma release_generations:
  "nextGeneration (release b l C) = nextGeneration C"
  "activeGeneration (release b l C) = 0 \<or> activeGeneration (release b l C) = activeGeneration C"
  by (simp_all add: release_def Let_def)

lemma checked_step:
  assumes "worker_step E S (Checked c) = Some (S', w')"
  shows "\<exists>out ps. w' = Sent_set c out \<and> coordinator S' = coordinator S
     \<and> outputQueue S' = outputQueue S \<and> failureTracker S' = failureTracker S
     \<and> terminalFailures S' = terminalFailures S \<and> readyGeneration S' = readyGeneration S
     \<and> rtp_wire S' = rtp_wire S @ ps \<and> (\<forall>p\<in>set ps. pk_generation p = oc_generation c)"
proof (cases "oc_type c = SilentFrame")
  case True
  obtain out where "sendSilentFrameSet E (oc_generation c) (oc_frameIndex c) S = (out, S')" "w' = Sent_set c out"
    using assms True by (auto split: prod.splits)
  then show ?thesis using send_frame_set_frames by (fastforce simp: sendSilentFrameSet_def)
next
  case False
  obtain out where "sendAudioFrameSet E (oc_generation c) (case oc_buffer c of Some B \<Rightarrow> B) (oc_frameIndex c)
      (S\<lparr>frameClock := advance (oc_skippedFrames c) (frameClock S)\<rparr>) = (out, S')" "w' = Sent_set c out"
    using assms False by (auto split: prod.splits)
  then show ?thesis using send_frame_set_frames by (fastforce simp: sendAudioFrameSet_def)
qed

text \<open>What one step of the worker does to ownership and to the wire.\<close>

definition ownership_kept :: "rtp_server \<Rightarrow> worker_pc \<Rightarrow> rtp_server \<Rightarrow> worker_pc \<Rightarrow> bool" where
  "ownership_kept S w S' w' \<longleftrightarrow>
     nextGeneration (coordinator S') = nextGeneration (coordinator S)
     \<and> (activeGeneration (coordinator S') = 0 \<or> activeGeneration (coordinator S') = activeGeneration (coordinator S))
     \<and> (\<forall>c. holding w' = Some c \<longrightarrow> holding w = Some c \<or>
           (w = Got c \<and> oc_generation c = activeGeneration (coordinator S) \<and> oc_generation c \<noteq> 0 \<and> S' = S))
     \<and> (\<exists>ps. rtp_wire S' = rtp_wire S @ ps \<and>
           (\<forall>p \<in> set ps. \<exists>c. holding w = Some c \<and> pk_generation p = oc_generation c))"

lemma ownership_quiet:
  assumes "coordinator S' = coordinator S" "rtp_wire S' = rtp_wire S"
    and "\<forall>c. holding w' = Some c \<longrightarrow> holding w = Some c"
  shows "ownership_kept S w S' w'"
  using assms by (simp add: ownership_kept_def)

lemma worker_step_ownership:
  assumes "worker_step E S w = Some (S', w')"
  shows "ownership_kept S w S' w'"
proof (cases w)
  case Idle
  then show ?thesis using assms by (auto intro!: ownership_quiet split: prod.splits pop_result.splits)
next
  case (Got c)
  then show ?thesis using assms
    by (auto simp: ownership_kept_def lockIfCurrent_def lease_valid_def split: if_splits)
next
  case (Locked c)
  then show ?thesis using assms by (auto intro!: ownership_quiet split: if_splits)
next
  case (Resetting c)
  then show ?thesis using assms rotate_frames
    by (fastforce intro!: ownership_quiet split: prod.splits option.splits)
next
  case (Rotated c)
  then show ?thesis using assms by (auto intro!: ownership_quiet)
next
  case (Checked c)
  then show ?thesis using checked_step [of E S c S' w'] assms by (fastforce simp: ownership_kept_def)
next
  case (Sent_set c out)
  then show ?thesis using assms record_frames [of c out S]
    by (fastforce intro!: ownership_quiet split: prod.splits)
next
  case (Judging c out)
  then show ?thesis using assms judge_frames
    by (fastforce intro!: ownership_quiet split: prod.splits option.splits)
next
  case (Unleasing b c)
  then show ?thesis
    using assms release_generations [of "env_got_lock E" "oc_lease c" "coordinator S"]
    by (auto simp: ownership_kept_def frame_simps release_lease_def)
qed (use assms in \<open>auto intro!: ownership_quiet simp: frame_simps split: if_splits\<close>)

lemma sorted_map_const: "\<forall>p\<in>set ps. f p = (n :: u64) \<Longrightarrow> sorted (map f ps)"
  by (induction ps) auto

lemma owner_inv_worker:
  assumes I: "owner_inv (S, w)" and step: "worker_step E S w = Some (S', w')"
  shows "owner_inv (S', w')"
proof -
  obtain ps where wire: "rtp_wire S' = rtp_wire S @ ps"
    and ps: "\<forall>p\<in>set ps. \<exists>c. holding w = Some c \<and> pk_generation p = oc_generation c"
    using worker_step_ownership [OF step] by (auto simp: ownership_kept_def)
  let ?n = "nextGeneration (coordinator S)" and ?act = "activeGeneration (coordinator S)"
  have n: "nextGeneration (coordinator S') = ?n"
    and act: "activeGeneration (coordinator S') = 0 \<or> activeGeneration (coordinator S') = ?act"
    and hold: "\<And>c. holding w' = Some c \<Longrightarrow> holding w = Some c \<or> (oc_generation c = ?act \<and> oc_generation c \<noteq> 0)"
    using worker_step_ownership [OF step] unfolding ownership_kept_def by blast+
  note I' = I [unfolded owner_inv_def Let_def fst_conv snd_conv]
  have I1: "?act = 0 \<or> ?act = ?n" by (rule conjunct1 [OF I'])
  have I2: "\<And>c. holding w = Some c \<Longrightarrow> oc_generation c = ?n \<and> oc_generation c \<noteq> 0"
    using conjunct1 [OF conjunct2 [OF I']] by blast
  have I3: "sorted (map pk_generation (rtp_wire S))" "\<forall>p\<in>set (rtp_wire S). pk_generation p \<le> ?n"
    by (rule conjunct2 [OF conjunct2 [OF I'], THEN conjunct1], rule conjunct2 [OF conjunct2 [OF I'], THEN conjunct2])
  have ps_n: "\<forall>p\<in>set ps. pk_generation p = ?n"
  proof
    fix p assume "p \<in> set ps"
    then obtain c where "holding w = Some c" "pk_generation p = oc_generation c" using ps by blast
    then show "pk_generation p = ?n" using I2 [of c] by simp
  qed
  then have "sorted (map pk_generation ps)" by (rule sorted_map_const)
  then have "sorted (map pk_generation (rtp_wire S'))"
    unfolding wire map_append sorted_append using I3 ps_n by auto
  moreover have "\<forall>p\<in>set (rtp_wire S'). pk_generation p \<le> ?n"
    unfolding wire set_append using I3(2) ps_n by auto
  moreover have "activeGeneration (coordinator S') = 0 \<or> activeGeneration (coordinator S') = ?n"
    using act I1 by auto
  moreover have "oc_generation c = ?n \<and> oc_generation c \<noteq> 0" if "holding w' = Some c" for c
    using hold [OF that] I1 I2 [of c] by auto
  ultimately show ?thesis unfolding owner_inv_def Let_def fst_conv snd_conv n by blast
qed

lemma owner_inv_step:
  assumes "owner_inv s" "rtp_step s s'"
  shows "owner_inv s'"
  using assms(2,1)
proof cases
  case (worker E S w)
  then show ?thesis using owner_inv_worker assms(1) by (cases s') simp
next
  case (claim w S ow)
  then show ?thesis
    using assms(1) acquire_generation [of "coordinator S"]
    by (auto simp: owner_inv_def Let_def frame_simps intro: order_trans less_imp_le)
next
  case (unlease S w b l)
  then show ?thesis using assms(1) release_generations [of b l "coordinator S"]
    by (auto simp: owner_inv_def Let_def release_lease_def)
qed (auto simp: owner_inv_def Let_def frame_simps)

lemma owner_inv_reachable:
  assumes "rtp_reachable (new_rtp_server cfg rtcp sources clock silence) s"
  shows "owner_inv s"
  using assms
proof (rule rtp_invariant)
  show "owner_inv (new_rtp_server cfg rtcp sources clock silence, Idle)"
    by (simp add: owner_inv_def new_rtp_server_def new_coordinator_def Let_def)
qed (rule owner_inv_step)

text \<open>A generation that is over: not active, and not in the worker's hands.\<close>

definition over :: "u64 \<Rightarrow> rtp_server \<times> worker_pc \<Rightarrow> bool" where
  "over g s \<longleftrightarrow> g \<le> nextGeneration (coordinator (fst s)) \<and> activeGeneration (coordinator (fst s)) \<noteq> g
     \<and> (\<forall>c. holding (snd s) = Some c \<longrightarrow> oc_generation c \<noteq> g)"

definition packets_of :: "u64 \<Rightarrow> rtp_server \<times> worker_pc \<Rightarrow> rtp_packet list" where
  "packets_of g s = filter (\<lambda>p. pk_generation p = g) (rtp_wire (fst s))"

lemma over_step:
  assumes "over g s" "g \<noteq> 0" "rtp_step s s'"
  shows "over g s' \<and> packets_of g s' = packets_of g s"
  using assms(3)
proof cases
  case (worker E S w)
  obtain S' w' where s': "s' = (S', w')" by fastforce
  have K: "ownership_kept S w S' w'" using worker worker_step_ownership s' by simp
  then obtain ps where "rtp_wire S' = rtp_wire S @ ps"
    "\<forall>p\<in>set ps. \<exists>c. holding w = Some c \<and> pk_generation p = oc_generation c"
    by (auto simp: ownership_kept_def)
  moreover from this have "filter (\<lambda>p. pk_generation p = g) ps = []"
    using assms(1) worker by (auto simp: over_def filter_empty_conv)
  ultimately show ?thesis
    using K assms(1,2) worker(1) s' by (auto simp: over_def packets_of_def ownership_kept_def)
next
  case (claim w S ow)
  then show ?thesis
    using assms(1) acquire_generation [of "coordinator S"]
    by (auto simp: over_def packets_of_def frame_simps dest: leD)
next
  case (unlease S w b l)
  then show ?thesis using assms(1,2) release_generations [of b l "coordinator S"]
    by (auto simp: over_def packets_of_def release_lease_def)
qed (use assms(1) in \<open>auto simp: over_def packets_of_def frame_simps\<close>)

lemma over_forever:
  assumes "rtp_step\<^sup>*\<^sup>* s s'" "over g s" "g \<noteq> 0"
  shows "over g s' \<and> packets_of g s' = packets_of g s"
  using assms(1) by (induction rule: rtranclp_induct) (use assms(2,3) over_step in auto)

text \<open>
  C8: an owner that lost the RTP output is silent for good, in every interleaving of the clients
  and the worker. Once its lease is no longer current and the worker is not in the middle of one of
  its frame sets, no packet of its generation is ever sent again, whatever of it is still queued or
  is queued later; and the packets of successive owners never mix on the wire.
\<close>

theorem lost_output_stays_silent:
  assumes "rtp_reachable (new_rtp_server cfg rtcp sources clock silence) s"
    and "lease_issued l (coordinator (fst s))" "lease_valid l" "\<not> isCurrent l (coordinator (fst s))"
    and "\<forall>c. holding (snd s) = Some c \<longrightarrow> oc_generation c \<noteq> lease_generation l"
    and "rtp_step\<^sup>*\<^sup>* s s'"
  shows "packets_of (lease_generation l) s' = packets_of (lease_generation l) s
       \<and> sorted (map pk_generation (rtp_wire (fst s')))"
proof -
  have "over (lease_generation l) s"
    using assms(2-5) by (auto simp: over_def lease_issued_def isCurrent_def)
  moreover have "lease_generation l \<noteq> 0" using assms(3) by (simp add: lease_valid_def)
  moreover have "owner_inv s'"
    by (rule owner_inv_reachable [OF rtranclp_trans [OF assms(1,6)]])
  ultimately show ?thesis
    using over_forever [OF assms(6)] by (simp add: owner_inv_def Let_def)
qed

section \<open>A tripped generation is shut down and reported\<close>

text \<open>
  The phases of a trip for the generation \<open>g\<close> of the tripped tracker: the record is published
  before the lease is released, and the ready flag is cleared before the worker moves on.
\<close>

fun unpublished :: "worker_pc \<Rightarrow> u64 \<Rightarrow> bool" where
  "unpublished (Publishing c f) g = (tf_generation f = g)"
| "unpublished _ g = False"

fun unreleased :: "worker_pc \<Rightarrow> u64 \<Rightarrow> bool" where
  "unreleased (Publishing c f) g = (lease_generation (oc_lease c) = g \<and> lease_valid (oc_lease c))"
| "unreleased (Unleasing b c) g = (lease_generation (oc_lease c) = g \<and> lease_valid (oc_lease c))"
| "unreleased _ g = False"

fun still_ready :: "worker_pc \<Rightarrow> u64 \<Rightarrow> bool" where
  "still_ready (Publishing c f) g = (lease_generation (oc_lease c) = g)"
| "still_ready (Unleasing b c) g = (lease_generation (oc_lease c) = g)"
| "still_ready (Unreporting b c) g = (lease_generation (oc_lease c) = g)"
| "still_ready (Unreadying b c) g = (lease_generation (oc_lease c) = g)"
| "still_ready _ g = False"

text \<open>The command that may still change the tracker.\<close>

fun unjudged :: "worker_pc \<Rightarrow> output_command option" where
  "unjudged (Judging c out) = Some c"
| "unjudged w = holding w"

text \<open>
  \<open>shut w n act ready R\<close>: the tripped generation \<open>n\<close> has its record, is not active and not ready,
  but for the phases of the trip that are still ahead of the worker.
\<close>

definition shut :: "worker_pc \<Rightarrow> u64 \<Rightarrow> u64 \<Rightarrow> u64 \<Rightarrow> failure_registry \<Rightarrow> bool" where
  "shut w n act ready R \<longleftrightarrow> (unpublished w n \<or> isTripped n R) \<and> (unreleased w n \<or> act \<noteq> n)
     \<and> (still_ready w n \<or> ready \<noteq> n)"

definition pc_ok :: "worker_pc \<Rightarrow> u64 \<Rightarrow> failure_tracker \<Rightarrow> bool" where
  "pc_ok w n T \<longleftrightarrow>
     (\<forall>c. working w = Some c \<longrightarrow>
        lease_valid (oc_lease c) \<and> oc_generation c \<le> n \<and> trackedGeneration T \<le> oc_generation c)
     \<and> (\<forall>c f. w = Publishing c f \<longrightarrow> tf_generation f = oc_generation c)
     \<and> (\<forall>c. unjudged w = Some c \<longrightarrow> trackedGeneration T = oc_generation c \<longrightarrow> \<not> tripped T)"

definition trip_ok :: "worker_pc \<Rightarrow> u64 \<Rightarrow> u64 \<Rightarrow> u64 \<Rightarrow> failure_registry \<Rightarrow> failure_tracker \<Rightarrow> bool" where
  "trip_ok w n act ready R T \<longleftrightarrow>
     ring_matches R \<and> trackedGeneration T \<le> n \<and> (tripped T \<longrightarrow> trackedGeneration T \<noteq> 0)
     \<and> pc_ok w n T \<and> (tripped T \<longrightarrow> trackedGeneration T = n \<longrightarrow> shut w n act ready R)"

definition trip_inv :: "rtp_server \<times> worker_pc \<Rightarrow> bool" where
  "trip_inv s \<longleftrightarrow>
     (let S = fst s
      in trip_ok (snd s) (nextGeneration (coordinator S)) (activeGeneration (coordinator S))
           (readyGeneration S) (terminalFailures S) (failureTracker S))"

lemma terminal_record_generation [simp]: "tf_generation (terminal_record c out a) = oc_generation c"
  by (simp add: terminal_record_def empty_failure_def Let_def split: command_outcome.splits)

lemma isTripped_publish_same:
  "ring_matches R \<Longrightarrow> g \<noteq> 0 \<Longrightarrow> tf_generation f = g \<Longrightarrow> isTripped g (publish f R)"
  using isTripped_publish [of f R] by simp

lemma tracker_step:
  assumes "recordFailure g now T = (a, T')"
  shows "trackedGeneration T' = g" "tripped T' \<Longrightarrow> trip a \<or> (tripped T \<and> trackedGeneration T = g)"
proof -
  let ?T = "if g \<noteq> trackedGeneration T then beginGeneration g now T else T"
  have same: "recordFailure g now ?T = (a, T')" "trackedGeneration ?T = g"
    using assms by (auto simp: recordFailure_def beginGeneration_def)
  show "trackedGeneration T' = g" "tripped T' \<Longrightarrow> trip a \<or> (tripped T \<and> trackedGeneration T = g)"
  proof (atomize (full), cases "tripped ?T")
    case True
    then have "T' = ?T" using same by (simp add: recordFailure_def)
    then show "trackedGeneration T' = g \<and> (tripped T' \<longrightarrow> trip a \<or> tripped T \<and> trackedGeneration T = g)"
      using same(2) True by (auto simp: beginGeneration_def split: if_splits)
  next
    case False
    then show "trackedGeneration T' = g \<and> (tripped T' \<longrightarrow> trip a \<or> tripped T \<and> trackedGeneration T = g)"
      using recordFailure_spec [OF same(2) False same(1)] same(2)
      by (simp add: agrees_def count_failure_def)
  qed
qed

lemma tracker_success:
  assumes "recordSuccess g now T = (a, T')"
  shows "trackedGeneration T' = g" "tripped T' \<Longrightarrow> tripped T \<and> trackedGeneration T = g"
  using assms recordSuccess_spec [of T g now a T']
  by (auto simp: recordSuccess_def beginGeneration_def agrees_def Let_def split: if_splits)

text \<open>
  The judgement: a verdict goes on to publish; without a verdict the tracker is not newly tripped.
\<close>

lemma judge_step:
  assumes "judge_command now c out S = (v, S')"
  shows "trackedGeneration (failureTracker S') = oc_generation c \<or> failureTracker S' = failureTracker S"
    and "v = None \<Longrightarrow> tripped (failureTracker S') \<Longrightarrow>
           tripped (failureTracker S) \<and> (trackedGeneration (failureTracker S) = oc_generation c \<or> S' = S)"
proof -
  have "(trackedGeneration (failureTracker S') = oc_generation c \<or> failureTracker S' = failureTracker S)
    \<and> (v = None \<longrightarrow> tripped (failureTracker S') \<longrightarrow>
           tripped (failureTracker S) \<and> (trackedGeneration (failureTracker S) = oc_generation c \<or> S' = S))"
  proof (cases "oc_type c = Reset")
    case True
    then show ?thesis using assms by (auto simp: judge_command_def split: command_outcome.splits)
  next
    case False
    then have j: "judge_outcome now c out S = (v, S')" using assms by (simp add: judge_command_def)
    show ?thesis
    proof (cases "send_failed out")
      case True
      obtain a T where r: "recordFailure (oc_generation c) now (failureTracker S) = (a, T)" by fastforce
      then show ?thesis using j True tracker_step [OF r]
        by (auto simp: judge_outcome_def Let_def split: if_splits)
    next
      case False
      obtain a T where r: "recordSuccess (oc_generation c) now (failureTracker S) = (a, T)" by fastforce
      then show ?thesis using j False tracker_success [OF r] by (auto simp: judge_outcome_def)
    qed
  qed
  then show "trackedGeneration (failureTracker S') = oc_generation c \<or> failureTracker S' = failureTracker S"
    "v = None \<Longrightarrow> tripped (failureTracker S') \<Longrightarrow>
       tripped (failureTracker S) \<and> (trackedGeneration (failureTracker S) = oc_generation c \<or> S' = S)"
    by blast+
qed

lemma trip_okI:
  assumes "ring_matches R" "trackedGeneration T \<le> n" "tripped T \<Longrightarrow> trackedGeneration T \<noteq> 0" "pc_ok w n T"
    and "tripped T \<Longrightarrow> trackedGeneration T = n \<Longrightarrow> shut w n act ready R"
  shows "trip_ok w n act ready R T"
  using assms by (simp add: trip_ok_def)

lemma trip_okD:
  assumes "trip_ok w n act ready R T"
  shows "ring_matches R" "trackedGeneration T \<le> n" "tripped T \<Longrightarrow> trackedGeneration T \<noteq> 0" "pc_ok w n T"
    and "tripped T \<Longrightarrow> trackedGeneration T = n \<Longrightarrow> shut w n act ready R"
  using assms by (simp_all add: trip_ok_def)

text \<open>A step of another thread: less is active, less is ready, or a new generation begins.\<close>

lemma trip_ok_others:
  assumes "trip_ok w n act ready R T" "act' = 0 \<or> act' = act" "ready' = 0 \<or> ready' = ready"
  shows "trip_ok w n act' ready' R T"
proof (rule trip_okI)
  assume t: "tripped T" "trackedGeneration T = n"
  then have "n \<noteq> 0" and "shut w n act ready R" using trip_okD [OF assms(1)] by simp_all
  then show "shut w n act' ready' R" using assms(2,3) by (auto simp: shut_def)
qed (use trip_okD [OF assms(1)] in simp_all)

lemma trip_ok_claim:
  assumes "trip_ok w n act ready R T" "n < n'"
  shows "trip_ok w n' act' ready R T"
proof (rule trip_okI)
  show "pc_ok w n' T" using trip_okD(4) [OF assms(1)] assms(2) by (auto simp: pc_ok_def)
qed (use trip_okD [OF assms(1)] assms(2) in auto)

text \<open>A step of the worker that moves only its program counter, within the same command.\<close>

lemma trip_ok_move:
  assumes "trip_ok w n act ready R T"
    and "working w' = None \<or> working w' = working w" "unjudged w' = None \<or> unjudged w' = unjudged w"
    and "\<forall>c f. w' \<noteq> Publishing c f" "\<not> unpublished w n" "\<not> unreleased w n" "\<not> still_ready w n"
  shows "trip_ok w' n act ready R T"
proof (rule trip_okI)
  have "pc_ok w n T" by (rule trip_okD(4) [OF assms(1)])
  then show "pc_ok w' n T" using assms(2,3,4) by (elim disjE) (simp_all add: pc_ok_def)
  show "shut w' n act ready R" if "tripped T" "trackedGeneration T = n"
    using trip_okD(5) [OF assms(1) that] assms(5-7) by (simp add: shut_def)
qed (use trip_okD [OF assms(1)] in simp_all)

text \<open>The worker's steps.\<close>

lemma trip_worker:
  assumes O: "owner_inv (S, w)" and I: "trip_inv (S, w)" and step: "worker_step E S w = Some (S', w')"
  shows "trip_inv (S', w')"
proof -
  let ?n = "nextGeneration (coordinator S)" and ?T = "failureTracker S"
  have I': "trip_ok w ?n (activeGeneration (coordinator S)) (readyGeneration S) (terminalFailures S) ?T"
    using I by (simp add: trip_inv_def)
  note ok = trip_okD [OF I']
  have move: "trip_inv (S', w')"
    if "coordinator S' = coordinator S" "failureTracker S' = ?T" "terminalFailures S' = terminalFailures S"
      "readyGeneration S' = 0 \<or> readyGeneration S' = readyGeneration S"
      "working w' = None \<or> working w' = working w" "unjudged w' = None \<or> unjudged w' = unjudged w"
      "\<forall>c f. w' \<noteq> Publishing c f" "\<not> unpublished w ?n" "\<not> unreleased w ?n" "\<not> still_ready w ?n"
    using trip_ok_others [OF trip_ok_move [OF I' that(5-10)], of "activeGeneration (coordinator S)" "readyGeneration S'"]
      that(1-4) by (simp add: trip_inv_def)
  show ?thesis
  proof (cases w)
    case Idle
    then show ?thesis using step by (intro move) (auto split: prod.splits pop_result.splits)
  next
    case (Got c)
    show ?thesis
    proof (cases "lockIfCurrent (oc_lease c) (coordinator S)")
      case False
      then show ?thesis using step Got by (intro move) auto
    next
      case True
      then have S': "S' = S" "w' = Locked c" using step Got by simp_all
      have v: "lease_valid (oc_lease c)" "oc_generation c = activeGeneration (coordinator S)" "oc_generation c \<noteq> 0"
        using True by (auto simp: lockIfCurrent_def lease_valid_def)
      then have n: "oc_generation c = ?n" using O by (auto simp: owner_inv_def Let_def)
      have "\<not> tripped ?T" if "trackedGeneration ?T = oc_generation c"
        using ok(5) that v(2) n Got by (auto simp: shut_def)
      then have "trip_ok w' ?n (activeGeneration (coordinator S)) (readyGeneration S) (terminalFailures S) ?T"
        using ok v(1) n S' by (intro trip_okI) (auto simp: pc_ok_def)
      then show ?thesis by (simp add: trip_inv_def S')
    qed
  next
    case (Locked c)
    then show ?thesis using step by (intro move) (auto split: if_splits)
  next
    case (Resetting c)
    then show ?thesis using step rotate_frames by (intro move) (fastforce split: prod.splits option.splits)+
  next
    case (Rotated c)
    then have S': "S' = S\<lparr>readyGeneration := oc_generation c,
        failureTracker := beginGeneration (oc_generation c) (env_instant E) ?T\<rparr>"
      "w' = Judging c (Command_ok (new_output_result 0))" using step by simp_all
    have "oc_generation c = ?n" "lease_valid (oc_lease c)"
      using O ok(4) Rotated by (auto simp: owner_inv_def Let_def pc_ok_def)
    then show ?thesis
      unfolding trip_inv_def using ok(1) by (auto simp: S' beginGeneration_def pc_ok_def intro!: trip_okI)
  next
    case (Checked c)
    then show ?thesis using step checked_step [of E S c S' w'] by (intro move) auto
  next
    case (Sent_set c out)
    then show ?thesis using step record_frames [of c out S] by (intro move) (fastforce split: prod.splits)+
  next
    case (Judging c out)
    obtain v S1 where j: "judge_command (env_instant E) c out S = (v, S1)" by fastforce
    then have S': "S' = S1" "w' = (case v of Some a \<Rightarrow> Publishing c (terminal_record c out a) | None \<Rightarrow> Finishing c)"
      using step Judging by simp_all
    note fr = judge_frames [OF j] and js = judge_step [OF j]
    have c: "lease_valid (oc_lease c)" "oc_generation c \<le> ?n" "trackedGeneration ?T \<le> oc_generation c"
      "trackedGeneration ?T = oc_generation c \<Longrightarrow> \<not> tripped ?T"
      using ok(4) Judging by (auto simp: pc_ok_def)
    have T1: "trackedGeneration (failureTracker S1) = oc_generation c \<or> failureTracker S1 = ?T" by (rule js(1))
    have nz: "oc_generation c \<noteq> 0" using c(1) by (simp add: lease_valid_def)
    have le: "trackedGeneration (failureTracker S1) \<le> oc_generation c" using T1 c(3) by auto
    have "trip_ok w' ?n (activeGeneration (coordinator S)) (readyGeneration S) (terminalFailures S) (failureTracker S1)"
    proof (rule trip_okI)
      show "ring_matches (terminalFailures S)" by (rule ok(1))
      show "trackedGeneration (failureTracker S1) \<le> ?n" using le c(2) by (rule order_trans)
      show "trackedGeneration (failureTracker S1) \<noteq> 0" if "tripped (failureTracker S1)"
        using T1 ok(3) nz that by auto
      show "pc_ok w' ?n (failureTracker S1)" using c le by (auto simp: S' pc_ok_def split: option.splits)
      assume t: "tripped (failureTracker S1)" "trackedGeneration (failureTracker S1) = ?n"
      then have cn: "oc_generation c = ?n" using le c(2) by auto
      show "shut w' ?n (activeGeneration (coordinator S)) (readyGeneration S) (terminalFailures S)"
      proof (cases v)
        case (Some a)
        then show ?thesis using cn c(1) by (simp add: S' shut_def)
      next
        case None
        then have "tripped ?T" "trackedGeneration ?T = oc_generation c \<or> S1 = S" using js(2) t by simp_all
        then have "S1 = S" using c(4) by auto
        then have "trackedGeneration ?T = oc_generation c" using t cn by simp
        then show ?thesis using c(4) \<open>tripped ?T\<close> by simp
      qed
    qed
    then show ?thesis using fr by (simp add: trip_inv_def S')
  next
    case (Publishing c f)
    then have S': "S' = publish_record f S" "w' = Unleasing True c" using step by simp_all
    have c: "lease_valid (oc_lease c)" "oc_generation c \<le> ?n" "trackedGeneration ?T \<le> oc_generation c"
      "tf_generation f = oc_generation c"
      using ok(4) Publishing by (auto simp: pc_ok_def)
    have nz: "oc_generation c \<noteq> 0" using c(1) by (simp add: lease_valid_def)
    have "trip_ok w' ?n (activeGeneration (coordinator S)) (readyGeneration S) (publish f (terminalFailures S)) ?T"
    proof (rule trip_okI)
      assume t: "tripped ?T" "trackedGeneration ?T = ?n"
      then have "oc_generation c = ?n" using c(2,3) by auto
      moreover have "isTripped (oc_generation c) (publish f (terminalFailures S))"
        by (rule isTripped_publish_same [OF ok(1) nz c(4)])
      ultimately show "shut w' ?n (activeGeneration (coordinator S)) (readyGeneration S) (publish f (terminalFailures S))"
        using c(1) by (simp add: S' shut_def)
    qed (use ok c ring_matches_publish in \<open>auto simp: S' pc_ok_def\<close>)
    then show ?thesis by (simp add: trip_inv_def S' frame_simps) (simp add: publish_record_def)
  next
    case (Unleasing b c)
    let ?C = "release (env_got_lock E) (oc_lease c) (coordinator S)"
    have S': "S' = release_lease (env_got_lock E) (oc_lease c) S" "w' = Unreporting b c" using step Unleasing by simp_all
    have c: "lease_valid (oc_lease c)" using ok(4) Unleasing by (auto simp: pc_ok_def)
    have act: "activeGeneration ?C \<noteq> oc_generation c" "activeGeneration ?C = 0 \<or> activeGeneration ?C = activeGeneration (coordinator S)"
      using c by (auto simp: release_def Let_def lease_valid_def)
    have "trip_ok w' ?n (activeGeneration ?C) (readyGeneration S) (terminalFailures S) ?T"
    proof (rule trip_okI)
      assume t: "tripped ?T" "trackedGeneration ?T = ?n"
      then show "shut w' ?n (activeGeneration ?C) (readyGeneration S) (terminalFailures S)"
        using ok(3,5) act Unleasing by (auto simp: S' shut_def)
    qed (use ok Unleasing in \<open>auto simp: S' pc_ok_def\<close>)
    then show ?thesis
      by (simp add: trip_inv_def S' frame_simps) (simp add: release_lease_def release_generations)
  next
    case (Unreporting b c)
    then have S': "S' = end_rtcp (oc_generation c) S" "w' = Unreadying b c" using step by simp_all
    have "trip_ok w' ?n (activeGeneration (coordinator S)) (readyGeneration S) (terminalFailures S) ?T"
      using ok Unreporting by (intro trip_okI) (auto simp: S' pc_ok_def shut_def)
    then show ?thesis by (simp add: trip_inv_def S' frame_simps)
  next
    case (Unreadying b c)
    then have S': "S' = unready (oc_generation c) S" "w' = (if b then Purging c else Idle)" using step by simp_all
    have c: "oc_generation c \<noteq> 0" using ok(4) Unreadying by (auto simp: pc_ok_def lease_valid_def)
    have rdy: "readyGeneration S' \<noteq> oc_generation c" "readyGeneration S' = 0 \<or> readyGeneration S' = readyGeneration S"
      using c by (auto simp: S' unready_def)
    have "trip_ok w' ?n (activeGeneration (coordinator S)) (readyGeneration S') (terminalFailures S) ?T"
    proof (rule trip_okI)
      assume "tripped ?T" "trackedGeneration ?T = ?n"
      then show "shut w' ?n (activeGeneration (coordinator S)) (readyGeneration S') (terminalFailures S)"
        using ok(3,5) rdy Unreadying by (auto simp: S'(2) shut_def)
    qed (use ok Unreadying in \<open>auto simp: S'(2) pc_ok_def split: if_splits\<close>)
    then show ?thesis by (simp add: trip_inv_def S'(1) frame_simps)
  next
    case (Purging c)
    then show ?thesis using step by (intro move) (auto simp: frame_simps)
  next
    case (Finishing c)
    have S': "S' = S" "w' = (if oc_releaseAfterSend c then Unleasing False c else Idle)" using step Finishing by simp_all
    have "trip_ok w' ?n (activeGeneration (coordinator S)) (readyGeneration S) (terminalFailures S) ?T"
      using ok Finishing by (intro trip_okI) (auto simp: S' pc_ok_def shut_def split: if_splits)
    then show ?thesis by (simp add: trip_inv_def S')
  qed
qed

lemma trip_inv_reachable:
  assumes "rtp_reachable (new_rtp_server cfg rtcp sources clock silence) s"
  shows "trip_inv s \<and> owner_inv s"
  using assms
proof (rule rtp_invariant)
  show "trip_inv (new_rtp_server cfg rtcp sources clock silence, Idle)
      \<and> owner_inv (new_rtp_server cfg rtcp sources clock silence, Idle)"
    by (simp add: trip_inv_def trip_ok_def pc_ok_def owner_inv_def new_rtp_server_def new_coordinator_def
        new_tracker_def Let_def)
next
  fix s s' assume I: "trip_inv s \<and> owner_inv s" and step: "rtp_step s s'"
  have "trip_inv s'"
    using step
  proof cases
    case (worker E S w)
    then show ?thesis using trip_worker I by (cases s') auto
  next
    case (claim w S ow)
    then show ?thesis
      using trip_ok_claim [of w "nextGeneration (coordinator S)" "activeGeneration (coordinator S)"
          "readyGeneration S" "terminalFailures S" "failureTracker S" "nextGeneration (coordinator S) + 1"
          "nextGeneration (coordinator S) + 1"] I
        acquire_generation(1-3) [of "coordinator S" ow] acquire_generation(4) [of "coordinator S"]
      by (simp add: trip_inv_def frame_simps)
  next
    case (clear w S l)
    then show ?thesis using I trip_ok_others
      by (auto simp: trip_inv_def frame_simps) (auto simp: clear_stale_def)
  next
    case (unlease S w b l)
    then show ?thesis
      using I trip_ok_others [of w "nextGeneration (coordinator S)" "activeGeneration (coordinator S)"
          "readyGeneration S" "terminalFailures S" "failureTracker S"
          "activeGeneration (release b l (coordinator S))" "readyGeneration S"]
        release_generations [of b l "coordinator S"]
      by (simp add: trip_inv_def frame_simps) (simp add: release_lease_def)
  next
    case (unready S w g)
    then show ?thesis using I trip_ok_others
      by (auto simp: trip_inv_def frame_simps) (auto simp: unready_def)
  qed (use I in \<open>simp_all add: trip_inv_def frame_simps\<close>)
  then show "trip_inv s' \<and> owner_inv s'" using owner_inv_step I step by blast
qed


lemma worker_steps_reach: "worker_steps E n s = Some s' \<Longrightarrow> rtp_step\<^sup>*\<^sup>* s s'"
proof (induction n arbitrary: s)
  case (Suc n)
  obtain S w where s: "s = (S, w)" by fastforce
  show ?case
  proof (cases "w = Idle")
    case True
    then show ?thesis using Suc.prems s by simp
  next
    case False
    then obtain s1 where "worker_step E S w = Some s1" "worker_steps E n s1 = Some s'"
      using Suc.prems s by (auto split: option.splits)
    then show ?thesis using Suc.IH s rtp_step.worker converse_rtranclp_into_rtranclp by metis
  qed
qed simp

text \<open>A turn of the worker, undisturbed, is a run of the protocol.\<close>

lemma worker_turn_reach:
  assumes "worker_turn E S = Some S'" "list_all command_ok (q_items (outputQueue S))"
  shows "rtp_step\<^sup>*\<^sup>* (S, Idle) (S', Idle)"
proof -
  obtain c Q where pop: "waitPop (outputQueue S) = (Popped c, Q)"
    and S': "S' = processOutputCommand E c (S\<lparr>outputQueue := Q\<rparr>)"
    using assms(1) by (auto simp: worker_turn_def split: prod.splits pop_result.splits)
  have "command_ok c" using command_channel.all_pending_pop [OF assms(2) pop] by simp
  then obtain n where "worker_steps E n (S\<lparr>outputQueue := Q\<rparr>, Got c) = Some (S', Idle)"
    using steps_are_processOutputCommand S' by blast
  then have "rtp_step\<^sup>*\<^sup>* (S\<lparr>outputQueue := Q\<rparr>, Got c) (S', Idle)" by (rule worker_steps_reach)
  moreover have "rtp_step (S, Idle) (S\<lparr>outputQueue := Q\<rparr>, Got c)"
    by (rule rtp_step.worker) (simp add: pop)
  ultimately show ?thesis by (simp add: converse_rtranclp_into_rtranclp)
qed

section \<open>Witnesses\<close>

text \<open>A server whose breaker trips on the first failure, and a show that loses its network.\<close>

definition demo_config :: breaker_config where
  "demo_config = \<lparr>consecutiveFailuresToTrip = 1, windowedFailuresToTrip = 9, windowSeconds = 1, detailEmitInterval = 1\<rparr>"

definition demo_rtp_server :: rtp_server where
  "demo_rtp_server = new_rtp_server demo_config (demo_sender\<lparr>rs_ready := False\<rparr>) (replicate 17 0) 0
     (replicate 17 (replicate 4 [0]))"

definition demo_worker_env :: "int \<Rightarrow> worker_env" where
  "demo_worker_env result = \<lparr>env_push = (\<lambda>_. Returned result), env_ssrc_base = 100, env_ssrc_ok = (\<lambda>_. True),
     env_before = 0, env_wall = 0, env_after = 0, env_instant = 0, env_got_lock = True\<rparr>"

definition demo_lease :: rtp_lease where
  "demo_lease = \<lparr>lease_generation = 1, lease_ownerId = ''show''\<rparr>"

definition demo_command :: "output_command_type \<Rightarrow> output_command" where
  "demo_command t = \<lparr>oc_type = t, oc_lease = demo_lease, oc_buffer = None, oc_frameIndex = 0,
     oc_skippedFrames = 0, oc_releaseAfterSend = False, oc_trace = no_trace\<rparr>"

definition demo_acquired :: rtp_server where
  "demo_acquired = snd (acquireOutput ''show'' demo_rtp_server)"

definition demo_reset :: rtp_server where
  "demo_reset = processOutputCommand (demo_worker_env 0) (demo_command Reset) demo_acquired"

definition demo_tripped :: rtp_server where
  "demo_tripped = processOutputCommand (demo_worker_env 1) (demo_command SilentFrame) demo_reset"

definition demo_released :: rtp_server where
  "demo_released = releaseOutput True demo_lease
     (processOutputCommand (demo_worker_env 0) (demo_command SilentFrame) demo_reset)"

text \<open>A command that is accepted and taken by the worker at once.\<close>

lemma run_command_reach:
  assumes "command_ok c" "outputQueue S = new_queue 64" "outputQueue (processOutputCommand E c S) = new_queue 64"
  shows "rtp_step\<^sup>*\<^sup>* (S, Idle) (processOutputCommand E c S, Idle)"
proof -
  obtain n where n: "worker_steps E n (S, Got c) = Some (processOutputCommand E c S, Idle)"
    using steps_are_processOutputCommand [OF assms(1)] by blast
  have push: "snd (push_command c S) = S\<lparr>outputQueue := (new_queue 64)\<lparr>q_items := [c]\<rparr>\<rparr>"
    using assms(2) by (simp add: push_command_def tryPush_def new_queue_def)
  have "S\<lparr>outputQueue := new_queue 64\<rparr> = S" using assms(2) by simp
  then have "worker_step E (snd (push_command c S)) Idle = Some (S, Got c)"
    by (simp add: push waitPop_def) (simp add: new_queue_def)
  then have "rtp_step (snd (push_command c S), Idle) (S, Got c)" by (rule rtp_step.worker)
  then show ?thesis
    using rtp_step.push [of S Idle c] worker_steps_reach [OF n]
    by (meson converse_rtranclp_into_rtranclp)
qed

lemma demo_queues:
  "outputQueue demo_acquired = new_queue 64" "outputQueue demo_reset = new_queue 64"
  "outputQueue demo_tripped = new_queue 64"
  "outputQueue (processOutputCommand (demo_worker_env 0) (demo_command SilentFrame) demo_reset) = new_queue 64"
  by code_simp+

lemma demo_reach:
  "rtp_reachable demo_rtp_server (demo_reset, Idle)" "rtp_reachable demo_rtp_server (demo_tripped, Idle)"
  "rtp_reachable demo_rtp_server (demo_released, Idle)"
proof -
  have ok: "command_ok (demo_command t)" for t by (simp add: command_ok_def demo_command_def)
  have "0 < generations_left (coordinator demo_rtp_server)"
    by (simp add: demo_rtp_server_def new_rtp_server_def new_coordinator_def generations_left_pos)
  then have "rtp_reachable demo_rtp_server (demo_acquired, Idle)"
    unfolding demo_acquired_def by (intro acquireOutput_steps) simp_all
  then show r: "rtp_reachable demo_rtp_server (demo_reset, Idle)"
    using run_command_reach [OF ok demo_queues(1), of "demo_worker_env 0" Reset] demo_queues(2)
    unfolding demo_reset_def by (meson rtranclp_trans)
  show "rtp_reachable demo_rtp_server (demo_tripped, Idle)"
    using rtranclp_trans [OF r run_command_reach [OF ok demo_queues(2), of "demo_worker_env 1" SilentFrame]]
      demo_queues(3)
    unfolding demo_tripped_def by blast
  show "rtp_reachable demo_rtp_server (demo_released, Idle)"
    using rtranclp_trans [OF rtranclp_trans [OF r run_command_reach [OF ok demo_queues(2,4)]] releaseOutput_steps]
    unfolding demo_released_def by blast
qed


theorem lost_output_stays_silent_witness:
  "packets_of 1 (processOutputCommand (demo_worker_env 0) (demo_command SilentFrame) demo_released, Idle)
     = packets_of 1 (demo_released, Idle)
   \<and> length (packets_of 1 (demo_released, Idle)) = 17"
proof -
  have q: "outputQueue demo_released = new_queue 64"
    "outputQueue (processOutputCommand (demo_worker_env 0) (demo_command SilentFrame) demo_released) = new_queue 64"
    by code_simp+
  have lost: "lease_issued demo_lease (coordinator demo_released)" "lease_valid demo_lease"
    "\<not> isCurrent demo_lease (coordinator demo_released)"
    by code_simp+
  have "command_ok (demo_command SilentFrame)" by (simp add: command_ok_def demo_command_def)
  note run = run_command_reach [OF this q]
  have "packets_of (lease_generation demo_lease)
      (processOutputCommand (demo_worker_env 0) (demo_command SilentFrame) demo_released, Idle)
     = packets_of (lease_generation demo_lease) (demo_released, Idle)"
    by (rule conjunct1 [OF lost_output_stays_silent [OF demo_reach(3) [unfolded demo_rtp_server_def] _ lost(2) _ _ run]])
       (use lost in \<open>simp_all only: fst_conv snd_conv holding.simps option.distinct HOL.simp_thms\<close>)
  then have "packets_of 1 (processOutputCommand (demo_worker_env 0) (demo_command SilentFrame) demo_released, Idle)
     = packets_of 1 (demo_released, Idle)"
    by (simp only: demo_lease_def rtp_lease.simps)
  moreover have "length (packets_of 1 (demo_released, Idle)) = 17" by code_simp
  ultimately show ?thesis by blast
qed

end
