(* ===== verification/Fixture_Model.thy ===== *)
theory Fixture_Model
  imports Prelude
begin

text \<open>
  DMX fixtures (src/src/model/DmxFixture.h and DmxFixture.cpp): the structs, the type names,
  the two lookups, and the conversions to and from the transfer objects. The fields of an
  oatpp transfer object are nullable, so they are options; reading a null required field
  throws, which is the result \<open>None\<close> of the conversion.
\<close>

section \<open>The model\<close>

datatype fixture_type = Light | SmokeMachine | Fogger | Generic

record fixture_channel =
  ch_offset :: u16
  ch_name :: string
  ch_kind :: string

record fixture_pattern_value =
  pv_channel :: string
  pv_value :: u8

record fixture_pattern =
  pat_id :: string
  pat_name :: string
  pat_values :: "fixture_pattern_value list"
  fade_in_ms :: u32
  fade_out_ms :: u32
  hold_ms :: u32

record fixture_binding =
  bind_creature_id :: string
  on_reason :: "string option"
  on_state :: "string option"
  bind_pattern_id :: string

record dmx_fixture =
  fx_id :: fixtureId_t
  fixture_name :: string
  fixture_kind :: fixture_type
  fixture_channel_offset :: u16
  assigned_universe :: "universe_t option"
  channels :: "fixture_channel list"
  patterns :: "fixture_pattern list"
  bindings :: "fixture_binding list"

definition fixtureTypeToString :: "fixture_type \<Rightarrow> string" where
  "fixtureTypeToString t = (case t of
     Light \<Rightarrow> ''light''
   | SmokeMachine \<Rightarrow> ''smoke_machine''
   | Fogger \<Rightarrow> ''fogger''
   | Generic \<Rightarrow> ''generic'')"

definition fixtureTypeFromString :: "string \<Rightarrow> fixture_type" where
  "fixtureTypeFromString s =
     (if s = ''light'' then Light
      else if s = ''smoke_machine'' then SmokeMachine
      else if s = ''fogger'' then Fogger
      else if s = ''generic'' then Generic
      else Generic)"

lemma fixtureType_roundtrip [simp]: "fixtureTypeFromString (fixtureTypeToString t) = t"
  by (cases t) (simp_all add: fixtureTypeToString_def fixtureTypeFromString_def)

definition findChannelByName :: "dmx_fixture \<Rightarrow> string \<Rightarrow> fixture_channel option" where
  "findChannelByName f n = find (\<lambda>ch. ch_name ch = n) (channels f)"

definition findPatternById :: "dmx_fixture \<Rightarrow> string \<Rightarrow> fixture_pattern option" where
  "findPatternById f i = find (\<lambda>p. pat_id p = i) (patterns f)"

lemma findChannelByName_Some: "findChannelByName f n = Some ch \<Longrightarrow> ch \<in> set (channels f) \<and> ch_name ch = n"
  by (auto simp: findChannelByName_def find_Some_iff)

lemma findPatternById_Some: "findPatternById f i = Some p \<Longrightarrow> p \<in> set (patterns f) \<and> pat_id p = i"
  by (auto simp: findPatternById_def find_Some_iff)

lemma findChannelByName_None: "findChannelByName f n = None \<longleftrightarrow> n \<notin> ch_name ` set (channels f)"
  by (auto simp: findChannelByName_def find_None_iff)

section \<open>Transfer objects\<close>

record fixture_channel_dto =
  dto_ch_offset :: "u16 option"
  dto_ch_name :: "string option"
  dto_ch_kind :: "string option"

record fixture_pattern_value_dto =
  dto_pv_channel :: "string option"
  dto_pv_value :: "u8 option"

record fixture_pattern_dto =
  dto_pat_id :: "string option"
  dto_pat_name :: "string option"
  dto_pat_values :: "fixture_pattern_value_dto option list option"
  dto_fade_in_ms :: "u32 option"
  dto_fade_out_ms :: "u32 option"
  dto_hold_ms :: "u32 option"

record fixture_binding_dto =
  dto_creature_id :: "string option"
  dto_on_reason :: "string option"
  dto_on_state :: "string option"
  dto_pattern_id :: "string option"

record dmx_fixture_dto =
  dto_id :: "string option"
  dto_name :: "string option"
  dto_type :: "string option"
  dto_channel_offset :: "u16 option"
  dto_assigned_universe :: "u32 option"
  dto_channels :: "fixture_channel_dto option list option"
  dto_patterns :: "fixture_pattern_dto option list option"
  dto_bindings :: "fixture_binding_dto option list option"

text \<open>A loop over a nullable list that skips null elements and stops at the first exception.\<close>

definition each_dto :: "('d \<Rightarrow> 'a option) \<Rightarrow> 'd option list option \<Rightarrow> 'a list option" where
  "each_dto f ds = (case ds of
     None \<Rightarrow> Some []
   | Some l \<Rightarrow> those (map f (List.map_filter id l)))"

definition or_zero :: "'a :: zero option \<Rightarrow> 'a" where
  "or_zero x = (case x of None \<Rightarrow> 0 | Some v \<Rightarrow> v)"

definition channel_from_dto :: "fixture_channel_dto \<Rightarrow> fixture_channel option" where
  "channel_from_dto d = Option.bind (dto_ch_offset d) (\<lambda>off. Option.bind (dto_ch_name d) (\<lambda>n.
     Some \<lparr>ch_offset = off, ch_name = n,
       ch_kind = (case dto_ch_kind d of None \<Rightarrow> ''generic'' | Some k \<Rightarrow> k)\<rparr>))"

definition value_from_dto :: "fixture_pattern_value_dto \<Rightarrow> fixture_pattern_value option" where
  "value_from_dto d = Option.bind (dto_pv_channel d) (\<lambda>c. Option.bind (dto_pv_value d) (\<lambda>v.
     Some \<lparr>pv_channel = c, pv_value = v\<rparr>))"

definition pattern_from_dto :: "fixture_pattern_dto \<Rightarrow> fixture_pattern option" where
  "pattern_from_dto d = Option.bind (dto_pat_id d) (\<lambda>i. Option.bind (dto_pat_name d) (\<lambda>n.
     Option.bind (each_dto value_from_dto (dto_pat_values d)) (\<lambda>vs.
     Some \<lparr>pat_id = i, pat_name = n, pat_values = vs, fade_in_ms = or_zero (dto_fade_in_ms d),
       fade_out_ms = or_zero (dto_fade_out_ms d), hold_ms = or_zero (dto_hold_ms d)\<rparr>)))"

definition binding_from_dto :: "fixture_binding_dto \<Rightarrow> fixture_binding option" where
  "binding_from_dto d = Option.bind (dto_creature_id d) (\<lambda>c. Option.bind (dto_pattern_id d) (\<lambda>p.
     Some \<lparr>bind_creature_id = c, on_reason = dto_on_reason d, on_state = dto_on_state d,
       bind_pattern_id = p\<rparr>))"

definition convertFromDto :: "dmx_fixture_dto \<Rightarrow> dmx_fixture option" where
  "convertFromDto d = Option.bind (dto_id d) (\<lambda>i. Option.bind (dto_name d) (\<lambda>n.
     Option.bind (dto_type d) (\<lambda>t. Option.bind (dto_channel_offset d) (\<lambda>off.
     Option.bind (each_dto channel_from_dto (dto_channels d)) (\<lambda>chs.
     Option.bind (each_dto pattern_from_dto (dto_patterns d)) (\<lambda>ps.
     Option.bind (each_dto binding_from_dto (dto_bindings d)) (\<lambda>bs.
     Some \<lparr>fx_id = i, fixture_name = n, fixture_kind = fixtureTypeFromString t,
       fixture_channel_offset = off, assigned_universe = dto_assigned_universe d,
       channels = chs, patterns = ps, bindings = bs\<rparr>)))))))"

definition channel_to_dto :: "fixture_channel \<Rightarrow> fixture_channel_dto" where
  "channel_to_dto ch = \<lparr>dto_ch_offset = Some (ch_offset ch), dto_ch_name = Some (ch_name ch),
     dto_ch_kind = Some (ch_kind ch)\<rparr>"

definition value_to_dto :: "fixture_pattern_value \<Rightarrow> fixture_pattern_value_dto" where
  "value_to_dto v = \<lparr>dto_pv_channel = Some (pv_channel v), dto_pv_value = Some (pv_value v)\<rparr>"

definition pattern_to_dto :: "fixture_pattern \<Rightarrow> fixture_pattern_dto" where
  "pattern_to_dto p = \<lparr>dto_pat_id = Some (pat_id p), dto_pat_name = Some (pat_name p),
     dto_pat_values = Some (map (Some \<circ> value_to_dto) (pat_values p)),
     dto_fade_in_ms = Some (fade_in_ms p), dto_fade_out_ms = Some (fade_out_ms p),
     dto_hold_ms = Some (hold_ms p)\<rparr>"

definition binding_to_dto :: "fixture_binding \<Rightarrow> fixture_binding_dto" where
  "binding_to_dto b = \<lparr>dto_creature_id = Some (bind_creature_id b), dto_on_reason = on_reason b,
     dto_on_state = on_state b, dto_pattern_id = Some (bind_pattern_id b)\<rparr>"

definition convertToDto :: "dmx_fixture \<Rightarrow> dmx_fixture_dto" where
  "convertToDto f = \<lparr>dto_id = Some (fx_id f), dto_name = Some (fixture_name f),
     dto_type = Some (fixtureTypeToString (fixture_kind f)),
     dto_channel_offset = Some (fixture_channel_offset f),
     dto_assigned_universe = assigned_universe f,
     dto_channels = Some (map (Some \<circ> channel_to_dto) (channels f)),
     dto_patterns = (if patterns f = [] then None else Some (map (Some \<circ> pattern_to_dto) (patterns f))),
     dto_bindings = (if bindings f = [] then None else Some (map (Some \<circ> binding_to_dto) (bindings f)))\<rparr>"

lemma each_dto_None [simp]: "each_dto f None = Some []"
  by (simp add: each_dto_def)

lemma each_dto_roundtrip:
  assumes "\<And>x. f (g x) = Some x"
  shows "each_dto f (Some (map (Some \<circ> g) xs)) = Some xs"
  using assms by (induction xs) (simp_all add: each_dto_def map_filter_simps)

lemma channel_dto_roundtrip: "channel_from_dto (channel_to_dto ch) = Some ch"
  by (simp add: channel_from_dto_def channel_to_dto_def)

lemma value_dto_roundtrip: "value_from_dto (value_to_dto v) = Some v"
  by (simp add: value_from_dto_def value_to_dto_def)

lemma pattern_dto_roundtrip: "pattern_from_dto (pattern_to_dto p) = Some p"
  by (simp add: pattern_from_dto_def pattern_to_dto_def each_dto_roundtrip value_dto_roundtrip or_zero_def)

lemma binding_dto_roundtrip: "binding_from_dto (binding_to_dto b) = Some b"
  by (simp add: binding_from_dto_def binding_to_dto_def)

text \<open>
  a fixture survives the transfer format. Converting any fixture to its transfer object
  and back never throws and gives the same fixture: every field, the optional universe and
  binding filters, and the order of channels, patterns, values and bindings.
\<close>

theorem fixture_dto_roundtrip: "convertFromDto (convertToDto f) = Some f"
  by (cases "patterns f = []"; cases "bindings f = []")
    (simp_all add: convertFromDto_def convertToDto_def each_dto_roundtrip channel_dto_roundtrip
      pattern_dto_roundtrip binding_dto_roundtrip del: map_map)

end
