(* ===== verification/Animation_Data.thy ===== *)
theory Animation_Data
  imports Prelude
begin

text \<open>
  The animation values of src/src/model (Animation.h, Track.h, AnimationMetadata.h,
  PlaylistStatus.h) and the activity enumerations of src/src/server/runtime/Activity.h.
  Of the metadata only the fields the playback code reads are kept.
\<close>

section \<open>Animations\<close>

record track =
  track_id :: string
  creature_id :: creatureId_t
  fixture_id :: fixtureId_t
  track_animation_id :: string
  frames :: "string list"

record animation_metadata =
  metadata_animation_id :: string
  title :: string
  milliseconds_per_frame :: u32
  sound_file :: string
  number_of_frames :: u32

record animation =
  anim_id :: string
  metadata :: animation_metadata
  tracks :: "track list"

record playlist_status =
  ps_universe :: universe_t
  playlist :: string
  playing :: bool
  current_animation :: string

section \<open>Activity\<close>

datatype activity_state = Running | Idle | Disabled | Stopped

datatype activity_reason =
  Play | Playlist | AdHoc | ReasonIdle | ReasonDisabled | Cancelled | Streaming

definition state_toString :: "activity_state \<Rightarrow> string" where
  "state_toString s = (case s of
     Running \<Rightarrow> ''running''
   | Idle \<Rightarrow> ''idle''
   | Disabled \<Rightarrow> ''disabled''
   | Stopped \<Rightarrow> ''stopped'')"

definition reason_toString :: "activity_reason \<Rightarrow> string" where
  "reason_toString r = (case r of
     Play \<Rightarrow> ''play''
   | Playlist \<Rightarrow> ''playlist''
   | AdHoc \<Rightarrow> ''ad_hoc''
   | ReasonIdle \<Rightarrow> ''idle''
   | ReasonDisabled \<Rightarrow> ''disabled''
   | Cancelled \<Rightarrow> ''cancelled''
   | Streaming \<Rightarrow> ''streaming'')"

lemma state_toString_inj [simp]: "state_toString s = state_toString s' \<longleftrightarrow> s = s'"
  by (cases s; cases s') (simp_all add: state_toString_def)

lemma reason_toString_inj [simp]: "reason_toString r = reason_toString r' \<longleftrightarrow> r = r'"
  by (cases r; cases r') (simp_all add: reason_toString_def)

text \<open>\<open>animationTargetsSingleCreature\<close> of src/src/server/ws/service/CreatureService.cpp.\<close>

fun all_tracks_target :: "creatureId_t \<Rightarrow> track list \<Rightarrow> bool" where
  "all_tracks_target c [] \<longleftrightarrow> True"
| "all_tracks_target c (t # ts) \<longleftrightarrow> (if creature_id t \<noteq> c then False else all_tracks_target c ts)"

definition animationTargetsSingleCreature :: "animation \<Rightarrow> creatureId_t \<Rightarrow> bool" where
  "animationTargetsSingleCreature a c = (if tracks a = [] then False else all_tracks_target c (tracks a))"

lemma all_tracks_target_iff: "all_tracks_target c ts \<longleftrightarrow> (\<forall>t \<in> set ts. creature_id t = c)"
  by (induction ts) auto

end
