(* ===== verification/Playback_Session.thy ===== *)
theory Playback_Session
  imports Animation_Data
begin

text \<open>
  \<open>PlaybackSession\<close> and \<open>TrackState\<close> (src/src/server/animation/PlaybackSession.h and .cpp): what
  the constructor snapshots and decodes, the lifecycle flags, and the audio transport the
  session holds. Sessions are shared by pointer: a session lives in a heap (a list, the
  address its index) and every holder keeps the address. The Base64 decoder is a library:
  the argument \<open>decode\<close>, \<open>None\<close> when it throws. Spans and the callbacks themselves are not
  kept; what onFinish does is an argument of the runner (Playback_Runner).
\<close>

section \<open>Tracks\<close>

record track_state =
  creatureId :: creatureId_t
  fixtureId :: fixtureId_t
  decodedFrames :: "u8 list list"
  currentFrameIndex :: u32
  nextDispatchFrame :: framenum_t

definition track_isFinished :: "track_state \<Rightarrow> bool" where
  "track_isFinished t \<longleftrightarrow> unat (currentFrameIndex t) \<ge> length (decodedFrames t)"

definition getTotalFrames :: "track_state \<Rightarrow> u32" where
  "getTotalFrames t = word_of_nat (length (decodedFrames t))"

definition isFixtureTrack :: "track_state \<Rightarrow> bool" where
  "isFixtureTrack t \<longleftrightarrow> fixtureId t \<noteq> []"

section \<open>Sessions\<close>

record 't session =
  s_animation :: animation
  s_universe :: universe_t
  startingFrame :: framenum_t
  sessionId :: string
  activityGeneration :: u64
  trackStates :: "track_state list"
  creatureIds :: "creatureId_t list"
  fixtureIds :: "fixtureId_t list"
  audioTransport :: "'t option"
  cancelled :: bool
  hasStarted :: bool
  hasFinished :: bool
  activityReason :: activity_reason
  cancellationNotified :: bool

text \<open>The first loop of the constructor: the ids, deduped, empties removed, in track order.\<close>

definition push_new :: "string \<Rightarrow> string list \<Rightarrow> string list" where
  "push_new x xs = (if x \<noteq> [] \<and> x \<notin> set xs then xs @ [x] else xs)"

definition collect_ids :: "(track \<Rightarrow> string) \<Rightarrow> track list \<Rightarrow> string list" where
  "collect_ids f ts = foldl (\<lambda>ids t. push_new (f t) ids) [] ts"

text \<open>The decode loop: a frame that does not decode abandons its track and all later ones.\<close>

fun decode_frames :: "(string \<Rightarrow> u8 list option) \<Rightarrow> string list \<Rightarrow> u8 list list option" where
  "decode_frames decode [] = Some []"
| "decode_frames decode (f # fs) = (case decode f of
     None \<Rightarrow> None
   | Some d \<Rightarrow> (case decode_frames decode fs of None \<Rightarrow> None | Some ds \<Rightarrow> Some (d # ds)))"

fun decode_tracks ::
  "(string \<Rightarrow> u8 list option) \<Rightarrow> framenum_t \<Rightarrow> track list \<Rightarrow> track_state list \<times> bool"
where
  "decode_tracks decode start [] = ([], False)"
| "decode_tracks decode start (t # ts) = (case decode_frames decode (frames t) of
     None \<Rightarrow> ([], True)
   | Some ds \<Rightarrow> (let (rest, failed) = decode_tracks decode start ts in
       (\<lparr>creatureId = creature_id t, fixtureId = fixture_id t, decodedFrames = ds,
         currentFrameIndex = 0, nextDispatchFrame = start\<rparr> # rest, failed)))"

definition new_session ::
  "(string \<Rightarrow> u8 list option) \<Rightarrow> string \<Rightarrow> animation \<Rightarrow> universe_t \<Rightarrow> framenum_t \<Rightarrow> 't session"
where
  "new_session decode uuid anim u start =
     (let (ts, decodeFailed) = decode_tracks decode start (tracks anim) in
      \<lparr>s_animation = anim, s_universe = u, startingFrame = start, sessionId = uuid,
       activityGeneration = 0, trackStates = ts,
       creatureIds = collect_ids creature_id (tracks anim),
       fixtureIds = collect_ids fixture_id (tracks anim),
       audioTransport = None, cancelled = decodeFailed, hasStarted = False, hasFinished = False,
       activityReason = Play, cancellationNotified = False\<rparr>)"

definition cancel :: "'t session \<Rightarrow> 't session" where
  "cancel s = s\<lparr>cancelled := True\<rparr>"

definition markCancellationNotified :: "'t session \<Rightarrow> 't session" where
  "markCancellationNotified s = s\<lparr>cancellationNotified := True\<rparr>"

definition setStartingFrame :: "framenum_t \<Rightarrow> 't session \<Rightarrow> 't session" where
  "setStartingFrame f s = s\<lparr>startingFrame := f,
     trackStates := map (\<lambda>t. t\<lparr>nextDispatchFrame := f\<rparr>) (trackStates s)\<rparr>"

definition setActivityReason :: "activity_reason \<Rightarrow> 't session \<Rightarrow> 't session" where
  "setActivityReason r s = s\<lparr>activityReason := r\<rparr>"

definition setAudioTransport :: "'t \<Rightarrow> 't session \<Rightarrow> 't session" where
  "setAudioTransport t s = s\<lparr>audioTransport := Some t\<rparr>"

definition setActivityGeneration :: "u64 \<Rightarrow> 't session \<Rightarrow> 't session" where
  "setActivityGeneration g s = s\<lparr>activityGeneration := g\<rparr>"

text \<open>\<open>markFinished\<close> and \<open>invokeOnStart\<close> are atomic exchanges: true for the first caller only.\<close>

definition markFinished :: "'t session \<Rightarrow> bool \<times> 't session" where
  "markFinished s = (\<not> hasFinished s, s\<lparr>hasFinished := True\<rparr>)"

definition invokeOnStart :: "'t session \<Rightarrow> bool \<times> 't session" where
  "invokeOnStart s = (\<not> hasStarted s, s\<lparr>hasStarted := True\<rparr>)"

definition getMsPerFrame :: "'t session \<Rightarrow> u32" where
  "getMsPerFrame s = milliseconds_per_frame (metadata (s_animation s))"

lemmas session_op_defs = cancel_def markCancellationNotified_def setStartingFrame_def
  setActivityReason_def setAudioTransport_def setActivityGeneration_def markFinished_def
  invokeOnStart_def

section \<open>Construction\<close>

lemma collect_ids_snoc: "collect_ids f (ts @ [t]) = push_new (f t) (collect_ids f ts)"
  by (simp add: collect_ids_def)

lemma set_collect_ids: "set (collect_ids f ts) = {f t |t. t \<in> set ts \<and> f t \<noteq> []}"
proof (induction ts rule: rev_induct)
  case (snoc t ts)
  then show ?case by (auto simp: collect_ids_snoc push_new_def)
qed (simp add: collect_ids_def)

lemma distinct_collect_ids: "distinct (collect_ids f ts)"
proof (induction ts rule: rev_induct)
  case (snoc t ts)
  then show ?case by (simp add: collect_ids_snoc push_new_def)
qed (simp add: collect_ids_def)

lemma decode_frames_Some_iff:
  "decode_frames decode fs = Some ds \<longleftrightarrow> map decode fs = map Some ds"
proof (induction fs arbitrary: ds)
  case (Cons f fs)
  have "decode_frames decode fs = None \<Longrightarrow> map decode fs \<noteq> map Some ds'" for ds'
    using Cons.IH [of ds'] by simp
  then show ?case using Cons.IH by (cases ds) (auto split: option.splits)
qed auto

lemma decode_tracks_ok:
  "decode_tracks decode start ts = (ss, False) \<Longrightarrow>
   length ss = length ts \<and>
   (\<forall>i < length ts. creatureId (ss ! i) = creature_id (ts ! i) \<and> fixtureId (ss ! i) = fixture_id (ts ! i) \<and>
      map decode (frames (ts ! i)) = map Some (decodedFrames (ss ! i)) \<and>
      currentFrameIndex (ss ! i) = 0 \<and> nextDispatchFrame (ss ! i) = start)"
proof (induction ts arbitrary: ss)
  case (Cons t ts)
  then obtain ds ss' where "decode_frames decode (frames t) = Some ds"
      "decode_tracks decode start ts = (ss', False)"
      "ss = \<lparr>creatureId = creature_id t, fixtureId = fixture_id t, decodedFrames = ds,
         currentFrameIndex = 0, nextDispatchFrame = start\<rparr> # ss'"
    by (auto split: option.splits prod.splits)
  with Cons.IH [of ss'] show ?case by (auto simp: decode_frames_Some_iff nth_Cons split: nat.splits)
qed simp

lemma decode_tracks_failed:
  "snd (decode_tracks decode start ts) \<longleftrightarrow> (\<exists>t \<in> set ts. \<exists>f \<in> set (frames t). decode f = None)"
proof (induction ts)
  case (Cons t ts)
  have "decode_frames decode fs = None \<longleftrightarrow> (\<exists>f \<in> set fs. decode f = None)" for fs
    by (induction fs) (auto split: option.splits)
  from this [of "frames t"] show ?case
    using Cons by (cases "decode_frames decode (frames t)") (auto simp del: not_None_eq split: prod.splits)
qed simp

text \<open>
  what a new session holds. It drives exactly the non-empty creature and fixture ids of
  its tracks, each once; it is born cancelled exactly when some frame does not decode; and
  otherwise every track holds all its frames decoded, in order, waiting at the start frame.
\<close>

theorem new_session_correct:
  fixes decode :: "string \<Rightarrow> u8 list option" and anim :: animation
    and uuid :: string and u :: universe_t and start :: framenum_t
  defines "s \<equiv> new_session decode uuid anim u start :: 't session"
  shows "distinct (creatureIds s) \<and> set (creatureIds s) = creature_id ` set (tracks anim) - {[]} \<and>
    distinct (fixtureIds s) \<and> set (fixtureIds s) = fixture_id ` set (tracks anim) - {[]} \<and>
    (cancelled s \<longleftrightarrow> (\<exists>t \<in> set (tracks anim). \<exists>f \<in> set (frames t). decode f = None)) \<and>
    (\<not> cancelled s \<longrightarrow> length (trackStates s) = length (tracks anim) \<and>
      (\<forall>i < length (tracks anim). map decode (frames (tracks anim ! i)) = map Some (decodedFrames (trackStates s ! i)) \<and>
         currentFrameIndex (trackStates s ! i) = 0 \<and> nextDispatchFrame (trackStates s ! i) = start))"
proof -
  obtain ss failed where d: "decode_tracks decode start (tracks anim) = (ss, failed)" by fastforce
  then have f: "failed \<longleftrightarrow> (\<exists>t \<in> set (tracks anim). \<exists>f \<in> set (frames t). decode f = None)"
    using decode_tracks_failed [of decode start "tracks anim"] by simp
  have "\<not> failed \<Longrightarrow> length ss = length (tracks anim) \<and> (\<forall>i < length (tracks anim).
      map decode (frames (tracks anim ! i)) = map Some (decodedFrames (ss ! i)) \<and>
      currentFrameIndex (ss ! i) = 0 \<and> nextDispatchFrame (ss ! i) = start)"
    using decode_tracks_ok [of decode start "tracks anim" ss] d by auto
  then show ?thesis
    unfolding s_def new_session_def d Let_def prod.case
    by (auto simp: distinct_collect_ids set_collect_ids f)
qed

definition demo_animation :: "string list \<Rightarrow> animation" where
  "demo_animation fs = \<lparr>anim_id = ''a'', metadata = \<lparr>metadata_animation_id = ''a'', title = ''t'',
      milliseconds_per_frame = 20, sound_file = [], number_of_frames = 2\<rparr>,
     tracks = [\<lparr>track_id = ''t'', creature_id = ''beaky'', fixture_id = [], track_animation_id = ''a'',
       frames = fs\<rparr>]\<rparr>"

theorem new_session_correct_witness:
  "set (creatureIds (new_session (\<lambda>f. Some [1]) ''s'' (demo_animation [''x'']) 1 7 :: unit session)) = {''beaky''} \<and>
   nextDispatchFrame (trackStates (new_session (\<lambda>f. Some [1]) ''s'' (demo_animation [''x'']) 1 7 :: unit session) ! 0) = 7"
proof -
  let ?s = "new_session (\<lambda>f. Some [1]) ''s'' (demo_animation [''x'']) 1 7 :: unit session"
  have c: "cancelled ?s \<longleftrightarrow> False" and ids: "set (creatureIds ?s) = {''beaky''}"
    using new_session_correct [where decode = "\<lambda>f. Some [1]" and uuid = "''s''" and u = 1 and start = 7
        and anim = "demo_animation [''x'']" and 't = unit]
    by (auto simp: demo_animation_def)
  then show ?thesis
    using new_session_correct [where decode = "\<lambda>f. Some [1]" and uuid = "''s''" and u = 1 and start = 7
        and anim = "demo_animation [''x'']" and 't = unit]
    by (simp add: demo_animation_def)
qed

end
