(* ===== verification/Activity.thy ===== *)
theory Activity
  imports Animation_Data
begin

text \<open>
  The creature runtime store of src/src/server/ws/service/CreatureService.cpp: the
  per-creature runtime object (created on demand), the generation guard and the
  session-ownership guard on activity writes (issues 62 and 87), the live-streaming
  registry, and the idle toggle. A write broadcasts and calls the fixture hook: both are
  recorded, in order, in the logs of the state. Time, fresh UUIDs and the database lookup of
  a creature's name are fields of the environment.
\<close>

section \<open>State\<close>

record counters =
  sessions_started_total :: u64
  sessions_cancelled_total :: u64
  idle_started_total :: u64
  idle_stopped_total :: u64
  idle_toggles_total :: u64
  skips_missing_creature_total :: u64
  bgm_takeovers_total :: u64
  audio_resets_total :: u64

record activity =
  act_state :: string
  act_animation_id :: "string option"
  act_session_id :: "string option"
  act_reason :: string
  act_started_at :: string
  act_updated_at :: string

record runtime =
  idle_enabled :: "bool option"
  rt_activity :: "activity option"
  rt_counters :: "counters option"
  bgm_owner :: "string option"
  last_error :: "string option"

datatype ws_message =
    ActivityMessage creatureId_t string string "string option" "string option" string string
  | IdleStateMessage creatureId_t bool string
  | PlaylistMessage playlist_status

record service =
  runtimeState :: "(creatureId_t \<times> runtime) list"
  creatureNameCache :: "(creatureId_t \<times> string) list"
  lastActivityGenerationByCreature :: "(creatureId_t \<times> u64) list"
  lastIdleAnimationByCreature :: "(creatureId_t \<times> string) list"
  streamingRegistry :: "creatureId_t list"
  websocketOutgoing :: "ws_message list option"
  hook_calls :: "(creatureId_t \<times> activity_reason \<times> activity_state) list option"

record service_env =
  env_now :: string
  env_uuid :: string
  env_creature_name :: "(creatureId_t \<Rightarrow> string result) option"

section \<open>Defaults\<close>

definition makeDefaultCounters :: counters where
  "makeDefaultCounters = \<lparr>sessions_started_total = 0, sessions_cancelled_total = 0,
     idle_started_total = 0, idle_stopped_total = 0, idle_toggles_total = 0,
     skips_missing_creature_total = 0, bgm_takeovers_total = 0, audio_resets_total = 0\<rparr>"

definition makeDefaultActivity :: "string \<Rightarrow> activity" where
  "makeDefaultActivity now = \<lparr>act_state = ''stopped'', act_animation_id = None,
     act_session_id = None, act_reason = ''disabled'', act_started_at = now, act_updated_at = now\<rparr>"

definition makeDefaultRuntime :: "string \<Rightarrow> runtime" where
  "makeDefaultRuntime now = \<lparr>idle_enabled = Some True,
     rt_activity = Some (makeDefaultActivity now), rt_counters = Some makeDefaultCounters,
     bgm_owner = None, last_error = None\<rparr>"

definition getOrCreateRuntime :: "string \<Rightarrow> creatureId_t \<Rightarrow> service \<Rightarrow> runtime \<times> service" where
  "getOrCreateRuntime now c S = (case map_of (runtimeState S) c of
     Some rt \<Rightarrow> (rt, S)
   | None \<Rightarrow>
       (makeDefaultRuntime now,
        S\<lparr>runtimeState := AList.update c (makeDefaultRuntime now) (runtimeState S)\<rparr>))"

text \<open>The runtime is shared: writing a field of it writes the entry of the map.\<close>

definition put_runtime :: "creatureId_t \<Rightarrow> runtime \<Rightarrow> service \<Rightarrow> service" where
  "put_runtime c rt S = S\<lparr>runtimeState := AList.update c rt (runtimeState S)\<rparr>"

definition getLastIdleAnimationId :: "service \<Rightarrow> creatureId_t \<Rightarrow> string option" where
  "getLastIdleAnimationId S c = map_of (lastIdleAnimationByCreature S) c"

definition setLastIdleAnimationId :: "creatureId_t \<Rightarrow> string \<Rightarrow> service \<Rightarrow> service" where
  "setLastIdleAnimationId c a S =
     (if a = [] then S\<lparr>lastIdleAnimationByCreature := AList.delete c (lastIdleAnimationByCreature S)\<rparr>
      else S\<lparr>lastIdleAnimationByCreature := AList.update c a (lastIdleAnimationByCreature S)\<rparr>)"

definition resolveCreatureName :: "service_env \<Rightarrow> creatureId_t \<Rightarrow> service \<Rightarrow> string \<times> service" where
  "resolveCreatureName env c S = (case map_of (creatureNameCache S) c of
     Some n \<Rightarrow> (n, S)
   | None \<Rightarrow> (case env_creature_name env of
        None \<Rightarrow> (c, S)
      | Some db \<Rightarrow> (case db c of
           Inl _ \<Rightarrow> (c, S)
         | Inr n \<Rightarrow> (n, S\<lparr>creatureNameCache := AList.update c n (creatureNameCache S)\<rparr>))))"

section \<open>Broadcasts\<close>

definition broadcastIdleStateChanged :: "service_env \<Rightarrow> creatureId_t \<Rightarrow> bool \<Rightarrow> service \<Rightarrow> service" where
  "broadcastIdleStateChanged env c enabled S = (case websocketOutgoing S of
     None \<Rightarrow> S
   | Some q \<Rightarrow> S\<lparr>websocketOutgoing := Some (q @ [IdleStateMessage c enabled (env_now env)])\<rparr>)"

definition broadcastCreatureActivitySnapshot ::
  "service_env \<Rightarrow> creatureId_t \<Rightarrow> activity \<Rightarrow> service \<Rightarrow> service"
where
  "broadcastCreatureActivitySnapshot env c a S = (case websocketOutgoing S of
     None \<Rightarrow> S
   | Some q \<Rightarrow> (let (name, S') = resolveCreatureName env c S in
       S'\<lparr>websocketOutgoing := Some (q @
         [ActivityMessage c name (act_state a) (act_animation_id a) (act_session_id a) (act_reason a)
            (env_now env)])\<rparr>))"

definition broadcastCreatureActivity ::
  "service_env \<Rightarrow> creatureId_t \<Rightarrow> runtime \<Rightarrow> service \<Rightarrow> service"
where
  "broadcastCreatureActivity env c rt S = (case rt_activity rt of
     None \<Rightarrow> S
   | Some a \<Rightarrow> broadcastCreatureActivitySnapshot env c a S)"

definition broadcastPlaylistStatusToAllClients :: "playlist_status \<Rightarrow> service \<Rightarrow> service" where
  "broadcastPlaylistStatusToAllClients ps S = (case websocketOutgoing S of
     None \<Rightarrow> S
   | Some q \<Rightarrow> S\<lparr>websocketOutgoing := Some (q @ [PlaylistMessage ps])\<rparr>)"

definition fixture_hook ::
  "creatureId_t \<Rightarrow> activity_reason \<Rightarrow> activity_state \<Rightarrow> service \<Rightarrow> service"
where
  "fixture_hook c r s S = (case hook_calls S of
     None \<Rightarrow> S
   | Some h \<Rightarrow> S\<lparr>hook_calls := Some (h @ [(c, r, s)])\<rparr>)"

section \<open>The streaming registry\<close>

definition markStreamingIfNew :: "creatureId_t \<Rightarrow> service \<Rightarrow> bool \<times> service" where
  "markStreamingIfNew c S =
     (c \<notin> set (streamingRegistry S), S\<lparr>streamingRegistry := List.insert c (streamingRegistry S)\<rparr>)"

definition clearStreaming :: "creatureId_t \<Rightarrow> service \<Rightarrow> service" where
  "clearStreaming c S = S\<lparr>streamingRegistry := removeAll c (streamingRegistry S)\<rparr>"

definition isCreatureStreaming :: "string \<Rightarrow> creatureId_t \<Rightarrow> service \<Rightarrow> bool \<times> service" where
  "isCreatureStreaming now c S =
     (if c \<in> set (streamingRegistry S) then (True, S)
      else (let (rt, S') = getOrCreateRuntime now c S in
        case rt_activity rt of
          None \<Rightarrow> (False, S')
        | Some a \<Rightarrow>
            (act_reason a = reason_toString Streaming \<and> act_state a = state_toString Running, S')))"

section \<open>Activity writes\<close>

definition resolveIdleState :: "runtime \<Rightarrow> activity_state \<Rightarrow> activity_state" where
  "resolveIdleState rt requested =
     (let idleEnabled = (case idle_enabled rt of None \<Rightarrow> True | Some b \<Rightarrow> b) in
      if requested = Idle \<and> \<not> idleEnabled then Disabled else requested)"

definition isStaleActivityWrite :: "activity_state \<Rightarrow> string \<Rightarrow> string option \<Rightarrow> bool" where
  "isStaleActivityWrite requestedState incomingSessionId currentSessionId =
     (if requestedState = Running then False
      else if incomingSessionId = [] \<or> currentSessionId = None then False
      else currentSessionId \<noteq> Some incomingSessionId)"

record activity_write =
  w_animation :: string
  w_reason :: activity_reason
  w_state :: activity_state
  w_session :: string
  w_generation :: u64

definition count_write :: "activity_state \<Rightarrow> activity_reason \<Rightarrow> counters \<Rightarrow> counters" where
  "count_write st r k =
     (let k1 = (if st = Running
                then k\<lparr>sessions_started_total := sessions_started_total k + 1\<rparr> else k) in
      if r = Cancelled
      then k1\<lparr>sessions_cancelled_total := sessions_cancelled_total k1 + 1\<rparr> else k1)"

text \<open>
  The critical section for one creature: \<open>None\<close> is a write dropped as stale, otherwise the
  new runtime with the resolved reason and state.
\<close>

definition apply_write ::
  "string \<Rightarrow> string \<Rightarrow> activity_write \<Rightarrow> u64 \<Rightarrow> runtime \<Rightarrow> (runtime \<times> activity_reason \<times> activity_state) option"
where
  "apply_write now sid w lastGeneration rt =
     (let act = (case rt_activity rt of None \<Rightarrow> makeDefaultActivity now | Some a \<Rightarrow> a) in
      if w_generation w \<noteq> 0 \<and> w_generation w < lastGeneration then None
      else if isStaleActivityWrite (w_state w) (w_session w) (act_session_id act) then None
      else
        (let resolvedState = resolveIdleState rt (w_state w);
             resolvedReason = (if resolvedState = Disabled \<and> w_state w = Idle
                               then ReasonDisabled else w_reason w);
             act' = act\<lparr>act_state := state_toString resolvedState,
               act_animation_id := (if resolvedState = Running then Some (w_animation w) else None),
               act_session_id := (if resolvedState = Running then Some sid else None),
               act_reason := reason_toString resolvedReason,
               act_started_at := now, act_updated_at := now\<rparr>
         in Some (rt\<lparr>rt_activity := Some act',
                     rt_counters := map_option (count_write resolvedState resolvedReason) (rt_counters rt)\<rparr>,
                  resolvedReason, resolvedState)))"

definition set_activity_one :: "service_env \<Rightarrow> string \<Rightarrow> activity_write \<Rightarrow> creatureId_t \<Rightarrow> service \<Rightarrow> service" where
  "set_activity_one env sid w c S =
     (if c = [] then S
      else
        (let (rt, S1) = getOrCreateRuntime (env_now env) c S;
             rt0 = rt\<lparr>rt_activity := Some (case rt_activity rt of
                        None \<Rightarrow> makeDefaultActivity (env_now env) | Some a \<Rightarrow> a)\<rparr>;
             lastGeneration = (case map_of (lastActivityGenerationByCreature S1) c of
                        None \<Rightarrow> 0 | Some g \<Rightarrow> g)
         in case apply_write (env_now env) sid w lastGeneration rt0 of
              None \<Rightarrow> put_runtime c rt0 (S1\<lparr>lastActivityGenerationByCreature :=
                  AList.update c lastGeneration (lastActivityGenerationByCreature S1)\<rparr>)
            | Some (rt', r, st) \<Rightarrow>
                (let S2 = put_runtime c rt' (S1\<lparr>lastActivityGenerationByCreature :=
                       AList.update c (if w_generation w > lastGeneration then w_generation w
                                       else lastGeneration) (lastActivityGenerationByCreature S1)\<rparr>);
                     S3 = broadcastCreatureActivity env c rt' S2
                 in fixture_hook c r st S3)))"

definition setActivityState :: "service_env \<Rightarrow> creatureId_t list \<Rightarrow> activity_write \<Rightarrow> service \<Rightarrow> string \<times> service" where
  "setActivityState env creatureIds w S =
     (let sid = (if w_session w = [] then env_uuid env else w_session w) in
      (sid, fold (set_activity_one env sid w) creatureIds S))"

definition setActivityRunning :: "service_env \<Rightarrow> creatureId_t list \<Rightarrow> activity_write \<Rightarrow> service \<Rightarrow> string \<times> service" where
  "setActivityRunning env creatureIds w S = setActivityState env creatureIds (w\<lparr>w_state := Running\<rparr>) S"

definition increment_idle_stopped_one :: "string \<Rightarrow> creatureId_t \<Rightarrow> service \<Rightarrow> service" where
  "increment_idle_stopped_one now c S =
     (if c = [] then S
      else (let (rt, S1) = getOrCreateRuntime now c S in
        case rt_counters rt of
          None \<Rightarrow> S1
        | Some k \<Rightarrow> put_runtime c
            (rt\<lparr>rt_counters := Some (k\<lparr>idle_stopped_total := idle_stopped_total k + 1\<rparr>)\<rparr>) S1))"

definition incrementIdleStopped :: "string \<Rightarrow> creatureId_t list \<Rightarrow> service \<Rightarrow> service" where
  "incrementIdleStopped now creatureIds S = fold (increment_idle_stopped_one now) creatureIds S"

section \<open>The idle toggle\<close>

text \<open>
  \<open>setIdleEnabled\<close> after its database check: \<open>cancel_idle\<close> is the call of
  \<open>cancelIdleSessionForCreature\<close> (its effect on this store and whether it cancelled one),
  made only when disabling; \<open>start_idle\<close> is \<open>startIdleIfNeeded\<close>, called only when enabling.
\<close>

definition toggle_counters :: "bool \<Rightarrow> bool \<Rightarrow> counters \<Rightarrow> counters" where
  "toggle_counters enabled cancelledIdleSession k =
     (let k1 = k\<lparr>idle_toggles_total := idle_toggles_total k + 1\<rparr> in
      if \<not> enabled \<and> \<not> cancelledIdleSession
      then k1\<lparr>idle_stopped_total := idle_stopped_total k1 + 1\<rparr> else k1)"

definition setIdleEnabled ::
  "service_env \<Rightarrow> (service \<Rightarrow> bool \<times> service) \<Rightarrow> (service \<Rightarrow> service) \<Rightarrow> creatureId_t \<Rightarrow> bool \<Rightarrow>
   service \<Rightarrow> service"
where
  "setIdleEnabled env cancel_idle start_idle c enabled S =
     (let now = env_now env;
          (rt, S1) = getOrCreateRuntime now c S;
          S2 = put_runtime c (rt\<lparr>idle_enabled := Some enabled\<rparr>) S1;
          (cancelledIdleSession, S3) = (if \<not> enabled then cancel_idle S2 else (False, S2));
          (rt3, S4) = getOrCreateRuntime now c S3;
          act = (case rt_activity rt3 of None \<Rightarrow> makeDefaultActivity now | Some a \<Rightarrow> a);
          rt4 = rt3\<lparr>rt_activity := Some (act\<lparr>act_animation_id := None, act_session_id := None,
                     act_reason := reason_toString (if enabled then ReasonIdle else ReasonDisabled),
                     act_state := state_toString (if enabled then Idle else Disabled),
                     act_started_at := now, act_updated_at := now\<rparr>),
                   rt_counters := map_option (toggle_counters enabled cancelledIdleSession) (rt_counters rt3)\<rparr>;
          S5 = put_runtime c rt4 S4;
          S6 = broadcastIdleStateChanged env c enabled S5;
          S7 = broadcastCreatureActivity env c rt4 S6
      in if enabled then start_idle S7 else S7)"


section \<open>Runs of the store\<close>

text \<open>
  The operations the rest of the server performs, as values, so that a run is a list. The
  argument of \<open>OpToggle\<close> is the list of idle sessions that the call of
  \<open>cancelIdleSessionForCreature\<close> cancelled, with the notification each one sends
  (\<open>notifyCancelledSession\<close>); the idle restart after enabling is a later \<open>OpWrite\<close>.
\<close>

datatype service_op =
    OpWrite "creatureId_t list" activity_write
  | OpIdleStopped "creatureId_t list"
  | OpMark creatureId_t
  | OpClear creatureId_t
  | OpQuery creatureId_t
  | OpToggle creatureId_t bool "(creatureId_t list \<times> activity_write) list"

definition notify_idle_cancelled ::
  "service_env \<Rightarrow> (creatureId_t list \<times> activity_write) list \<Rightarrow> service \<Rightarrow> bool \<times> service"
where
  "notify_idle_cancelled env cs S =
     (cs \<noteq> [], fold (\<lambda>(ids, w) S. snd (setActivityState env ids w
        (incrementIdleStopped (env_now env) ids S))) cs S)"

fun run_op :: "service_env \<Rightarrow> service_op \<Rightarrow> service \<Rightarrow> service" where
  "run_op env (OpWrite ids w) S = snd (setActivityState env ids w S)"
| "run_op env (OpIdleStopped ids) S = incrementIdleStopped (env_now env) ids S"
| "run_op env (OpMark c) S = snd (markStreamingIfNew c S)"
| "run_op env (OpClear c) S = clearStreaming c S"
| "run_op env (OpQuery c) S = snd (isCreatureStreaming (env_now env) c S)"
| "run_op env (OpToggle c enabled cs) S =
     setIdleEnabled env (notify_idle_cancelled env cs) (\<lambda>S. S) c enabled S"

definition new_service :: service where
  "new_service = \<lparr>runtimeState = [], creatureNameCache = [], lastActivityGenerationByCreature = [],
     lastIdleAnimationByCreature = [], streamingRegistry = [], websocketOutgoing = Some [],
     hook_calls = Some []\<rparr>"

section \<open>Views and frame conditions\<close>

definition activity_in :: "service \<Rightarrow> creatureId_t \<Rightarrow> activity option" where
  "activity_in S c = Option.bind (map_of (runtimeState S) c) rt_activity"

definition session_of :: "service \<Rightarrow> creatureId_t \<Rightarrow> string option" where
  "session_of S c = Option.bind (activity_in S c) act_session_id"

definition generation_of :: "service \<Rightarrow> creatureId_t \<Rightarrow> u64" where
  "generation_of S c = (case map_of (lastActivityGenerationByCreature S) c of None \<Rightarrow> 0 | Some g \<Rightarrow> g)"

lemmas view_defs = activity_in_def session_of_def generation_of_def

lemma resolveCreatureName_frame [frame_simps]:
  "runtimeState (snd (resolveCreatureName env c S)) = runtimeState S"
  "lastActivityGenerationByCreature (snd (resolveCreatureName env c S)) = lastActivityGenerationByCreature S"
  "hook_calls (snd (resolveCreatureName env c S)) = hook_calls S"
  "streamingRegistry (snd (resolveCreatureName env c S)) = streamingRegistry S"
  by (simp_all add: resolveCreatureName_def split: option.splits sum.splits)

lemma broadcast_frame [frame_simps]:
  "runtimeState (broadcastCreatureActivity env c rt S) = runtimeState S"
  "lastActivityGenerationByCreature (broadcastCreatureActivity env c rt S) = lastActivityGenerationByCreature S"
  "hook_calls (broadcastCreatureActivity env c rt S) = hook_calls S"
  by (simp_all add: broadcastCreatureActivity_def broadcastCreatureActivitySnapshot_def
      case_prod_unfold Let_def frame_simps split: option.splits)

lemma broadcastIdle_frame [frame_simps]:
  "runtimeState (broadcastIdleStateChanged env c b S) = runtimeState S"
  "lastActivityGenerationByCreature (broadcastIdleStateChanged env c b S) = lastActivityGenerationByCreature S"
  by (simp_all add: broadcastIdleStateChanged_def split: option.splits)

lemma fixture_hook_frame [frame_simps]:
  "runtimeState (fixture_hook c r st S) = runtimeState S"
  "lastActivityGenerationByCreature (fixture_hook c r st S) = lastActivityGenerationByCreature S"
  "websocketOutgoing (fixture_hook c r st S) = websocketOutgoing S"
  by (simp_all add: fixture_hook_def split: option.splits)

lemma put_runtime_frame [frame_simps]:
  "map_of (runtimeState (put_runtime c rt S)) = (map_of (runtimeState S))(c \<mapsto> rt)"
  "lastActivityGenerationByCreature (put_runtime c rt S) = lastActivityGenerationByCreature S"
  "websocketOutgoing (put_runtime c rt S) = websocketOutgoing S"
  "hook_calls (put_runtime c rt S) = hook_calls S"
  by (simp_all add: put_runtime_def)

lemma getOrCreateRuntime_frame [frame_simps]:
  "lastActivityGenerationByCreature (snd (getOrCreateRuntime now c S)) = lastActivityGenerationByCreature S"
  "websocketOutgoing (snd (getOrCreateRuntime now c S)) = websocketOutgoing S"
  "hook_calls (snd (getOrCreateRuntime now c S)) = hook_calls S"
  "map_of (runtimeState (snd (getOrCreateRuntime now c S))) =
     (map_of (runtimeState S))(c \<mapsto> fst (getOrCreateRuntime now c S))"
  by (auto simp: getOrCreateRuntime_def fun_upd_idem_iff split: option.splits)

lemma getOrCreateRuntime_value:
  "fst (getOrCreateRuntime now c S) =
     (case map_of (runtimeState S) c of None \<Rightarrow> makeDefaultRuntime now | Some rt \<Rightarrow> rt)"
  by (simp add: getOrCreateRuntime_def split: option.splits)

text \<open>What one write does to the runtime entries and to the generations, branch by branch.\<close>

definition runtime_or_default :: "string \<Rightarrow> service \<Rightarrow> creatureId_t \<Rightarrow> runtime" where
  "runtime_or_default now S c =
     (let rt = (case map_of (runtimeState S) c of None \<Rightarrow> makeDefaultRuntime now | Some rt \<Rightarrow> rt) in
      rt\<lparr>rt_activity := Some (case rt_activity rt of None \<Rightarrow> makeDefaultActivity now | Some a \<Rightarrow> a)\<rparr>)"

lemma set_activity_one_cases:
  assumes "c \<noteq> []"
  shows "map_of (runtimeState (set_activity_one env sid w c S)) = (map_of (runtimeState S))(c \<mapsto>
      (case apply_write (env_now env) sid w (generation_of S c) (runtime_or_default (env_now env) S c) of
         None \<Rightarrow> runtime_or_default (env_now env) S c | Some (rt, _, _) \<Rightarrow> rt))"
    and "generation_of (set_activity_one env sid w c S) = (generation_of S)(c :=
      (case apply_write (env_now env) sid w (generation_of S c) (runtime_or_default (env_now env) S c) of
         None \<Rightarrow> generation_of S c | Some _ \<Rightarrow> max (w_generation w) (generation_of S c)))"
proof -
  obtain rt S1 where g: "getOrCreateRuntime (env_now env) c S = (rt, S1)" by fastforce
  have S1: "map_of (runtimeState S1) = (map_of (runtimeState S))(c \<mapsto> rt)"
      "lastActivityGenerationByCreature S1 = lastActivityGenerationByCreature S"
    using getOrCreateRuntime_frame [of "env_now env" c S] g by auto
  have rt: "rt\<lparr>rt_activity := Some (case rt_activity rt of
        None \<Rightarrow> makeDefaultActivity (env_now env) | Some a \<Rightarrow> a)\<rparr> = runtime_or_default (env_now env) S c"
    using getOrCreateRuntime_value [of "env_now env" c S] g by (simp add: runtime_or_default_def Let_def)
  have lg: "(case map_of (lastActivityGenerationByCreature S1) c of None \<Rightarrow> 0 | Some g \<Rightarrow> g) = generation_of S c"
    by (simp add: generation_of_def S1)
  note unf = set_activity_one_def g prod.case Let_def rt lg assms if_False
  show "map_of (runtimeState (set_activity_one env sid w c S)) = (map_of (runtimeState S))(c \<mapsto>
      (case apply_write (env_now env) sid w (generation_of S c) (runtime_or_default (env_now env) S c) of
         None \<Rightarrow> runtime_or_default (env_now env) S c | Some (rt, _, _) \<Rightarrow> rt))"
    by (simp only: unf)
      (cases "apply_write (env_now env) sid w (generation_of S c) (runtime_or_default (env_now env) S c)";
        force simp: S1 frame_simps)
  show "generation_of (set_activity_one env sid w c S) = (generation_of S)(c :=
      (case apply_write (env_now env) sid w (generation_of S c) (runtime_or_default (env_now env) S c) of
         None \<Rightarrow> generation_of S c | Some _ \<Rightarrow> max (w_generation w) (generation_of S c)))"
    by (simp only: unf)
      (cases "apply_write (env_now env) sid w (generation_of S c) (runtime_or_default (env_now env) S c)";
        force simp: S1 frame_simps generation_of_def max_def fun_eq_iff)
qed

lemma set_activity_one_empty [simp]: "set_activity_one env sid w [] S = S"
  by (simp add: set_activity_one_def)

lemma runtime_or_default_views:
  "rt_activity (runtime_or_default now S c) = Some (case activity_in S c of
     None \<Rightarrow> makeDefaultActivity now | Some a \<Rightarrow> a)"
  by (auto simp: runtime_or_default_def view_defs Let_def makeDefaultRuntime_def split: option.splits)


section \<open>Writes and generations\<close>

lemma activity_in_set_one:
  "activity_in (set_activity_one env sid w c S) c' =
     (if c = [] \<or> c' \<noteq> c then activity_in S c'
      else case apply_write (env_now env) sid w (generation_of S c) (runtime_or_default (env_now env) S c) of
        None \<Rightarrow> rt_activity (runtime_or_default (env_now env) S c) | Some (rt, _, _) \<Rightarrow> rt_activity rt)"
  by (cases "c = []") (simp_all add: activity_in_def set_activity_one_cases split: option.splits)

lemma generation_of_set_one:
  "generation_of (set_activity_one env sid w c S) c' =
     (if c = [] \<or> c' \<noteq> c then generation_of S c'
      else case apply_write (env_now env) sid w (generation_of S c) (runtime_or_default (env_now env) S c) of
        None \<Rightarrow> generation_of S c | Some _ \<Rightarrow> max (w_generation w) (generation_of S c))"
  by (cases "c = []") (simp_all add: set_activity_one_cases)

lemma apply_write_older: "w_generation w \<noteq> 0 \<Longrightarrow> w_generation w < g \<Longrightarrow> apply_write now sid w g rt = None"
  by (simp add: apply_write_def)

lemma apply_write_running:
  "w_state w = Running \<Longrightarrow> w_generation w = 0 \<or> g \<le> w_generation w \<Longrightarrow>
   \<exists>rt' a. apply_write now sid w g rt = Some (rt', w_reason w, Running) \<and> rt_activity rt' = Some a \<and>
     act_session_id a = Some sid \<and> act_state a = ''running'' \<and> act_animation_id a = Some (w_animation w)"
  by (auto simp: apply_write_def isStaleActivityWrite_def resolveIdleState_def state_toString_def Let_def)

lemma generation_of_set_one_mono: "generation_of S c' \<le> generation_of (set_activity_one env sid w c S) c'"
  by (auto simp: generation_of_set_one split: option.splits)

lemma fold_preserves: "P S \<Longrightarrow> (\<And>x S. x \<in> set xs \<Longrightarrow> P S \<Longrightarrow> P (f x S)) \<Longrightarrow> P (fold f xs S)"
  by (induction xs arbitrary: S) auto

lemma fold_reaches:
  assumes "x \<in> set xs" "P S"
    and "\<And>y S. y \<in> set xs \<Longrightarrow> P S \<Longrightarrow> P (f y S)"
    and "\<And>S. P S \<Longrightarrow> Q (f x S)"
    and "\<And>y S. y \<in> set xs \<Longrightarrow> P S \<Longrightarrow> Q S \<Longrightarrow> Q (f y S)"
  shows "Q (fold f xs S)"
  using assms(1,2,3,5)
proof (induction xs arbitrary: S)
  case (Cons y ys)
  have P: "P (f y S)" using Cons.prems by simp
  show ?case
  proof (cases "x \<in> set ys")
    case True
    then show ?thesis using Cons.IH P Cons.prems(3,4) by simp
  next
    case False
    then have "y = x" using Cons.prems(1) by simp
    then have "P (f y S) \<and> Q (f y S)" using P assms(4) Cons.prems(2) by blast
    then have "P (fold f ys (f y S)) \<and> Q (fold f ys (f y S))"
      using Cons.prems(3,4) by (intro fold_preserves [of "\<lambda>S. P S \<and> Q S"]) auto
    then show ?thesis by simp
  qed
qed simp

text \<open>The creature shows the session of generation \<open>m\<close> once a write of that generation is in.\<close>

definition shows_newest :: "u64 \<Rightarrow> string \<Rightarrow> creatureId_t \<Rightarrow> service \<Rightarrow> bool" where
  "shows_newest m s c S \<longleftrightarrow> generation_of S c \<le> m \<and> (generation_of S c = m \<longrightarrow>
     session_of S c = Some s \<and> map_option act_state (activity_in S c) = Some ''running'')"

definition adoption_write :: "u64 \<Rightarrow> string \<Rightarrow> activity_write \<Rightarrow> bool" where
  "adoption_write m s w \<longleftrightarrow> w_generation w \<noteq> 0 \<and> w_session w \<noteq> [] \<and> w_generation w \<le> m \<and>
     (w_generation w = m \<longrightarrow> w_session w = s \<and> w_state w = Running)"

lemma shows_newest_step:
  assumes "shows_newest m s c S" "adoption_write m s w"
  shows "shows_newest m s c (set_activity_one env (w_session w) w c' S)"
proof (cases "c' = [] \<or> c \<noteq> c'")
  case True
  then show ?thesis
    using assms(1) by (auto simp: shows_newest_def session_of_def activity_in_set_one generation_of_set_one)
next
  case False
  let ?aw = "apply_write (env_now env) (w_session w) w (generation_of S c) (runtime_or_default (env_now env) S c)"
  have old: "?aw = None" if "w_generation w < m" "generation_of S c = m"
    using that assms(2) by (intro apply_write_older) (auto simp: adoption_write_def)
  have new: "\<exists>rt' a. ?aw = Some (rt', w_reason w, Running) \<and> rt_activity rt' = Some a \<and>
      act_session_id a = Some s \<and> act_state a = ''running''" if "w_generation w = m"
    using that assms apply_write_running [of w "generation_of S c" "env_now env" "w_session w"
        "runtime_or_default (env_now env) S c"]
    by (auto simp: adoption_write_def shows_newest_def)
  show ?thesis
  proof (cases "w_generation w = m")
    case True
    then show ?thesis
      using new [OF True] assms(1) False
      by (auto simp: shows_newest_def session_of_def activity_in_set_one generation_of_set_one max_def)
  next
    case gen: False
    show ?thesis
    proof (cases ?aw)
      case None
      then show ?thesis
        using assms(1) False
        by (auto simp: shows_newest_def session_of_def activity_in_set_one generation_of_set_one
            runtime_or_default_views split: option.splits)
    next
      case (Some r)
      then have "generation_of S c \<noteq> m" using old gen assms(2) by (auto simp: adoption_write_def)
      then show ?thesis
        using Some assms gen False
        by (auto simp: shows_newest_def adoption_write_def generation_of_set_one max_def)
    qed
  qed
qed

text \<open>
  C1: the newest adoption wins (issue 87). Take any list of versioned activity writes for
  any creatures, in any order (the threads' interleaving), none above generation \<open>m\<close>. If the
  session of generation \<open>m\<close> wrote Running for creature \<open>c\<close> and has not stopped, then \<open>c\<close>
  ends up Running in that session: no late write of an older adoption, Running or not,
  ever takes it back.
\<close>

theorem newest_adoption_wins:
  assumes "\<forall>(env, ids, w) \<in> set ws. adoption_write m s w"
    and "(env, ids, w) \<in> set ws" "w_generation w = m" "c \<in> set ids" "c \<noteq> []"
    and "generation_of S c < m"
  defines "S' \<equiv> fold (\<lambda>(env, ids, w) S. snd (setActivityState env ids w S)) ws S"
  shows "session_of S' c = Some s \<and> map_option act_state (activity_in S' c) = Some ''running''"
proof -
  let ?f = "\<lambda>(env, ids, w) S. snd (setActivityState env ids w S)"
  let ?P = "shows_newest m s c" and ?Q = "\<lambda>S. generation_of S c = m"
  have ok: "adoption_write m s (snd (snd x))" if "x \<in> set ws" for x
    using assms(1) that by (auto simp: case_prod_unfold)
  have f: "?f x S = fold (set_activity_one (fst x) (w_session (snd (snd x))) (snd (snd x))) (fst (snd x)) S" if "x \<in> set ws" for x S
    using ok [OF that] by (auto simp: setActivityState_def adoption_write_def case_prod_unfold Let_def)
  have P: "?P (?f x S)" if "x \<in> set ws" "?P S" for x S
    unfolding f [OF that(1)] using that(2) by (rule fold_preserves) (rule shows_newest_step, auto intro: ok that)
  have mono: "generation_of S c \<le> generation_of (?f x S) c" if "x \<in> set ws" for x S
    unfolding f [OF that]
    by (rule fold_preserves [where P = "\<lambda>S'. generation_of S c \<le> generation_of S' c"])
      (auto intro: order_trans [OF _ generation_of_set_one_mono])
  have Q: "?Q (?f (env, ids, w) S)" if "?P S" for S
  proof -
    have "?P (set_activity_one env (w_session w) w x S) \<and> generation_of (set_activity_one env (w_session w) w c S) c = m"
      if "?P S" for x S
    proof
      show "?P (set_activity_one env (w_session w) w x S)"
        using that ok [OF assms(2)] by (simp add: shows_newest_step)
      have "generation_of S c \<le> m" using that by (simp add: shows_newest_def)
      moreover have "w_state w = Running" using ok [OF assms(2)] assms(3) by (simp add: adoption_write_def)
      ultimately show "generation_of (set_activity_one env (w_session w) w c S) c = m"
        using assms(3,5) apply_write_running [of w "generation_of S c" "env_now env" "w_session w"
            "runtime_or_default (env_now env) S c"]
        by (auto simp: generation_of_set_one max_def)
    qed
    note one = this
    show ?thesis
      unfolding f [OF assms(2)] fst_conv snd_conv
    proof (rule fold_reaches [where P = ?P and x = c, OF assms(4) that])
      fix y S assume y: "?P S" "?Q S"
      show "?Q (set_activity_one env (w_session w) w y S)"
        using one [OF y(1), of y] generation_of_set_one_mono [of S c env "w_session w" w y] y(2)
        by (simp add: shows_newest_def)
    qed (use one in blast)+
  qed
  have P0: "?P S" using assms(6) by (auto simp: shows_newest_def)
  have "?P S' \<and> ?Q S'" unfolding S'_def
  proof
    show "?P (fold ?f ws S)" using P0 P by (rule fold_preserves)
    show "?Q (fold ?f ws S)"
      using assms(2) P0 P Q
    proof (rule fold_reaches [where P = ?P])
      fix y S assume y: "y \<in> set ws" "?P S" "?Q S"
      show "?Q (?f y S)" using mono [OF y(1), of S] P [OF y(1,2)] y(3) by (simp add: shows_newest_def)
    qed
  qed
  then show ?thesis by (auto simp: shows_newest_def)
qed


definition demo_env :: service_env where
  "demo_env = \<lparr>env_now = ''2025-01-01T00:00:00Z'', env_uuid = ''u'', env_creature_name = None\<rparr>"

definition demo_running :: "string \<Rightarrow> u64 \<Rightarrow> activity_write" where
  "demo_running sid g = \<lparr>w_animation = ''anim'', w_reason = Play, w_state = Running,
     w_session = sid, w_generation = g\<rparr>"

theorem newest_adoption_wins_witness:
  "session_of (fold (\<lambda>(env, ids, w) S. snd (setActivityState env ids w S))
      [(demo_env, [''bird''], demo_running ''new'' 2), (demo_env, [''bird''], demo_running ''old'' 1)]
      new_service) ''bird'' = Some ''new''"
proof -
  have "\<forall>(env, ids, w) \<in> set [(demo_env, [''bird''], demo_running ''new'' 2),
      (demo_env, [''bird''], demo_running ''old'' 1)]. adoption_write 2 ''new'' w"
    by (simp add: adoption_write_def demo_running_def)
  then show ?thesis
    by (rule newest_adoption_wins [where env = demo_env and ids = "[''bird'']" and c = "''bird''"
          and w = "demo_running ''new'' 2" and S = new_service, THEN conjunct1])
      (simp_all add: demo_running_def generation_of_def new_service_def)
qed

lemma set_activity_one_stale:
  assumes "c \<noteq> []" "apply_write (env_now env) sid w (generation_of S c) (runtime_or_default (env_now env) S c) = None"
  shows "websocketOutgoing (set_activity_one env sid w c S) = websocketOutgoing S"
    and "hook_calls (set_activity_one env sid w c S) = hook_calls S"
proof -
  obtain rt S1 where g: "getOrCreateRuntime (env_now env) c S = (rt, S1)" by fastforce
  have S1: "lastActivityGenerationByCreature S1 = lastActivityGenerationByCreature S"
      "websocketOutgoing S1 = websocketOutgoing S" "hook_calls S1 = hook_calls S"
    using getOrCreateRuntime_frame [of "env_now env" c S] g by auto
  have rt: "rt\<lparr>rt_activity := Some (case rt_activity rt of
        None \<Rightarrow> makeDefaultActivity (env_now env) | Some a \<Rightarrow> a)\<rparr> = runtime_or_default (env_now env) S c"
    using getOrCreateRuntime_value [of "env_now env" c S] g by (simp add: runtime_or_default_def Let_def)
  have lg: "(case map_of (lastActivityGenerationByCreature S1) c of None \<Rightarrow> 0 | Some g \<Rightarrow> g) = generation_of S c"
    by (simp add: generation_of_def S1)
  note unf = set_activity_one_def g prod.case Let_def rt lg assms if_False option.case
  show "websocketOutgoing (set_activity_one env sid w c S) = websocketOutgoing S"
    and "hook_calls (set_activity_one env sid w c S) = hook_calls S"
    by (simp_all only: unf) (simp_all add: S1 put_runtime_def)
qed

text \<open>
  session ownership (issue 62). While creature \<open>c\<close> belongs to session \<open>s\<close>, a stop,
  cancel or idle write that names another session changes no activity, no generation, sends
  nothing to the clients and does not reach the fixture bindings.
\<close>

theorem foreign_stop_is_ignored:
  fixes env :: service_env
  assumes "c \<noteq> []" "session_of S c = Some s" "w_state w \<noteq> Running" "w_session w \<noteq> []" "w_session w \<noteq> s"
  defines "S' \<equiv> snd (setActivityState env [c] w S)"
  shows "activity_in S' c' = activity_in S c' \<and> generation_of S' c' = generation_of S c' \<and>
    websocketOutgoing S' = websocketOutgoing S \<and> hook_calls S' = hook_calls S"
proof -
  let ?sid = "w_session w"
  have a: "\<exists>a. activity_in S c = Some a \<and> act_session_id a = Some s"
    using assms(2) by (auto simp: session_of_def bind_eq_Some_conv)
  then have "apply_write (env_now env) ?sid w (generation_of S c) (runtime_or_default (env_now env) S c) = None"
    using assms(3-5) by (auto simp: apply_write_def Let_def runtime_or_default_views isStaleActivityWrite_def)
  then show ?thesis
    using a assms(1,4)
    by (auto simp: S'_def setActivityState_def Let_def set_activity_one_stale activity_in_set_one
        generation_of_set_one runtime_or_default_views)
qed

theorem foreign_stop_is_ignored_witness:
  "session_of (snd (setActivityState demo_env [''bird'']
      \<lparr>w_animation = ''x'', w_reason = Cancelled, w_state = Stopped, w_session = ''old'', w_generation = 0\<rparr>
      (snd (setActivityState demo_env [''bird''] (demo_running ''new'' 0) new_service)))) ''bird'' = Some ''new''"
proof -
  let ?S = "snd (setActivityState demo_env [''bird''] (demo_running ''new'' 0) new_service)"
  have s: "session_of ?S ''bird'' = Some ''new''"
    by code_simp
  show ?thesis
    using foreign_stop_is_ignored [of "''bird''" ?S "''new''" "\<lparr>w_animation = ''x'', w_reason = Cancelled,
        w_state = Stopped, w_session = ''old'', w_generation = 0\<rparr>" demo_env "''bird''"] s
    by (simp add: session_of_def)
qed

section \<open>Invariants of a run\<close>

definition idle_ok :: "creatureId_t \<Rightarrow> service \<Rightarrow> bool" where
  "idle_ok d S \<longleftrightarrow> (\<forall>rt a. map_of (runtimeState S) d = Some rt \<longrightarrow> idle_enabled rt = Some False \<longrightarrow>
     rt_activity rt = Some a \<longrightarrow> act_state a \<noteq> ''idle'')"

lemma idle_ok_upd:
  assumes "idle_ok d S" "map_of (runtimeState S') = (map_of (runtimeState S))(c \<mapsto> rt)"
    and "\<And>a. d = c \<Longrightarrow> idle_enabled rt = Some False \<Longrightarrow> rt_activity rt = Some a \<Longrightarrow> act_state a \<noteq> ''idle''"
  shows "idle_ok d S'"
  using assms unfolding idle_ok_def by (auto split: if_splits)

lemma idle_ok_entry:
  assumes "idle_ok c S" "idle_enabled (runtime_or_default now S c) = Some False"
    "rt_activity (runtime_or_default now S c) = Some a"
  shows "act_state a \<noteq> ''idle''"
  using assms by (auto simp: idle_ok_def runtime_or_default_def Let_def makeDefaultRuntime_def
      makeDefaultActivity_def split: option.splits)

lemma apply_write_Some:
  assumes "apply_write now sid w g rt = Some (rt', r, st)"
  shows "st = resolveIdleState rt (w_state w)" "idle_enabled rt' = idle_enabled rt"
    "\<exists>a. rt_activity rt' = Some a \<and> act_state a = state_toString st \<and>
       act_session_id a = (if st = Running then Some sid else None)"
  using assms by (auto simp: apply_write_def Let_def split: if_split_asm)

lemma state_toString_idle: "state_toString st = ''idle'' \<longleftrightarrow> st = Idle"
  by (cases st) (simp_all add: state_toString_def)

lemma apply_write_idle:
  assumes "apply_write now sid w g rt = Some (rt', r, st)" "idle_enabled rt' = Some False" "rt_activity rt' = Some a"
  shows "act_state a \<noteq> ''idle''"
  using apply_write_Some [OF assms(1)] assms(2,3)
  by (auto simp: state_toString_idle resolveIdleState_def split: if_splits option.splits)

lemma idle_ok_set_one [invariant_intros]:
  assumes "idle_ok d S" shows "idle_ok d (set_activity_one env sid w c S)"
proof (cases "c = []")
  case False
  show ?thesis
    by (rule idle_ok_upd [OF assms set_activity_one_cases(1) [OF False]])
      (use assms in \<open>auto split: option.splits dest: idle_ok_entry apply_write_idle\<close>)
qed (simp add: assms)

lemma idle_ok_setActivityState [invariant_intros]:
  "idle_ok d S \<Longrightarrow> idle_ok d (snd (setActivityState env ids w S))"
  unfolding setActivityState_def Let_def snd_conv
  by (rule fold_preserves [where P = "idle_ok d"]) (assumption, rule idle_ok_set_one)

lemma idle_ok_value:
  assumes "idle_ok c S" "idle_enabled (fst (getOrCreateRuntime now c S)) = Some False"
    "rt_activity (fst (getOrCreateRuntime now c S)) = Some a"
  shows "act_state a \<noteq> ''idle''"
proof (cases "map_of (runtimeState S) c")
  case None
  then show ?thesis using assms(2) by (simp add: getOrCreateRuntime_value makeDefaultRuntime_def)
next
  case (Some rt)
  then show ?thesis
    using assms unfolding idle_ok_def getOrCreateRuntime_value by simp
qed

lemma idle_ok_getOrCreate [invariant_intros]:
  assumes "idle_ok d S" shows "idle_ok d (snd (getOrCreateRuntime now c S))"
  by (rule idle_ok_upd [OF assms getOrCreateRuntime_frame(4)]) (use assms idle_ok_value in blast)

lemma idle_ok_same: "runtimeState S' = runtimeState S \<Longrightarrow> idle_ok d S' = idle_ok d S"
  by (simp add: idle_ok_def)

lemma idle_ok_increment [invariant_intros]:
  assumes "idle_ok d S" shows "idle_ok d (incrementIdleStopped now ids S)"
  unfolding incrementIdleStopped_def
proof (rule fold_preserves [where P = "idle_ok d", OF assms])
  fix c S assume S: "idle_ok d S"
  obtain rt S1 where g: "getOrCreateRuntime now c S = (rt, S1)" by fastforce
  have S1: "idle_ok d S1" using idle_ok_getOrCreate [OF S, of now c] g by simp
  have "idle_ok d (put_runtime c (rt\<lparr>rt_counters := k\<rparr>) S1)" for k
    by (rule idle_ok_upd [OF S1 put_runtime_frame(1)])
      (use S idle_ok_value [of c S now] g in auto)
  then show "idle_ok d (increment_idle_stopped_one now c S)"
    using S S1 g by (simp add: increment_idle_stopped_one_def split: option.splits)
qed

lemma idle_ok_notify [invariant_intros]:
  assumes "idle_ok d S" shows "idle_ok d (snd (notify_idle_cancelled env cs S))"
  unfolding notify_idle_cancelled_def snd_conv
  by (rule fold_preserves [where P = "idle_ok d", OF assms])
    (simp add: case_prod_unfold idle_ok_setActivityState idle_ok_increment)

text \<open>The idle flag of a creature: only the toggle changes it once the entry exists.\<close>

definition idle_flag :: "service \<Rightarrow> creatureId_t \<Rightarrow> bool option option" where
  "idle_flag S c = map_option idle_enabled (map_of (runtimeState S) c)"

lemma idle_flag_set_one:
  assumes "idle_flag S c = Some b" shows "idle_flag (set_activity_one env sid w c' S) c = Some b"
proof (cases "c' = []")
  case False
  show ?thesis
    using assms
    by (auto simp: idle_flag_def set_activity_one_cases(1) [OF False] runtime_or_default_def Let_def
        dest!: apply_write_Some(2) split: option.splits)
qed (simp add: assms)

lemma idle_flag_increment_one:
  assumes "idle_flag S c = Some b" shows "idle_flag (increment_idle_stopped_one now c' S) c = Some b"
proof -
  obtain rt S1 where g: "getOrCreateRuntime now c' S = (rt, S1)" by fastforce
  show ?thesis
    using assms g getOrCreateRuntime_frame(4) [of now c' S] getOrCreateRuntime_value [of now c' S]
    by (auto simp: idle_flag_def increment_idle_stopped_one_def frame_simps split: option.splits if_splits)
qed

lemma idle_flag_notify:
  assumes "idle_flag S c = Some b" shows "idle_flag (snd (notify_idle_cancelled env cs S)) c = Some b"
  unfolding notify_idle_cancelled_def snd_conv
proof (rule fold_preserves [where P = "\<lambda>S. idle_flag S c = Some b", OF assms], clarify)
  fix ids w S assume "idle_flag S c = Some b"
  then have "idle_flag (incrementIdleStopped (env_now env) ids S) c = Some b"
    unfolding incrementIdleStopped_def
    by (rule fold_preserves [where P = "\<lambda>S. idle_flag S c = Some b"]) (rule idle_flag_increment_one)
  then show "idle_flag (snd (setActivityState env ids w (incrementIdleStopped (env_now env) ids S))) c = Some b"
    unfolding setActivityState_def Let_def snd_conv
    by (rule fold_preserves [where P = "\<lambda>S. idle_flag S c = Some b"]) (rule idle_flag_set_one)
qed

lemma idle_flag_fst: "idle_flag S c = Some b \<Longrightarrow> idle_enabled (fst (getOrCreateRuntime now c S)) = b"
  by (auto simp: idle_flag_def getOrCreateRuntime_value)

lemma idle_ok_setIdleEnabled [invariant_intros]:
  assumes "idle_ok d S"
  shows "idle_ok d (setIdleEnabled env (notify_idle_cancelled env cs) (\<lambda>S. S) c enabled S)"
proof -
  obtain rt S1 where g: "getOrCreateRuntime (env_now env) c S = (rt, S1)" by fastforce
  define S2 where "S2 = put_runtime c (rt\<lparr>idle_enabled := Some enabled\<rparr>) S1"
  obtain b S3 where k: "(if \<not> enabled then notify_idle_cancelled env cs S2 else (False, S2)) = (b, S3)"
    by fastforce
  obtain rt3 S4 where g4: "getOrCreateRuntime (env_now env) c S3 = (rt3, S4)" by fastforce
  have "idle_flag S2 c = Some (Some enabled)" by (simp add: S2_def idle_flag_def frame_simps)
  then have "idle_flag S3 c = Some (Some enabled)"
    using idle_flag_notify [of S2 c "Some enabled" env cs] k by (auto split: if_splits)
  then have rt3: "idle_enabled rt3 = Some enabled" using idle_flag_fst [of S3 c _ "env_now env"] g4 by auto
  have other: "idle_ok d S4" if "d \<noteq> c"
  proof -
    have "idle_ok d S1" using idle_ok_getOrCreate [OF assms, of "env_now env" c] g by simp
    then have "idle_ok d S2" unfolding S2_def by (rule idle_ok_upd [OF _ put_runtime_frame(1)]) (use that in auto)
    then have "idle_ok d S3" using idle_ok_notify [of d S2 env cs] k by (auto split: if_splits)
    then show ?thesis using idle_ok_getOrCreate [of d S3 "env_now env" c] g4 by simp
  qed
  define act where "act = (case rt_activity rt3 of None \<Rightarrow> makeDefaultActivity (env_now env) | Some a \<Rightarrow> a)"
  define rt4 where "rt4 = rt3\<lparr>rt_activity := Some (act\<lparr>act_animation_id := None, act_session_id := None,
      act_reason := reason_toString (if enabled then ReasonIdle else ReasonDisabled),
      act_state := state_toString (if enabled then Idle else Disabled),
      act_started_at := env_now env, act_updated_at := env_now env\<rparr>),
      rt_counters := map_option (toggle_counters enabled b) (rt_counters rt3)\<rparr>"
  have "setIdleEnabled env (notify_idle_cancelled env cs) (\<lambda>S. S) c enabled S =
      broadcastCreatureActivity env c rt4 (broadcastIdleStateChanged env c enabled (put_runtime c rt4 S4))"
    unfolding setIdleEnabled_def Let_def g prod.case S2_def [symmetric] k g4 act_def [symmetric]
      rt4_def [symmetric] by simp
  moreover have "idle_ok d (put_runtime c rt4 S4)"
    using other rt3
    by (cases "d = c") (auto simp: idle_ok_def frame_simps rt4_def state_toString_idle split: if_splits)
  ultimately show ?thesis by (simp add: idle_ok_def frame_simps)
qed

lemma idle_ok_run_op [invariant_intros]: "idle_ok d S \<Longrightarrow> idle_ok d (run_op env op S)"
proof (cases op)
  case (OpQuery c)
  then show "idle_ok d S \<Longrightarrow> ?thesis"
    using idle_ok_getOrCreate [of d S "env_now env" c]
    by (auto simp: isCreatureStreaming_def case_prod_unfold Let_def split: option.splits)
next
  case (OpMark c)
  then show "idle_ok d S \<Longrightarrow> ?thesis" by (simp add: markStreamingIfNew_def idle_ok_def)
next
  case (OpClear c)
  then show "idle_ok d S \<Longrightarrow> ?thesis" by (simp add: clearStreaming_def idle_ok_def)
qed (simp_all add: idle_ok_setActivityState idle_ok_increment idle_ok_setIdleEnabled)


lemma generation_of_same:
  "lastActivityGenerationByCreature S' = lastActivityGenerationByCreature S \<Longrightarrow> generation_of S' = generation_of S"
  by (simp add: generation_of_def fun_eq_iff)

lemma generation_of_increment [frame_simps]: "generation_of (incrementIdleStopped now ids S) = generation_of S"
  unfolding incrementIdleStopped_def
  by (rule fold_preserves [where P = "\<lambda>S'. generation_of S' = generation_of S"])
    (auto simp: increment_idle_stopped_one_def case_prod_unfold Let_def frame_simps generation_of_def
      fun_eq_iff split: option.splits)

lemma generation_of_setActivityState_mono: "generation_of S c \<le> generation_of (snd (setActivityState env ids w S)) c"
  unfolding setActivityState_def Let_def snd_conv
  by (rule fold_preserves [where P = "\<lambda>S'. generation_of S c \<le> generation_of S' c"])
    (auto intro: order_trans [OF _ generation_of_set_one_mono])

lemma generation_of_notify_mono: "generation_of S c \<le> generation_of (snd (notify_idle_cancelled env cs S)) c"
  unfolding notify_idle_cancelled_def snd_conv
proof (rule fold_preserves [where P = "\<lambda>S'. generation_of S c \<le> generation_of S' c"], simp, clarify)
  fix ids w T assume "generation_of S c \<le> generation_of T c"
  then show "generation_of S c \<le> generation_of (snd (setActivityState env ids w
      (incrementIdleStopped (env_now env) ids T))) c"
    using generation_of_setActivityState_mono [of "incrementIdleStopped (env_now env) ids T" c env ids w]
    by (simp add: frame_simps)
qed

text \<open>
  the recorded adoption generation of a creature never goes down, whatever operation runs.
\<close>

theorem generation_monotone: "generation_of S c \<le> generation_of (run_op env op S) c"
proof (cases op)
  case (OpToggle c' enabled cs)
  have g: "generation_of (snd (getOrCreateRuntime now x T)) = generation_of T" for now x T
    by (rule generation_of_same) (simp add: frame_simps)
  have p: "generation_of (put_runtime x rt T) = generation_of T" for x rt T
    by (rule generation_of_same) (simp add: frame_simps)
  have b: "generation_of (broadcastCreatureActivity e x rt T) = generation_of T"
      "generation_of (broadcastIdleStateChanged e x b T) = generation_of T" for e x rt b T
    by (rule generation_of_same, simp add: frame_simps)+
  show ?thesis
    using OpToggle
    by (auto simp: setIdleEnabled_def case_prod_unfold Let_def g p b
        intro: order_trans [OF _ generation_of_notify_mono])
next
  case (OpQuery x)
  then show ?thesis
    using generation_of_same [of "snd (getOrCreateRuntime (env_now env) x S)" S]
    by (auto simp: isCreatureStreaming_def case_prod_unfold Let_def frame_simps split: option.splits)
next
  case (OpMark x)
  then show ?thesis by (simp add: markStreamingIfNew_def generation_of_def)
next
  case (OpClear x)
  then show ?thesis by (simp add: clearStreaming_def generation_of_def)
qed (simp_all add: generation_of_setActivityState_mono frame_simps)

end
