(* ===== verification/Dmx_Universe.thy ===== *)
theory Dmx_Universe
  imports Prelude
begin

text \<open>
  The E1.31 (sACN) output of lib/e131_service/src: \<open>Universe\<close> (Universe.cpp), the galaxy of
  universes of \<open>E131Server\<close> (E131Server.cpp), and the \<open>DMXEvent\<close> that feeds it
  (src/src/server/eventloop/events/dmx.cpp). The packet library is a submodule: the
  property values a fresh packet has after \<open>e131_pkt_init\<close> are the argument \<open>init_prop_val\<close>.
\<close>

section \<open>One universe\<close>

record universe =
  sequenceNumber :: u8
  state :: "u8 list"

definition UNIVERSE_SLOT_COUNT :: nat where
  "UNIVERSE_SLOT_COUNT = 512"

definition new_universe :: universe where
  "new_universe = \<lparr>sequenceNumber = 0, state = replicate UNIVERSE_SLOT_COUNT 0\<rparr>"

text \<open>\<open>std::copy(values.begin(), values.end(), state.begin() + i)\<close>, the vector not overrunning.\<close>

definition copy_at :: "nat \<Rightarrow> 'a list \<Rightarrow> 'a list \<Rightarrow> 'a list" where
  "copy_at i vs st = take i st @ vs @ drop (i + length vs) st"

definition setFragment :: "u16 \<Rightarrow> u8 list \<Rightarrow> universe \<Rightarrow> universe" where
  "setFragment firstSlot values u =
     (if 0 < unat firstSlot \<and> unat firstSlot \<le> UNIVERSE_SLOT_COUNT \<and>
         length values \<le> UNIVERSE_SLOT_COUNT \<and>
         UNIVERSE_SLOT_COUNT - unat firstSlot \<ge> length values
      then u\<lparr>state := copy_at (unat firstSlot) values (state u)\<rparr>
      else u)"

definition getState :: "universe \<Rightarrow> u8 list" where
  "getState u = state u"

text \<open>The post-increment of an 8-bit counter: the old value, and the wrapped successor.\<close>

definition getNextSequenceNumber :: "universe \<Rightarrow> u8 \<times> universe" where
  "getNextSequenceNumber u = (sequenceNumber u, u\<lparr>sequenceNumber := sequenceNumber u + 1\<rparr>)"

definition universe_ok :: "universe \<Rightarrow> bool" where
  "universe_ok u \<longleftrightarrow> length (state u) = UNIVERSE_SLOT_COUNT"

lemma length_copy_at [simp]: "i + length vs \<le> length st \<Longrightarrow> length (copy_at i vs st) = length st"
  by (simp add: copy_at_def)

lemma nth_copy_at:
  "i + length vs \<le> length st \<Longrightarrow> k < length st \<Longrightarrow>
   copy_at i vs st ! k = (if i \<le> k \<and> k < i + length vs then vs ! (k - i) else st ! k)"
  by (auto simp: copy_at_def nth_append)

lemma universe_ok_new [simp]: "universe_ok new_universe"
  by (simp add: universe_ok_def new_universe_def)

lemma universe_ok_setFragment [simp, invariant_intros]: "universe_ok u \<Longrightarrow> universe_ok (setFragment i vs u)"
  by (auto simp: universe_ok_def setFragment_def)

lemma universe_ok_seq [simp, invariant_intros]:
  "universe_ok u \<Longrightarrow> universe_ok (snd (getNextSequenceNumber u))"
  by (simp add: universe_ok_def getNextSequenceNumber_def)

lemma setFragment_sequenceNumber [simp, frame_simps]:
  "sequenceNumber (setFragment i vs u) = sequenceNumber u"
  by (simp add: setFragment_def)

lemma setFragment_in_bounds:
  "0 < unat i \<Longrightarrow> unat i + length vs \<le> UNIVERSE_SLOT_COUNT \<Longrightarrow>
   setFragment i vs u = u\<lparr>state := copy_at (unat i) vs (state u)\<rparr>"
  by (simp add: setFragment_def)

lemma setFragment_out_of_bounds:
  "\<not> (0 < unat i \<and> unat i + length vs \<le> UNIVERSE_SLOT_COUNT) \<Longrightarrow> setFragment i vs u = u"
  by (auto simp: setFragment_def)

section \<open>The galaxy\<close>

type_synonym galaxy = "(u16 \<times> universe) list"

definition createUniverseLocked :: "u16 \<Rightarrow> galaxy \<Rightarrow> galaxy" where
  "createUniverseLocked n g = AList.update n new_universe g"

definition createUniverse :: "u16 \<Rightarrow> galaxy \<Rightarrow> galaxy" where
  "createUniverse n g = createUniverseLocked n g"

definition destroyUniverse :: "u16 \<Rightarrow> galaxy \<Rightarrow> galaxy" where
  "destroyUniverse n g = AList.delete n g"

definition setValues :: "u16 \<Rightarrow> u16 \<Rightarrow> u8 list \<Rightarrow> galaxy \<Rightarrow> galaxy" where
  "setValues universeNumber firstSlot values g =
     (if universeNumber = 0 \<or> universeNumber > 63999 then g
      else if firstSlot = 0 \<or> firstSlot > 512 then g
      else if length values > 512 then g
      else
        (let g' = (case map_of g universeNumber of
                     None \<Rightarrow> createUniverseLocked universeNumber g
                   | Some _ \<Rightarrow> g) in
         case map_of g' universeNumber of
           None \<Rightarrow> g'
         | Some u \<Rightarrow> AList.update universeNumber (setFragment firstSlot values u) g'))"

record packet =
  pkt_universe :: u16
  prop_val :: "u8 list"
  seq_number :: u8

text \<open>
  One visit of the worker's \<open>for\<close>: initialise a packet, copy the state over its first 512
  property values, force the start code, take the sequence number, send.
\<close>

definition build_packet :: "u8 list \<Rightarrow> u16 \<Rightarrow> universe \<Rightarrow> packet \<times> universe" where
  "build_packet init_prop_val n u =
     (let st = getState u;
          pv = copy_at 0 st init_prop_val;
          pv = pv[0 := 0];
          (s, u') = getNextSequenceNumber u
      in (\<lparr>pkt_universe = n, prop_val = pv, seq_number = s\<rparr>, u'))"

definition worker_tick :: "u8 list \<Rightarrow> galaxy \<Rightarrow> packet list \<times> galaxy" where
  "worker_tick init_prop_val g =
     (map (\<lambda>(n, u). fst (build_packet init_prop_val n u)) g,
      map (\<lambda>(n, u). (n, snd (build_packet init_prop_val n u))) g)"

fun worker_ticks :: "u8 list \<Rightarrow> nat \<Rightarrow> galaxy \<Rightarrow> packet list list \<times> galaxy" where
  "worker_ticks ipv 0 g = ([], g)"
| "worker_ticks ipv (Suc k) g =
     (let (ps, g1) = worker_tick ipv g; (pss, g2) = worker_ticks ipv k g1 in (ps # pss, g2))"

section \<open>The event that writes\<close>

record dmx_event =
  dmx_universe :: universe_t
  channelOffset :: u32
  dmx_data :: "u8 list"

text \<open>
  \<open>DMXEvent::executeImpl\<close>. The call narrows both 32-bit numbers to the 16-bit parameters of
  \<open>setValues\<close> (an implicit conversion), before any validation.
\<close>

definition dmx_executeImpl ::
  "bool \<Rightarrow> framenum_t \<Rightarrow> dmx_event \<Rightarrow> galaxy \<Rightarrow> framenum_t result \<times> galaxy"
where
  "dmx_executeImpl has_server frame ev g =
     (if \<not> has_server then (Inl (ServerError InternalError ''DMXEvent: e131Server unavailable''), g)
      else (Inr frame, setValues (ucast (dmx_universe ev)) (ucast (channelOffset ev)) (dmx_data ev) g))"

section \<open>Invariant and frame conditions\<close>

definition galaxy_ok :: "galaxy \<Rightarrow> bool" where
  "galaxy_ok g \<longleftrightarrow> keys_ok g \<and> (\<forall>(n, u) \<in> set g. 1 \<le> n \<and> n \<le> 63999 \<and> universe_ok u)"

lemma galaxy_ok_lookup: "galaxy_ok g \<Longrightarrow> map_of g n = Some u \<Longrightarrow> universe_ok u"
  by (auto simp: galaxy_ok_def dest: map_of_SomeD)

lemma galaxy_ok_update [invariant_intros]:
  "galaxy_ok g \<Longrightarrow> 1 \<le> n \<Longrightarrow> n \<le> 63999 \<Longrightarrow> universe_ok u \<Longrightarrow> galaxy_ok (AList.update n u g)"
  unfolding galaxy_ok_def using set_update_subset [of n u g] by auto

lemma word_pos_iff_ge_one: "(n :: u16) \<noteq> 0 \<longleftrightarrow> 1 \<le> n"
  by (simp add: word_le_nat_alt Suc_le_eq unat_gt_0)

text \<open>The universe \<open>setValues\<close> writes to: the existing one, or a fresh one.\<close>

definition galaxy_at :: "galaxy \<Rightarrow> u16 \<Rightarrow> universe" where
  "galaxy_at g n = (case map_of g n of None \<Rightarrow> new_universe | Some u \<Rightarrow> u)"

lemma map_of_setValues:
  "map_of (setValues n i vs g) m =
     (if m = n \<and> n \<noteq> 0 \<and> n \<le> 63999 \<and> i \<noteq> 0 \<and> i \<le> 512 \<and> length vs \<le> 512
      then Some (setFragment i vs (galaxy_at g n)) else map_of g m)"
  by (auto simp: setValues_def createUniverseLocked_def galaxy_at_def not_less Let_def
      split: option.splits)

lemma galaxy_ok_setValues [invariant_intros]: "galaxy_ok g \<Longrightarrow> galaxy_ok (setValues n i vs g)"
  by (auto simp: setValues_def createUniverseLocked_def Let_def not_less word_pos_iff_ge_one
      intro!: galaxy_ok_update dest: galaxy_ok_lookup split: option.splits)

lemma galaxy_ok_worker_tick [invariant_intros]: "galaxy_ok g \<Longrightarrow> galaxy_ok (snd (worker_tick ipv g))"
  by (auto simp: galaxy_ok_def worker_tick_def build_packet_def getNextSequenceNumber_def universe_ok_def)

lemma galaxy_ok_destroyUniverse [invariant_intros]: "galaxy_ok g \<Longrightarrow> galaxy_ok (destroyUniverse n g)"
  using set_delete_subset [of n g] by (auto simp: galaxy_ok_def destroyUniverse_def)

section \<open>What reaches the wire\<close>

lemma galaxy_at_ok [simp]: "galaxy_ok g \<Longrightarrow> universe_ok (galaxy_at g n)"
  by (auto simp: galaxy_at_def dest: galaxy_ok_lookup split: option.splits)

lemma galaxy_at_setValues:
  "galaxy_at (setValues n i vs g) m =
     (if m = n \<and> n \<noteq> 0 \<and> n \<le> 63999 \<and> i \<noteq> 0 \<and> i \<le> 512 \<and> length vs \<le> 512
      then setFragment i vs (galaxy_at g n) else galaxy_at g m)"
  by (simp add: galaxy_at_def map_of_setValues)

lemma worker_tick_packet:
  assumes "keys_ok g" "map_of g n = Some u"
  shows "filter (\<lambda>p. pkt_universe p = n) (fst (worker_tick ipv g)) = [fst (build_packet ipv n u)]"
proof -
  have u: "pkt_universe (fst (build_packet ipv m v)) = m" for m v
    by (simp add: build_packet_def getNextSequenceNumber_def)
  show ?thesis
    using assms
  proof (induction g)
    case (Cons a g)
    obtain m v where a: "a = (m, v)" by fastforce
    have "m \<notin> fst ` set g" using Cons.prems a by (simp add: keys_ok_def)
    then have "m = n \<Longrightarrow> filter (\<lambda>p. pkt_universe p = n) (fst (worker_tick ipv g)) = []"
      by (force simp: worker_tick_def u filter_empty_conv)
    then show ?case using Cons a by (auto simp: worker_tick_def u keys_ok_def split: if_splits)
  qed simp
qed

lemma map_of_worker_tick:
  "map_of (snd (worker_tick ipv g)) n = map_option (\<lambda>u. snd (build_packet ipv n u)) (map_of g n)"
  by (simp add: worker_tick_def map_of_map_values)

lemma keys_ok_worker_tick: "keys_ok g \<Longrightarrow> keys_ok (snd (worker_tick ipv g))"
  by (simp add: worker_tick_def)

lemma prop_val_build_packet:
  assumes "universe_ok u" "UNIVERSE_SLOT_COUNT \<le> length ipv" "k < UNIVERSE_SLOT_COUNT"
  shows "prop_val (fst (build_packet ipv n u)) ! k = (if k = 0 then 0 else state u ! k)"
  using assms
  by (cases "k = 0")
    (auto simp: build_packet_def getState_def getNextSequenceNumber_def universe_ok_def nth_copy_at
      simp flip: length_greater_0_conv)

lemma state_setFragment_nth:
  "universe_ok u \<Longrightarrow> 0 < unat i \<Longrightarrow> unat i + length vs \<le> UNIVERSE_SLOT_COUNT \<Longrightarrow> k < UNIVERSE_SLOT_COUNT \<Longrightarrow>
   state (setFragment i vs u) ! k =
     (if unat i \<le> k \<and> k < unat i + length vs then vs ! (k - unat i) else state u ! k)"
  by (simp add: setFragment_in_bounds nth_copy_at universe_ok_def)

text \<open>
  a DMX write reaches the wire. After \<open>setValues\<close> of a fragment that fits, the next tick
  of the worker sends exactly one packet for that universe; its property values are the
  fragment in the fragment's slots, the previous state in all other slots, and zero in the
  start code; and the packets of every other universe are those of an undisturbed tick.
\<close>

theorem setValues_reaches_wire:
  assumes "galaxy_ok g" "UNIVERSE_SLOT_COUNT \<le> length ipv"
    and "1 \<le> n" "n \<le> 63999" "1 \<le> i" "unat i + length vs \<le> UNIVERSE_SLOT_COUNT"
  shows "(\<exists>p. filter (\<lambda>p. pkt_universe p = n) (fst (worker_tick ipv (setValues n i vs g))) = [p] \<and>
            (\<forall>k < UNIVERSE_SLOT_COUNT. prop_val p ! k =
               (if k = 0 then 0
                else if unat i \<le> k \<and> k < unat i + length vs then vs ! (k - unat i)
                else state (galaxy_at g n) ! k))) \<and>
         (\<forall>m u. m \<noteq> n \<longrightarrow> map_of g m = Some u \<longrightarrow>
            filter (\<lambda>p. pkt_universe p = m) (fst (worker_tick ipv (setValues n i vs g))) =
            filter (\<lambda>p. pkt_universe p = m) (fst (worker_tick ipv g)))"
proof (intro conjI allI impI)
  let ?g = "setValues n i vs g" and ?u = "setFragment i vs (galaxy_at g n)"
  have i: "0 < unat i" "i \<noteq> 0" "i \<le> 512" "length vs \<le> 512"
    using assms(5,6) by (auto simp: UNIVERSE_SLOT_COUNT_def word_le_nat_alt)
  have keys: "keys_ok ?g" using galaxy_ok_setValues [OF assms(1)] by (simp add: galaxy_ok_def)
  have u: "map_of ?g n = Some ?u"
    using assms(3,4) i by (simp add: map_of_setValues word_pos_iff_ge_one)
  have ok: "universe_ok (galaxy_at g n)" using assms(1) by simp
  show "\<exists>p. filter (\<lambda>p. pkt_universe p = n) (fst (worker_tick ipv ?g)) = [p] \<and>
      (\<forall>k < UNIVERSE_SLOT_COUNT. prop_val p ! k =
        (if k = 0 then 0
         else if unat i \<le> k \<and> k < unat i + length vs then vs ! (k - unat i)
         else state (galaxy_at g n) ! k))"
    using assms(2,6) i(1) ok
    by (auto simp: worker_tick_packet [OF keys u] prop_val_build_packet state_setFragment_nth)
next
  fix m u assume "m \<noteq> n" "map_of g m = Some u"
  moreover from this have "map_of (setValues n i vs g) m = Some u" by (simp add: map_of_setValues)
  moreover have "keys_ok g" "keys_ok (setValues n i vs g)"
    using assms(1) galaxy_ok_setValues [OF assms(1)] by (auto simp: galaxy_ok_def)
  ultimately show "filter (\<lambda>p. pkt_universe p = m) (fst (worker_tick ipv (setValues n i vs g))) =
      filter (\<lambda>p. pkt_universe p = m) (fst (worker_tick ipv g))"
    by (simp add: worker_tick_packet)
qed

theorem setValues_reaches_wire_witness:
  "\<exists>p. filter (\<lambda>p. pkt_universe p = 3)
         (fst (worker_tick (replicate 513 0) (setValues 3 7 [10, 20] [(4, new_universe)]))) = [p] \<and>
       prop_val p ! 8 = 20"
proof -
  have "galaxy_ok [(4, new_universe)]" by (simp add: galaxy_ok_def keys_ok_def)
  from setValues_reaches_wire [OF this, of "replicate 513 0" 3 7 "[10, 20]"]
  obtain p where "filter (\<lambda>p. pkt_universe p = 3)
         (fst (worker_tick (replicate 513 0) (setValues 3 7 [10, 20] [(4, new_universe)]))) = [p]"
     "\<forall>k < UNIVERSE_SLOT_COUNT. prop_val p ! k =
               (if k = 0 then 0
                else if unat (7 :: u16) \<le> k \<and> k < unat (7 :: u16) + length [10, 20 :: u8]
                then [10, 20] ! (k - unat (7 :: u16))
                else state (galaxy_at [(4, new_universe)] 3) ! k)"
    by (auto simp: UNIVERSE_SLOT_COUNT_def)
  then show ?thesis by (intro exI [of _ p]) (simp add: UNIVERSE_SLOT_COUNT_def)
qed

text \<open>
  sequence numbers. Over any number of ticks, each universe gets exactly one packet per
  tick, and the j-th carries the universe's starting sequence number plus j modulo 256.
\<close>

theorem sequence_numbers_consecutive:
  assumes "keys_ok g" "map_of g n = Some u" "j < k"
  shows "map seq_number (filter (\<lambda>p. pkt_universe p = n) (fst (worker_ticks ipv k g) ! j)) =
    [sequenceNumber u + of_nat j]"
  using assms
proof (induction k arbitrary: g u j)
  case (Suc k)
  obtain ps g1 where t: "worker_tick ipv g = (ps, g1)" by fastforce
  have ps: "filter (\<lambda>p. pkt_universe p = n) ps = [fst (build_packet ipv n u)]"
    using worker_tick_packet [OF Suc.prems(1,2), of ipv] t by simp
  have g1: "keys_ok g1" "map_of g1 n = Some (snd (build_packet ipv n u))"
    using keys_ok_worker_tick [OF Suc.prems(1), of ipv] map_of_worker_tick [of ipv g n] t
      Suc.prems(2) by auto
  show ?case
  proof (cases j)
    case 0
    then show ?thesis
      by (simp add: t ps case_prod_unfold Let_def build_packet_def getNextSequenceNumber_def)
  next
    case (Suc j')
    then show ?thesis
      using Suc.IH [OF g1, of j'] Suc.prems(3)
      by (simp add: t case_prod_unfold Let_def build_packet_def getNextSequenceNumber_def)
  qed
qed simp

theorem sequence_numbers_consecutive_witness:
  "map seq_number (filter (\<lambda>p. pkt_universe p = 5)
     (fst (worker_ticks [] 3 [(5, \<lparr>sequenceNumber = 254, state = []\<rparr>)]) ! 2)) = [0]"
  using sequence_numbers_consecutive [of "[(5, \<lparr>sequenceNumber = 254, state = []\<rparr>)]" 5
      "\<lparr>sequenceNumber = 254, state = []\<rparr>" 2 3 "[]"]
  by (simp add: keys_ok_def del: worker_ticks.simps)

end
