(* ===== verification/Event_Loop.thy ===== *)
theory Event_Loop
  imports Prelude "HOL-Library.Multiset"
begin

text \<open>
  The event loop of src/src/server/eventloop: the queue of \<open>EventScheduler\<close> (event.h), and
  one iteration of \<open>EventLoop::run\<close> (eventloop.cpp). An event is its frame number and a body;
  what \<open>execute()\<close> does is the argument \<open>exec\<close>, which returns the events it schedules and
  the new state of the rest of the server (an exception is caught by the loop, so it is an
  execution that stopped early). \<open>std::priority_queue\<close> leaves the order of equal frame
  numbers unspecified: \<open>pops\<close> allows every choice, \<open>top_event\<close> makes one.
\<close>

section \<open>The queue\<close>

type_synonym 'e event = "framenum_t \<times> 'e"

record 'e event_loop =
  frameCount :: framenum_t
  event_queue :: "'e event list"

text \<open>\<open>EventComparator\<close>: the priority queue's "less", so that smaller frames come first.\<close>

definition event_comparator :: "'e event \<Rightarrow> 'e event \<Rightarrow> bool" where
  "event_comparator e1 e2 \<longleftrightarrow> fst e1 > fst e2"

definition scheduleEvent :: "'e event option \<Rightarrow> 'e event_loop \<Rightarrow> 'e event_loop" where
  "scheduleEvent e l = (case e of
     None \<Rightarrow> l
   | Some ev \<Rightarrow> l\<lparr>event_queue := ev # event_queue l\<rparr>)"

definition getCurrentFrameNumber :: "'e event_loop \<Rightarrow> framenum_t" where
  "getCurrentFrameNumber l = frameCount l"

definition getNextFrameNumber :: "'e event_loop \<Rightarrow> framenum_t" where
  "getNextFrameNumber l = frameCount l + 1"

definition getQueueSize :: "'e event_loop \<Rightarrow> u32" where
  "getQueueSize l = word_of_nat (length (event_queue l))"

text \<open>\<open>pops q e q'\<close>: \<open>top()\<close> followed by \<open>pop()\<close> may return \<open>e\<close> and leave \<open>q'\<close>.\<close>

inductive pops :: "'e event list \<Rightarrow> 'e event \<Rightarrow> 'e event list \<Rightarrow> bool" where
  pop_top: "e \<in> set q \<Longrightarrow> \<forall>e' \<in> set q. \<not> event_comparator e e' \<Longrightarrow> pops q e (remove1 e q)"

inductive_cases pops_elim: "pops q e q'"

definition top_event :: "'e event list \<Rightarrow> 'e event option" where
  "top_event q = (case q of [] \<Rightarrow> None | _ \<Rightarrow> Some (arg_min_list fst q))"

lemma top_event_None [simp]: "top_event q = None \<longleftrightarrow> q = []"
  by (simp add: top_event_def split: list.splits)

lemma arg_min_list_least: "e' \<in> set q \<Longrightarrow> fst (arg_min_list fst q) \<le> fst e'"
  by (subst f_arg_min_list_f) auto

lemma top_event_pops:
  assumes "top_event q = Some e"
  shows "pops q e (remove1 e q)"
proof -
  have "q \<noteq> []" "e = arg_min_list fst q"
    using assms by (auto simp: top_event_def split: list.splits)
  then show ?thesis
    using arg_min_list_in [of q fst] arg_min_list_least [of _ q]
    by (intro pop_top) (auto simp: event_comparator_def not_less)
qed

lemma pops_mset: "pops q e q' \<Longrightarrow> mset q = add_mset e (mset q')"
  by (auto elim!: pops_elim)

lemma pops_least: "pops q e q' \<Longrightarrow> e' \<in> set q \<Longrightarrow> fst e \<le> fst e'"
  by (auto elim!: pops_elim simp: event_comparator_def not_less)

section \<open>One iteration of the loop\<close>

text \<open>
  The inner \<open>while (true)\<close>: pop the top event while its frame is due, execute it, push what
  it schedules. \<open>drain_step\<close> is one turn; \<open>drain\<close> is the loop with \<open>top_event\<close>'s choice.
  A turn may schedule further due events, so the loop need not end: \<open>drain\<close> is a partial
  function, and \<open>drains\<close> relates the states before and after a loop that did end, with
  the trace of executed events and the list of events scheduled on the way.
\<close>

type_synonym ('e, 'w) executor = "'e event \<Rightarrow> 'w \<Rightarrow> 'e event list \<times> 'w"

partial_function (option) drain ::
  "('e, 'w) executor \<Rightarrow> framenum_t \<Rightarrow> 'e event list \<Rightarrow> 'w \<Rightarrow> ('e event list \<times> 'w) option"
where
  "drain exec cur q w = (case top_event q of
     None \<Rightarrow> Some (q, w)
   | Some e \<Rightarrow>
       if fst e \<le> cur then
         (case exec e w of (new, w') \<Rightarrow> drain exec cur (new @ remove1 e q) w')
       else Some (q, w))"

definition run_frame ::
  "('e, 'w) executor \<Rightarrow> 'e event_loop \<Rightarrow> 'w \<Rightarrow> ('e event_loop \<times> 'w) option"
where
  "run_frame exec l w = (let cur = frameCount l + 1 in
     map_option (\<lambda>(q, w'). (\<lparr>frameCount = cur, event_queue = q\<rparr>, w'))
       (drain exec cur (event_queue l) w))"

inductive drains ::
  "('e, 'w) executor \<Rightarrow> framenum_t \<Rightarrow> 'e event list \<Rightarrow> 'w \<Rightarrow> 'e event list \<Rightarrow>
   'e event list \<Rightarrow> 'e event list \<Rightarrow> 'w \<Rightarrow> bool"
  for exec cur
where
  drained: "\<forall>e \<in> set q. cur < fst e \<Longrightarrow> drains exec cur q w [] [] q w"
| turn: "pops q e q1 \<Longrightarrow> fst e \<le> cur \<Longrightarrow> exec e w = (new, w1) \<Longrightarrow>
    drains exec cur (new @ q1) w1 tr sch q' w' \<Longrightarrow>
    drains exec cur q w (e # tr) (new @ sch) q' w'"

lemma drain_top_due: "top_event q = Some e \<Longrightarrow> \<not> fst e \<le> cur \<Longrightarrow> \<forall>e' \<in> set q. cur < fst e'"
  using pops_least [OF top_event_pops] by (meson less_le_trans not_le)

section \<open>Termination\<close>

text \<open>
  A handler is well behaved for the drain loop when the events it schedules that are
  already due have a smaller rank than the event that scheduled them. The locale states
  that contract; the loop then always returns, whatever the ties.
\<close>

locale ranked_executor =
  fixes exec :: "('e, 'w) executor"
    and cur :: framenum_t
    and rank :: "'e event \<Rightarrow> nat"
  assumes rank_decreases:
    "exec e w = (new, w') \<Longrightarrow> fst e \<le> cur \<Longrightarrow> e' \<in> set new \<Longrightarrow> fst e' \<le> cur \<Longrightarrow> rank e' < rank e"
begin

definition due_ranks :: "'e event list \<Rightarrow> nat multiset" where
  "due_ranks q = image_mset rank (filter_mset (\<lambda>e. fst e \<le> cur) (mset q))"

lemma due_ranks_turn:
  assumes "pops q e q1" "fst e \<le> cur" "exec e w = (new, w')"
  shows "(due_ranks (new @ q1), due_ranks q) \<in> mult {(x, y). x < y}"
proof -
  let ?N = "image_mset rank (filter_mset (\<lambda>e. fst e \<le> cur) (mset new))"
  have q: "due_ranks q = due_ranks q1 + {#rank e#}"
    using pops_mset [OF assms(1)] assms(2) by (simp add: due_ranks_def)
  have n: "due_ranks (new @ q1) = due_ranks q1 + ?N"
    by (simp add: due_ranks_def add.commute)
  have "\<forall>k \<in> set_mset ?N. \<exists>j \<in> set_mset {#rank e#}. (k, j) \<in> {(x, y). x < y}"
    using rank_decreases [OF assms(3,2)] by auto
  then show ?thesis
    unfolding q n by (intro one_step_implies_mult) auto
qed

lemma drain_returns: "\<exists>q' w'. drain exec cur q w = Some (q', w')"
proof (induction "due_ranks q" arbitrary: q w rule: wf_induct_rule [OF wf_mult [OF wf_less]])
  case (1 q)
  show ?case
  proof (cases "top_event q")
    case None
    then show ?thesis by (subst drain.simps) (simp only: option.simps ex_simps, blast)
  next
    case (Some e)
    obtain new w1 where ex: "exec e w = (new, w1)" by fastforce
    show ?thesis
    proof (cases "fst e \<le> cur")
      case True
      have "(due_ranks (new @ remove1 e q), due_ranks q) \<in> mult {(x, y). x < y}"
        by (rule due_ranks_turn [OF top_event_pops [OF Some] True ex])
      then show ?thesis
        using 1 [of "new @ remove1 e q" w1] Some True ex by (subst drain.simps) simp
    next
      case False
      with Some show ?thesis by (subst drain.simps) simp
    qed
  qed
qed

lemma drain_drains:
  "\<exists>tr sch q' w'. drain exec cur q w = Some (q', w') \<and> drains exec cur q w tr sch q' w'"
proof (induction "due_ranks q" arbitrary: q w rule: wf_induct_rule [OF wf_mult [OF wf_less]])
  case (1 q)
  show ?case
  proof (cases "top_event q")
    case None
    then have q: "q = []" by simp
    have "drain exec cur q w = Some (q, w)" "drains exec cur q w [] [] q w"
      by (subst drain.simps, simp add: q top_event_def) (auto intro: drained simp: q)
    then show ?thesis by blast
  next
    case (Some e)
    obtain new w1 where ex: "exec e w = (new, w1)" by fastforce
    note pp = top_event_pops [OF Some]
    show ?thesis
    proof (cases "fst e \<le> cur")
      case True
      obtain tr sch q' w' where
        "drain exec cur (new @ remove1 e q) w1 = Some (q', w')"
        "drains exec cur (new @ remove1 e q) w1 tr sch q' w'"
        using 1 [OF due_ranks_turn [OF pp True ex]] by blast
      then show ?thesis
        using turn [OF pp True, of exec, OF ex] Some True ex by (subst drain.simps) fastforce
    next
      case False
      then show ?thesis
        using drained [OF drain_top_due [OF Some False]] Some by (subst drain.simps) fastforce
    qed
  qed
qed

end

section \<open>What a finished drain guarantees\<close>

text \<open>
  the loop loses no event and runs none twice. Whatever the choice among equal frame
  numbers, when the inner loop of \<open>EventLoop::run\<close> ends, the events executed and the events
  left in the queue are together exactly the events that were queued and the events that
  were scheduled meanwhile; every executed event was due; and no due event is left.
\<close>

theorem drain_conserves_events:
  assumes "drains exec cur q w tr sch q' w'"
  shows "mset q + mset sch = mset tr + mset q' \<and> (\<forall>e \<in> set tr. fst e \<le> cur) \<and>
    (\<forall>e \<in> set q'. cur < fst e)"
  using assms
proof (induction rule: drains.induct)
  case (drained q w)
  then show ?case by simp
next
  case (turn q e q1 w new w1 tr sch q' w')
  then show ?case using pops_mset [OF turn.hyps(1)] by (auto simp: ac_simps)
qed

definition demo_exec :: "(string, string list) executor" where
  "demo_exec e w = (if snd e = ''a'' then [(fst e + 5, ''c'')] else [], w @ [snd e])"

theorem drain_conserves_events_witness:
  "mset [(3, ''a''), (9, ''b'')] + mset [(8, ''c'')] =
     mset [(3, ''a'')] + mset [(8, ''c''), (9 :: framenum_t, ''b'')] \<and>
   list_all (\<lambda>e. fst e \<le> 4) [(3 :: framenum_t, ''a'')] \<and>
   list_all (\<lambda>e. 4 < fst e) [(8, ''c''), (9 :: framenum_t, ''b'')]"
proof -
  have "pops [(3 :: framenum_t, ''a''), (9, ''b'')] (3, ''a'')
      (remove1 (3, ''a'') [(3, ''a''), (9, ''b'')])"
    by (rule pop_top) (simp_all add: event_comparator_def)
  then have p: "pops [(3 :: framenum_t, ''a''), (9, ''b'')] (3, ''a'') [(9, ''b'')]" by simp
  have "drains demo_exec 4 [(3, ''a''), (9, ''b'')] [] ((3, ''a'') # []) ([(8, ''c'')] @ [])
      [(8, ''c''), (9, ''b'')] [''a'']"
    by (rule turn [OF p, of 4 demo_exec "[]" _ "[''a'']"]) (auto simp: demo_exec_def intro!: drained)
  then show ?thesis using drain_conserves_events by (fastforce simp: list_all_iff)
qed

text \<open>
  events run in frame order. If no event schedules anything for a frame before its own
  (the server's events use their own frame, the next frame or later ones), then one drain
  executes events in non-decreasing frame order, so a DMX write of an earlier frame never
  lands after one of a later frame.
\<close>

theorem drain_in_frame_order:
  assumes "drains exec cur q w tr sch q' w'"
    and "\<forall>e w new w'. exec e w = (new, w') \<longrightarrow> (\<forall>e' \<in> set new. fst e \<le> fst e')"
  shows "sorted (map fst tr)"
proof -
  have "sorted (map fst tr) \<and> (\<forall>b. (\<forall>e \<in> set q. b \<le> fst e) \<longrightarrow> (\<forall>e \<in> set tr. b \<le> fst e))"
    using assms(1)
  proof (induction rule: drains.induct)
    case (drained q w)
    then show ?case by simp
  next
    case (turn q e q1 w new w1 tr sch q' w')
    have new: "\<forall>e' \<in> set new. fst e \<le> fst e'" using assms(2) turn.hyps(3) by blast
    have sub: "set q1 \<subseteq> set q" "e \<in> set q"
      using pops_mset [OF turn.hyps(1)] by (auto dest!: mset_eq_setD [where xs = q and ys = "e # q1", simplified])
    have "\<forall>e' \<in> set (new @ q1). fst e \<le> fst e'"
      using new pops_least [OF turn.hyps(1)] sub by auto
    then have "\<forall>e' \<in> set tr. fst e \<le> fst e'" using turn.IH by blast
    then show ?case using turn.IH sub by fastforce
  qed
  then show ?thesis by blast
qed

theorem drain_in_frame_order_witness:
  "sorted (map fst [(3 :: framenum_t, ''a''), (4, ''b'')])"
proof -
  have "pops [(4 :: framenum_t, ''b''), (3, ''a'')] (3, ''a'')
      (remove1 (3, ''a'') [(4, ''b''), (3, ''a'')])"
    by (rule pop_top) (simp_all add: event_comparator_def)
  then have p: "pops [(4 :: framenum_t, ''b''), (3, ''a'')] (3, ''a'') [(4, ''b'')]" by simp
  have "pops [(4 :: framenum_t, ''b'')] (4, ''b'') (remove1 (4, ''b'') [(4, ''b'')])"
    by (rule pop_top) (simp_all add: event_comparator_def)
  then have p2: "pops [(4 :: framenum_t, ''b'')] (4, ''b'') []" by simp
  let ?exec = "\<lambda>e (w :: string list). ([] :: string event list, w @ [snd e])"
  have "drains ?exec 4 [(4, ''b'')] [''a''] [(4, ''b'')] ([] @ []) [] [''a'', ''b'']"
    by (rule turn [OF p2, of 4 ?exec "[''a'']" _ "[''a'', ''b'']"]) (auto intro!: drained)
  then have "drains ?exec 4 [(4, ''b''), (3, ''a'')] [] [(3, ''a''), (4, ''b'')] ([] @ []) [] [''a'', ''b'']"
    by (intro turn [OF p, of 4 ?exec "[]" _ "[''a'']"]) auto
  then show ?thesis by (rule drain_in_frame_order) auto
qed

end
