(* ===== verification/Session_Manager.thy ===== *)
theory Session_Manager
  imports Playback_Session Activity Dmx_Universe Event_Loop Rtp_Coordination
begin

text \<open>
  \<open>SessionManager\<close> (src/src/server/animation/SessionManager.cpp): the registry of active
  sessions per universe, the adoption that cancels conflicting sessions and registers the
  new one, the playlist state machine and the animation queue. Each operation is a function
  on the \<open>world\<close>: the session heap, the registry, the runtime store (Activity), the event
  loop's current frame and the events scheduled. What the code does under its mutex is one
  step; the notifications sent after the lock is released follow in the same order.
  (\<open>interrupt\<close> and \<open>interruptIdleOnly\<close> call the scheduler and are in theory Scheduler.)
\<close>

section \<open>State\<close>

text \<open>The bodies of the events the playback code schedules; a session is its heap address.\<close>

datatype server_event =
    RunnerEvent nat
  | DmxWrite dmx_event
  | AnimationLight bool
  | FixtureTick
  | AutoStop fixtureId_t
  | PlaylistTick universe_t
  | RtpReset rtp_lease async_trace
  | RtpSilent rtp_lease u8 async_trace
  | StreamTimeout creatureId_t u32
  | StreamRunner nat

datatype playlist_state = PlNone | PlActive | PlInterrupted | PlStopped

record universe_state =
  activeSessions :: "nat list"
  playlistState :: playlist_state
  shouldResumePlaylist :: bool
  playlistId :: string
  playlistStatus :: "playlist_status option"
  animationQueue :: "animation list"

record 't world =
  heap :: "'t session list"
  universeStates :: "(universe_t \<times> universe_state) list"
  nextActivityGeneration :: u64
  services :: service
  eventLoop :: "framenum_t option"
  outbox :: "server_event event list"

definition new_universe_state :: universe_state where
  "new_universe_state = \<lparr>activeSessions = [], playlistState = PlNone, shouldResumePlaylist = False,
     playlistId = [], playlistStatus = None, animationQueue = []\<rparr>"

text \<open>\<open>universeStates_[u]\<close> creates the default entry; writing the entry is \<open>put_universe\<close>.\<close>

definition universe_at :: "('t, 'a) world_scheme \<Rightarrow> universe_t \<Rightarrow> universe_state" where
  "universe_at W u = (case map_of (universeStates W) u of None \<Rightarrow> new_universe_state | Some st \<Rightarrow> st)"

definition put_universe :: "universe_t \<Rightarrow> universe_state \<Rightarrow> ('t, 'a) world_scheme \<Rightarrow> ('t, 'a) world_scheme" where
  "put_universe u st W = W\<lparr>universeStates := AList.update u st (universeStates W)\<rparr>"

definition erase_universe :: "universe_t \<Rightarrow> ('t, 'a) world_scheme \<Rightarrow> ('t, 'a) world_scheme" where
  "erase_universe u W = W\<lparr>universeStates := AList.delete u (universeStates W)\<rparr>"

definition schedule_event :: "framenum_t \<Rightarrow> server_event \<Rightarrow> ('t, 'a) world_scheme \<Rightarrow> ('t, 'a) world_scheme" where
  "schedule_event f e W = W\<lparr>outbox := outbox W @ [(f, e)]\<rparr>"

section \<open>Conflicts and cancellation\<close>

definition sessionHasCreature :: "'t session \<Rightarrow> creatureId_t \<Rightarrow> bool" where
  "sessionHasCreature s c \<longleftrightarrow> c \<noteq> [] \<and> c \<in> set (creatureIds s)"

definition overlaps :: "creatureId_t list \<Rightarrow> 't session \<Rightarrow> bool" where
  "overlaps lhs s \<longleftrightarrow> list_ex (\<lambda>c. c \<in> set lhs) (creatureIds s)"

definition sessionsConflict :: "'t session \<Rightarrow> 't session \<Rightarrow> bool" where
  "sessionsConflict a b \<longleftrightarrow>
     list_ex (\<lambda>c. c \<in> set (creatureIds a)) (creatureIds b) \<or>
     list_ex (\<lambda>f. f \<in> set (fixtureIds a)) (fixtureIds b)"

definition cancelSessionLocked :: "'t session \<Rightarrow> 't session" where
  "cancelSessionLocked s = markCancellationNotified (cancel s)"

text \<open>
  The cancellation loop over \<open>activeSessions\<close>: a session that matches is flagged and leaves
  the list, the others survive. Results: the heap, the cancelled ones, the survivors.
\<close>

fun cancel_where ::
  "('t session \<Rightarrow> bool) \<Rightarrow> nat list \<Rightarrow> 't session list \<Rightarrow> 't session list \<times> nat list \<times> nat list"
where
  "cancel_where P [] H = (H, [], [])"
| "cancel_where P (r # rs) H =
     (if P (H ! r) then
        (let (H', c, sv) = cancel_where P rs (H[r := cancelSessionLocked (H ! r)]) in (H', r # c, sv))
      else (let (H', c, sv) = cancel_where P rs H in (H', c, r # sv)))"

definition scheduleImmediateTeardown :: "nat \<Rightarrow> ('t, 'a) world_scheme \<Rightarrow> ('t, 'a) world_scheme" where
  "scheduleImmediateTeardown r W = (case eventLoop W of
     None \<Rightarrow> W
   | Some cur \<Rightarrow> schedule_event (cur + 1) (RunnerEvent r) W)"

definition notifyCancelledSession ::
  "service_env \<Rightarrow> nat \<Rightarrow> ('t, 'a) world_scheme \<Rightarrow> ('t, 'a) world_scheme"
where
  "notifyCancelledSession env r W =
     (let s = heap W ! r;
          S1 = (if activityReason s = ReasonIdle
                then incrementIdleStopped (env_now env) (creatureIds s) (services W) else services W);
          S2 = snd (setActivityState env (creatureIds s)
                 \<lparr>w_animation = anim_id (s_animation s), w_reason = Cancelled, w_state = Stopped,
                  w_session = sessionId s, w_generation = activityGeneration s\<rparr> S1)
      in scheduleImmediateTeardown r (W\<lparr>services := S2\<rparr>))"

definition notify_all :: "service_env \<Rightarrow> nat list \<Rightarrow> ('t, 'a) world_scheme \<Rightarrow> ('t, 'a) world_scheme" where
  "notify_all env rs W = fold (notifyCancelledSession env) rs W"

section \<open>Adoption\<close>

text \<open>The critical section of \<open>registerSession\<close>, with the sessions it cancelled.\<close>

definition adopt_locked ::
  "universe_t \<Rightarrow> nat \<Rightarrow> bool \<Rightarrow> bool \<Rightarrow> ('t, 'a) world_scheme \<Rightarrow> nat list \<times> ('t, 'a) world_scheme"
where
  "adopt_locked u r isPlaylist cancelEntireUniverse W =
     (let g = nextActivityGeneration W;
          H = (heap W)[r := setActivityGeneration g (heap W ! r)];
          W1 = W\<lparr>heap := H, nextActivityGeneration := g + 1\<rparr>
      in case map_of (universeStates W1) u of
           Some st \<Rightarrow>
             (let (H', cs, survivors) = cancel_where
                    (\<lambda>e. \<not> cancelled e \<and> (cancelEntireUniverse \<or> sessionsConflict (H ! r) e))
                    (activeSessions st) H;
                  st' = st\<lparr>activeSessions := survivors @ [r]\<rparr>;
                  st'' = (if isPlaylist then st'\<lparr>playlistState := PlActive\<rparr> else st')
              in (cs, put_universe u st'' (W1\<lparr>heap := H'\<rparr>)))
         | None \<Rightarrow>
             ([], put_universe u (new_universe_state\<lparr>activeSessions := [r],
                    playlistState := (if isPlaylist then PlActive else PlNone)\<rparr>) W1))"

definition registerSession ::
  "service_env \<Rightarrow> universe_t \<Rightarrow> nat option \<Rightarrow> bool \<Rightarrow> bool \<Rightarrow> ('t, 'a) world_scheme \<Rightarrow> ('t, 'a) world_scheme"
where
  "registerSession env u session isPlaylist cancelEntireUniverse W = (case session of
     None \<Rightarrow> W
   | Some r \<Rightarrow>
       (let (cancelledSessions, W1) = adopt_locked u r isPlaylist cancelEntireUniverse W in
        notify_all env cancelledSessions W1))"

text \<open>The other cancelling operations share the loop: \<open>P\<close> selects, within universe \<open>u\<close>.\<close>

definition cancel_matching ::
  "service_env \<Rightarrow> universe_t \<Rightarrow> ('t session \<Rightarrow> bool) \<Rightarrow> universe_state \<Rightarrow> ('t, 'a) world_scheme \<Rightarrow>
   nat list \<times> ('t, 'a) world_scheme"
where
  "cancel_matching env u P st W =
     (let (H', cs, survivors) = cancel_where P (activeSessions st) (heap W) in
      (cs, notify_all env cs (put_universe u (st\<lparr>activeSessions := survivors\<rparr>) (W\<lparr>heap := H'\<rparr>))))"

definition cancelSessionsForCreatures ::
  "service_env \<Rightarrow> universe_t \<Rightarrow> creatureId_t list \<Rightarrow> ('t, 'a) world_scheme \<Rightarrow> ('t, 'a) world_scheme"
where
  "cancelSessionsForCreatures env u toCancel W = (case map_of (universeStates W) u of
     None \<Rightarrow> W
   | Some st \<Rightarrow> snd (cancel_matching env u (\<lambda>s. overlaps toCancel s \<and> \<not> cancelled s) st W))"

definition cancelIdleSessionForCreature ::
  "service_env \<Rightarrow> universe_t \<Rightarrow> creatureId_t \<Rightarrow> ('t, 'a) world_scheme \<Rightarrow> bool \<times> ('t, 'a) world_scheme"
where
  "cancelIdleSessionForCreature env u c W = (case map_of (universeStates W) u of
     None \<Rightarrow> (False, W)
   | Some st \<Rightarrow>
       (let (cs, W') = cancel_matching env u
              (\<lambda>s. \<not> cancelled s \<and> activityReason s = ReasonIdle \<and> sessionHasCreature s c) st W
        in (cs \<noteq> [], W')))"

section \<open>Queries\<close>

definition getCurrentSession :: "('t, 'a) world_scheme \<Rightarrow> universe_t \<Rightarrow> nat option" where
  "getCurrentSession W u = (case map_of (universeStates W) u of
     None \<Rightarrow> None
   | Some st \<Rightarrow> find (\<lambda>r. \<not> cancelled (heap W ! r)) (rev (activeSessions st)))"

definition getActiveSessions :: "('t, 'a) world_scheme \<Rightarrow> universe_t \<Rightarrow> nat list" where
  "getActiveSessions W u = (case map_of (universeStates W) u of None \<Rightarrow> [] | Some st \<Rightarrow> activeSessions st)"

definition hasActiveSessionForCreature :: "('t, 'a) world_scheme \<Rightarrow> universe_t \<Rightarrow> creatureId_t \<Rightarrow> bool" where
  "hasActiveSessionForCreature W u c = (case map_of (universeStates W) u of
     None \<Rightarrow> False
   | Some st \<Rightarrow> list_ex (\<lambda>r. \<not> cancelled (heap W ! r) \<and> sessionHasCreature (heap W ! r) c) (activeSessions st))"

definition isPlaying :: "('t, 'a) world_scheme \<Rightarrow> universe_t \<Rightarrow> bool" where
  "isPlaying W u = (case map_of (universeStates W) u of
     None \<Rightarrow> False
   | Some st \<Rightarrow> list_ex (\<lambda>r. \<not> cancelled (heap W ! r)) (activeSessions st))"

definition hasActiveNonIdleSession :: "('t, 'a) world_scheme \<Rightarrow> universe_t \<Rightarrow> bool" where
  "hasActiveNonIdleSession W u = (case map_of (universeStates W) u of
     None \<Rightarrow> False
   | Some st \<Rightarrow> list_ex (\<lambda>r. \<not> cancelled (heap W ! r) \<and> activityReason (heap W ! r) \<noteq> ReasonIdle)
       (activeSessions st))"

definition hasActiveNonIdleSessionForCreature ::
  "('t, 'a) world_scheme \<Rightarrow> universe_t \<Rightarrow> creatureId_t \<Rightarrow> bool"
where
  "hasActiveNonIdleSessionForCreature W u c = (case map_of (universeStates W) u of
     None \<Rightarrow> False
   | Some st \<Rightarrow> list_ex (\<lambda>r. \<not> cancelled (heap W ! r) \<and> activityReason (heap W ! r) \<noteq> ReasonIdle \<and>
       sessionHasCreature (heap W ! r) c) (activeSessions st))"

definition hasInterruptedPlaylist :: "('t, 'a) world_scheme \<Rightarrow> universe_t \<Rightarrow> bool" where
  "hasInterruptedPlaylist W u = (case map_of (universeStates W) u of
     None \<Rightarrow> False | Some st \<Rightarrow> playlistState st = PlInterrupted)"

definition getPlaylistState :: "('t, 'a) world_scheme \<Rightarrow> universe_t \<Rightarrow> playlist_state" where
  "getPlaylistState W u = (case map_of (universeStates W) u of
     None \<Rightarrow> PlNone | Some st \<Rightarrow> playlistState st)"

definition getPlaylistStatus :: "('t, 'a) world_scheme \<Rightarrow> universe_t \<Rightarrow> playlist_status option" where
  "getPlaylistStatus W u = (case map_of (universeStates W) u of
     None \<Rightarrow> None
   | Some st \<Rightarrow> map_option (\<lambda>ps. ps\<lparr>ps_universe := u\<rparr>) (playlistStatus st))"

definition getAllPlaylistStatuses :: "('t, 'a) world_scheme \<Rightarrow> playlist_status list" where
  "getAllPlaylistStatuses W = List.map_filter
     (\<lambda>(u, st). map_option (\<lambda>ps. ps\<lparr>ps_universe := u\<rparr>) (playlistStatus st))
     (sort_key fst (universeStates W))"

section \<open>Playlists\<close>

definition mark_playing :: "bool \<Rightarrow> universe_state \<Rightarrow> universe_state" where
  "mark_playing b st = st\<lparr>playlistStatus := map_option
     (\<lambda>ps. if b then ps\<lparr>playing := True\<rparr> else ps\<lparr>playing := False, current_animation := []\<rparr>) (playlistStatus st)\<rparr>"

definition resumePlaylist :: "universe_t \<Rightarrow> ('t, 'a) world_scheme \<Rightarrow> bool \<times> ('t, 'a) world_scheme" where
  "resumePlaylist u W = (case map_of (universeStates W) u of
     None \<Rightarrow> (False, W)
   | Some st \<Rightarrow>
       if playlistState st \<noteq> PlInterrupted then (False, W)
       else (True, put_universe u
              (mark_playing True (st\<lparr>playlistState := PlActive, shouldResumePlaylist := False\<rparr>)) W))"

definition consumeInterruptResumeDecision ::
  "universe_t \<Rightarrow> ('t, 'a) world_scheme \<Rightarrow> bool \<times> ('t, 'a) world_scheme"
where
  "consumeInterruptResumeDecision u W = (case map_of (universeStates W) u of
     None \<Rightarrow> (False, W)
   | Some st \<Rightarrow>
       if playlistState st \<noteq> PlInterrupted then (False, W)
       else if shouldResumePlaylist st then
         (True, put_universe u
            (mark_playing True (st\<lparr>playlistState := PlActive, shouldResumePlaylist := False\<rparr>)) W)
       else (False, put_universe u (mark_playing False (st\<lparr>playlistState := PlStopped\<rparr>)) W))"

definition stopPlaylist :: "service_env \<Rightarrow> universe_t \<Rightarrow> ('t, 'a) world_scheme \<Rightarrow> ('t, 'a) world_scheme" where
  "stopPlaylist env u W = (case map_of (universeStates W) u of
     None \<Rightarrow> W
   | Some st \<Rightarrow>
       if playlistState st \<noteq> PlActive \<and> playlistState st \<noteq> PlInterrupted then W
       else snd (cancel_matching env u (\<lambda>s. activityReason s = Playlist \<and> \<not> cancelled s)
              (mark_playing False (st\<lparr>playlistState := PlStopped, shouldResumePlaylist := False\<rparr>)) W))"

definition startPlaylist :: "universe_t \<Rightarrow> string \<Rightarrow> ('t, 'a) world_scheme \<Rightarrow> ('t, 'a) world_scheme" where
  "startPlaylist u pid W =
     (let st = universe_at W u;
          ps = (case playlistStatus st of
                  None \<Rightarrow> \<lparr>ps_universe = u, playlist = [], playing = False, current_animation = []\<rparr>
                | Some ps \<Rightarrow> ps)
      in put_universe u (st\<lparr>playlistState := PlActive, shouldResumePlaylist := False, playlistId := pid,
           playlistStatus := Some (ps\<lparr>playlist := pid, playing := True\<rparr>)\<rparr>) W)"

definition setPlaylistStatus :: "universe_t \<Rightarrow> playlist_status \<Rightarrow> ('t, 'a) world_scheme \<Rightarrow> ('t, 'a) world_scheme" where
  "setPlaylistStatus u status W =
     (let st = universe_at W u;
          st1 = st\<lparr>playlistStatus := Some (status\<lparr>ps_universe := u\<rparr>), playlistId := playlist status\<rparr>
      in put_universe u
           (if playlistState st1 = PlNone \<and> playlist status \<noteq> [] \<and> playing status
            then st1\<lparr>playlistState := PlActive\<rparr> else st1) W)"

definition clearPlaylist :: "universe_t \<Rightarrow> ('t, 'a) world_scheme \<Rightarrow> ('t, 'a) world_scheme" where
  "clearPlaylist u W = (case map_of (universeStates W) u of
     None \<Rightarrow> W
   | Some st \<Rightarrow>
       (let st1 = st\<lparr>playlistState := PlNone, shouldResumePlaylist := False, playlistId := [],
              playlistStatus := None\<rparr>
        in if activeSessions st1 = [] then erase_universe u W else put_universe u st1 W))"

section \<open>Removal\<close>

definition clearSession :: "universe_t \<Rightarrow> string \<Rightarrow> ('t, 'a) world_scheme \<Rightarrow> ('t, 'a) world_scheme" where
  "clearSession u sid W = (case map_of (universeStates W) u of
     None \<Rightarrow> W
   | Some st \<Rightarrow> put_universe u
       (st\<lparr>activeSessions := filter (\<lambda>r. sessionId (heap W ! r) \<noteq> sid) (activeSessions st)\<rparr>) W)"

record abort_result =
  sessionRemoved :: bool
  playlistCleared :: bool
  queuedAnimationsDropped :: nat

definition abortLoadingSession ::
  "universe_t \<Rightarrow> string \<Rightarrow> ('t, 'a) world_scheme \<Rightarrow> abort_result \<times> ('t, 'a) world_scheme"
where
  "abortLoadingSession u sid W =
     (let nothing = \<lparr>sessionRemoved = False, playlistCleared = False, queuedAnimationsDropped = 0\<rparr> in
      case map_of (universeStates W) u of
        None \<Rightarrow> (nothing, W)
      | Some st \<Rightarrow> (case find (\<lambda>r. sessionId (heap W ! r) = sid) (activeSessions st) of
          None \<Rightarrow> (nothing, W)
        | Some r \<Rightarrow>
            (let wasPlaylist = activityReason (heap W ! r) = Playlist;
                 st1 = st\<lparr>activeSessions := remove1 r (activeSessions st), animationQueue := []\<rparr>;
                 st2 = (if wasPlaylist then st1\<lparr>playlistState := PlNone, shouldResumePlaylist := False,
                          playlistId := [], playlistStatus := None\<rparr> else st1);
                 res = \<lparr>sessionRemoved = True, playlistCleared = wasPlaylist,
                        queuedAnimationsDropped = length (animationQueue st)\<rparr>
             in (res, if activeSessions st2 = [] \<and> playlistState st2 = PlNone
                      then erase_universe u W else put_universe u st2 W))))"

section \<open>The animation queue\<close>

definition queueAnimation :: "universe_t \<Rightarrow> animation \<Rightarrow> ('t, 'a) world_scheme \<Rightarrow> ('t, 'a) world_scheme" where
  "queueAnimation u a W =
     (let st = universe_at W u in put_universe u (st\<lparr>animationQueue := animationQueue st @ [a]\<rparr>) W)"

definition popQueuedAnimation ::
  "universe_t \<Rightarrow> ('t, 'a) world_scheme \<Rightarrow> animation option \<times> ('t, 'a) world_scheme"
where
  "popQueuedAnimation u W = (case map_of (universeStates W) u of
     None \<Rightarrow> (None, W)
   | Some st \<Rightarrow> (case animationQueue st of
        [] \<Rightarrow> (None, W)
      | a # q \<Rightarrow> (Some a, put_universe u (st\<lparr>animationQueue := q\<rparr>) W)))"

definition hasQueuedAnimation :: "('t, 'a) world_scheme \<Rightarrow> universe_t \<Rightarrow> bool" where
  "hasQueuedAnimation W u = (case map_of (universeStates W) u of
     None \<Rightarrow> False | Some st \<Rightarrow> animationQueue st \<noteq> [])"

definition clearAnimationQueue :: "universe_t \<Rightarrow> ('t, 'a) world_scheme \<Rightarrow> ('t, 'a) world_scheme" where
  "clearAnimationQueue u W = (case map_of (universeStates W) u of
     None \<Rightarrow> W
   | Some st \<Rightarrow> if animationQueue st = [] then W else put_universe u (st\<lparr>animationQueue := []\<rparr>) W)"


section \<open>The two locked phases of \<open>interrupt\<close>\<close>

definition mark_interrupted :: "universe_t \<Rightarrow> bool \<Rightarrow> ('t, 'a) world_scheme \<Rightarrow> bool \<times> ('t, 'a) world_scheme" where
  "mark_interrupted u resume W = (case map_of (universeStates W) u of
     None \<Rightarrow> (False, W)
   | Some st \<Rightarrow>
       if playlistState st = PlActive
       then (True, put_universe u (st\<lparr>playlistState := PlInterrupted, shouldResumePlaylist := resume\<rparr>) W)
       else (False, W))"

definition unmark_interrupted :: "universe_t \<Rightarrow> ('t, 'a) world_scheme \<Rightarrow> ('t, 'a) world_scheme" where
  "unmark_interrupted u W = (case map_of (universeStates W) u of
     None \<Rightarrow> W
   | Some st \<Rightarrow>
       if playlistState st = PlInterrupted
       then put_universe u (st\<lparr>playlistState := PlActive, shouldResumePlaylist := False\<rparr>) W
       else W)"

section \<open>Operations as values\<close>

datatype manager_op =
    Adopt universe_t nat bool bool
  | CancelFor universe_t "creatureId_t list"
  | CancelIdle universe_t creatureId_t
  | MarkInterrupted universe_t bool
  | UnmarkInterrupted universe_t
  | Resume universe_t
  | Consume universe_t
  | StopPl universe_t
  | StartPl universe_t string
  | SetStatus universe_t playlist_status
  | ClearPl universe_t
  | ClearSess universe_t string
  | AbortLoad universe_t string
  | QueueAnim universe_t animation
  | PopQueue universe_t
  | ClearQueue universe_t

fun run_manager_op :: "service_env \<Rightarrow> manager_op \<Rightarrow> ('t, 'a) world_scheme \<Rightarrow> ('t, 'a) world_scheme" where
  "run_manager_op env (Adopt u r isPlaylist allOfIt) W = registerSession env u (Some r) isPlaylist allOfIt W"
| "run_manager_op env (CancelFor u cs) W = cancelSessionsForCreatures env u cs W"
| "run_manager_op env (CancelIdle u c) W = snd (cancelIdleSessionForCreature env u c W)"
| "run_manager_op env (MarkInterrupted u b) W = snd (mark_interrupted u b W)"
| "run_manager_op env (UnmarkInterrupted u) W = unmark_interrupted u W"
| "run_manager_op env (Resume u) W = snd (resumePlaylist u W)"
| "run_manager_op env (Consume u) W = snd (consumeInterruptResumeDecision u W)"
| "run_manager_op env (StopPl u) W = stopPlaylist env u W"
| "run_manager_op env (StartPl u pid) W = startPlaylist u pid W"
| "run_manager_op env (SetStatus u ps) W = setPlaylistStatus u ps W"
| "run_manager_op env (ClearPl u) W = clearPlaylist u W"
| "run_manager_op env (ClearSess u sid) W = clearSession u sid W"
| "run_manager_op env (AbortLoad u sid) W = snd (abortLoadingSession u sid W)"
| "run_manager_op env (QueueAnim u a) W = queueAnimation u a W"
| "run_manager_op env (PopQueue u) W = snd (popQueuedAnimation u W)"
| "run_manager_op env (ClearQueue u) W = clearAnimationQueue u W"

section \<open>Frame conditions\<close>

lemma map_of_put_universe [simp]:
  "map_of (universeStates (put_universe u st W)) = (map_of (universeStates W))(u \<mapsto> st)"
  by (simp add: put_universe_def)

lemma map_of_erase_universe [simp]:
  "map_of (universeStates (erase_universe u W)) = (map_of (universeStates W))(u := None)"
  by (simp add: erase_universe_def)

lemma put_universe_frame [simp]:
  "heap (put_universe u st W) = heap W" "nextActivityGeneration (put_universe u st W) = nextActivityGeneration W"
  "services (put_universe u st W) = services W" "eventLoop (put_universe u st W) = eventLoop W"
  "outbox (put_universe u st W) = outbox W"
  "heap (erase_universe u W) = heap W" "nextActivityGeneration (erase_universe u W) = nextActivityGeneration W"
  by (simp_all add: put_universe_def erase_universe_def)

lemma notify_frame [simp]:
  "heap (notifyCancelledSession env r W) = heap W"
  "universeStates (notifyCancelledSession env r W) = universeStates W"
  "nextActivityGeneration (notifyCancelledSession env r W) = nextActivityGeneration W"
  "eventLoop (notifyCancelledSession env r W) = eventLoop W"
  by (simp_all add: notifyCancelledSession_def scheduleImmediateTeardown_def schedule_event_def Let_def
      split: option.splits)

lemma notify_all_frame [simp]:
  "heap (notify_all env rs W) = heap W \<and> universeStates (notify_all env rs W) = universeStates W \<and>
   nextActivityGeneration (notify_all env rs W) = nextActivityGeneration W \<and>
   eventLoop (notify_all env rs W) = eventLoop W"
  unfolding notify_all_def by (induction rs arbitrary: W) auto

lemmas notify_all_simps [simp] = notify_all_frame [THEN conjunct1]
  notify_all_frame [THEN conjunct2, THEN conjunct1]
  notify_all_frame [THEN conjunct2, THEN conjunct2, THEN conjunct1]
  notify_all_frame [THEN conjunct2, THEN conjunct2, THEN conjunct2]

section \<open>The playlist automaton\<close>

text \<open>
  The abstract specification: which states an operation may lead to, seen from universe
  \<open>v\<close>. An interrupt pauses only an active playlist; a stopped one is revived only by starting
  a playlist (or adopting a playlist session); everything else leaves the state alone.
\<close>

fun playlist_spec :: "manager_op \<Rightarrow> universe_t \<Rightarrow> playlist_state \<Rightarrow> playlist_state set" where
  "playlist_spec (Adopt u r isPl allOfIt) v p = (if v = u \<and> isPl then {PlActive} else {p})"
| "playlist_spec (MarkInterrupted u b) v p = (if v = u \<and> p = PlActive then {PlInterrupted} else {p})"
| "playlist_spec (UnmarkInterrupted u) v p = (if v = u \<and> p = PlInterrupted then {PlActive} else {p})"
| "playlist_spec (Resume u) v p = (if v = u \<and> p = PlInterrupted then {PlActive} else {p})"
| "playlist_spec (Consume u) v p = (if v = u \<and> p = PlInterrupted then {PlActive, PlStopped} else {p})"
| "playlist_spec (StopPl u) v p = (if v = u \<and> (p = PlActive \<or> p = PlInterrupted) then {PlStopped} else {p})"
| "playlist_spec (StartPl u pid) v p = (if v = u then {PlActive} else {p})"
| "playlist_spec (SetStatus u ps) v p =
     (if v = u \<and> p = PlNone \<and> playlist ps \<noteq> [] \<and> playing ps then {PlActive} else {p})"
| "playlist_spec (ClearPl u) v p = (if v = u then {PlNone} else {p})"
| "playlist_spec (AbortLoad u sid) v p = (if v = u then {p, PlNone} else {p})"
| "playlist_spec _ v p = {p}"

lemma mark_playing_frame [simp]:
  "activeSessions (mark_playing b st) = activeSessions st"
  "playlistState (mark_playing b st) = playlistState st"
  "animationQueue (mark_playing b st) = animationQueue st"
  by (simp_all add: mark_playing_def)

lemma playlist_cancel_matching:
  "getPlaylistState (snd (cancel_matching env u P st W)) v = (if v = u then playlistState st else getPlaylistState W v)"
  by (simp add: cancel_matching_def getPlaylistState_def case_prod_unfold Let_def)

lemma playlist_put: "getPlaylistState (put_universe u st W) v = (if v = u then playlistState st else getPlaylistState W v)"
  by (simp add: getPlaylistState_def)

lemma playlist_erase: "getPlaylistState (erase_universe u W) v = (if v = u then PlNone else getPlaylistState W v)"
  by (simp add: getPlaylistState_def)

lemma playlist_at: "getPlaylistState W u = playlistState (universe_at W u)"
  by (simp add: getPlaylistState_def universe_at_def new_universe_state_def split: option.splits)

lemma playlist_lookup: "map_of (universeStates W) u = Some st \<Longrightarrow> getPlaylistState W u = playlistState st"
  by (simp add: getPlaylistState_def)

lemma playlist_absent: "map_of (universeStates W) u = None \<Longrightarrow> getPlaylistState W u = PlNone"
  by (simp add: getPlaylistState_def)

lemma playlist_registerSession:
  "getPlaylistState (registerSession env u (Some r) isPl allOfIt W) v =
     (if v = u \<and> isPl then PlActive else getPlaylistState W v)"
  by (auto simp: registerSession_def adopt_locked_def getPlaylistState_def case_prod_unfold Let_def
      new_universe_state_def split: option.splits)

lemma playlist_refines_spec_aux:
  "getPlaylistState (run_manager_op env op W) v \<in> playlist_spec op v (getPlaylistState W v)"
proof (cases op)
  case (Adopt u r isPl allOfIt)
  then show ?thesis by (simp add: playlist_registerSession)
next
  case (CancelFor u cs)
  then show ?thesis
    by (auto simp: cancelSessionsForCreatures_def playlist_cancel_matching dest: playlist_lookup playlist_absent split: option.splits)
next
  case (CancelIdle u c)
  then show ?thesis
    by (auto simp: cancelIdleSessionForCreature_def case_prod_unfold Let_def playlist_cancel_matching
        dest: playlist_lookup playlist_absent split: option.splits)
next
  case (MarkInterrupted u b)
  then show ?thesis
    by (auto simp: mark_interrupted_def playlist_put dest: playlist_lookup playlist_absent split: option.splits)
next
  case (UnmarkInterrupted u)
  then show ?thesis
    by (auto simp: unmark_interrupted_def playlist_put dest: playlist_lookup playlist_absent split: option.splits)
next
  case (Resume u)
  then show ?thesis by (auto simp: resumePlaylist_def playlist_put dest: playlist_lookup playlist_absent split: option.splits)
next
  case (Consume u)
  then show ?thesis
    by (auto simp: consumeInterruptResumeDecision_def playlist_put dest: playlist_lookup playlist_absent split: option.splits)
next
  case (StopPl u)
  then show ?thesis
    by (auto simp: stopPlaylist_def playlist_cancel_matching dest: playlist_lookup playlist_absent split: option.splits)
next
  case (StartPl u pid)
  then show ?thesis by (simp add: startPlaylist_def Let_def playlist_put)
next
  case (SetStatus u ps)
  then show ?thesis by (auto simp: setPlaylistStatus_def Let_def playlist_put playlist_at [symmetric])
next
  case (ClearPl u)
  then show ?thesis
    by (auto simp: clearPlaylist_def Let_def playlist_put playlist_erase getPlaylistState_def split: option.splits)
next
  case (ClearSess u sid)
  then show ?thesis by (auto simp: clearSession_def playlist_put dest: playlist_lookup playlist_absent split: option.splits)
next
  case (AbortLoad u sid)
  then show ?thesis
    by (auto simp: abortLoadingSession_def Let_def playlist_put playlist_erase dest: playlist_lookup playlist_absent split: option.splits)
next
  case (QueueAnim u a)
  then show ?thesis by (simp add: queueAnimation_def Let_def playlist_put playlist_at [symmetric])
next
  case (PopQueue u)
  then show ?thesis
    by (auto simp: popQueuedAnimation_def playlist_put dest: playlist_lookup playlist_absent split: option.splits list.splits)
next
  case (ClearQueue u)
  then show ?thesis
    by (auto simp: clearAnimationQueue_def playlist_put dest: playlist_lookup playlist_absent split: option.splits)
qed

text \<open>
  C13: refinement of the playlist automaton. Every operation of the session manager moves the
  playlist state of every universe exactly as the specification allows.
\<close>

theorem playlist_refines_spec:
  "getPlaylistState (run_manager_op env op W) v \<in> playlist_spec op v (getPlaylistState W v)"
  by (rule playlist_refines_spec_aux)


fun leaves_stopped :: "universe_t \<Rightarrow> manager_op \<Rightarrow> bool" where
  "leaves_stopped v (Adopt u r isPl allOfIt) \<longleftrightarrow> \<not> (u = v \<and> isPl)"
| "leaves_stopped v (StartPl u pid) \<longleftrightarrow> u \<noteq> v"
| "leaves_stopped v (ClearPl u) \<longleftrightarrow> u \<noteq> v"
| "leaves_stopped v (AbortLoad u sid) \<longleftrightarrow> u \<noteq> v"
| "leaves_stopped v _ \<longleftrightarrow> True"

lemma leaves_stopped_spec: "leaves_stopped v op \<Longrightarrow> playlist_spec op v PlStopped = {PlStopped}"
  by (cases op) auto

lemma leaves_stopped_op:
  "leaves_stopped v op \<Longrightarrow> getPlaylistState W v = PlStopped \<Longrightarrow> getPlaylistState (run_manager_op env op W) v = PlStopped"
  using playlist_refines_spec_aux [of env op W v] by (simp add: leaves_stopped_spec)

text \<open>
  C21: a stopped playlist is not revived (issue 64). No list of operations without an explicit
  start, a playlist adoption, a clear or the abort of a loading session on that universe
  makes a stopped playlist anything but stopped: not an interrupt, its resume decision, a
  resume request or a status snapshot.
\<close>

theorem stopped_playlist_stays_stopped:
  assumes "getPlaylistState W v = PlStopped" "\<forall>(env, op) \<in> set ops. leaves_stopped v op"
  shows "getPlaylistState (fold (\<lambda>(env, op). run_manager_op env op) ops W) v = PlStopped"
  using assms by (induction ops arbitrary: W) (auto simp: leaves_stopped_op)

section \<open>Exclusive use of outputs\<close>

text \<open>
  The cancellation loop on a list without repetitions: exactly the matching sessions are
  flagged and reported, in order; the others survive in order.
\<close>

lemma cancel_where_spec:
  assumes "distinct rs" "\<forall>r \<in> set rs. r < length H" "cancel_where P rs H = (H', cs, sv)"
  shows "cs = filter (\<lambda>r. P (H ! r)) rs \<and> sv = filter (\<lambda>r. \<not> P (H ! r)) rs \<and> length H' = length H \<and>
    (\<forall>r. H' ! r = (if r \<in> set cs then cancelSessionLocked (H ! r) else H ! r))"
  using assms
proof (induction rs arbitrary: H H' cs sv)
  case (Cons r rs)
  show ?case
  proof (cases "P (H ! r)")
    case True
    obtain H1 c1 s1 where w: "cancel_where P rs (H[r := cancelSessionLocked (H ! r)]) = (H1, c1, s1)"
      by (rule prod_cases3)
    have same: "x \<in> set rs \<Longrightarrow> H[r := cancelSessionLocked (H ! r)] ! x = H ! x" for x
      using Cons.prems(1) by (cases "x = r") auto
    have "c1 = filter (\<lambda>r. P (H ! r)) rs" "s1 = filter (\<lambda>r. \<not> P (H ! r)) rs" "length H1 = length H"
      "\<forall>x. H1 ! x = (if x \<in> set c1 then cancelSessionLocked (H[r := cancelSessionLocked (H ! r)] ! x)
                       else H[r := cancelSessionLocked (H ! r)] ! x)"
      using Cons.IH [OF _ _ w] Cons.prems(1,2) same by (auto cong: filter_cong)
    then show ?thesis
      using True w Cons.prems by (auto simp: nth_list_update)
  next
    case False
    obtain H1 c1 s1 where w: "cancel_where P rs H = (H1, c1, s1)" by (rule prod_cases3)
    then show ?thesis using False Cons.IH [OF _ _ w] Cons.prems by auto
  qed
qed simp

text \<open>What other components may do to the sessions meanwhile: the ids never change, a
  cancellation is never taken back, sessions are only added.\<close>

definition heap_le :: "'t session list \<Rightarrow> 't session list \<Rightarrow> bool" where
  "heap_le H H' \<longleftrightarrow> length H \<le> length H' \<and> (\<forall>r < length H.
     creatureIds (H' ! r) = creatureIds (H ! r) \<and> fixtureIds (H' ! r) = fixtureIds (H ! r) \<and>
     sessionId (H' ! r) = sessionId (H ! r) \<and> activityReason (H' ! r) = activityReason (H ! r) \<and>
     (cancelled (H ! r) \<longrightarrow> cancelled (H' ! r)))"

lemma heap_le_refl [simp]: "heap_le H H"
  by (simp add: heap_le_def)

lemma heap_le_trans: "heap_le H H' \<Longrightarrow> heap_le H' H'' \<Longrightarrow> heap_le H H''"
  by (auto simp: heap_le_def)

definition exclusive :: "'t session list \<Rightarrow> nat list \<Rightarrow> bool" where
  "exclusive H rs \<longleftrightarrow> distinct rs \<and> (\<forall>r \<in> set rs. r < length H) \<and>
     (\<forall>r \<in> set rs. \<forall>r' \<in> set rs. r \<noteq> r' \<longrightarrow> \<not> cancelled (H ! r) \<longrightarrow> \<not> cancelled (H ! r') \<longrightarrow>
        \<not> sessionsConflict (H ! r) (H ! r'))"

lemma sessionsConflict_cong:
  "creatureIds a' = creatureIds a \<Longrightarrow> fixtureIds a' = fixtureIds a \<Longrightarrow>
   creatureIds b' = creatureIds b \<Longrightarrow> fixtureIds b' = fixtureIds b \<Longrightarrow>
   sessionsConflict a' b' = sessionsConflict a b"
  by (simp add: sessionsConflict_def)

lemma sessionsConflict_sym: "sessionsConflict a b \<longleftrightarrow> sessionsConflict b a"
  by (auto simp: sessionsConflict_def list_ex_iff)

lemma exclusive_Nil [simp]: "exclusive H []"
  by (simp add: exclusive_def)

lemma exclusive_heap_le: "exclusive H rs \<Longrightarrow> heap_le H H' \<Longrightarrow> exclusive H' rs"
  unfolding exclusive_def heap_le_def
  by (metis (no_types, lifting) less_le_trans sessionsConflict_cong)

lemma exclusive_subset: "exclusive H rs \<Longrightarrow> distinct rs' \<Longrightarrow> set rs' \<subseteq> set rs \<Longrightarrow> exclusive H rs'"
  by (auto simp: exclusive_def)

lemma heap_le_cancel_where:
  assumes "distinct rs" "\<forall>r \<in> set rs. r < length H" "cancel_where P rs H = (H', cs, sv)"
  shows "heap_le H H'"
  using cancel_where_spec [OF assms]
  by (auto simp: heap_le_def cancelSessionLocked_def session_op_defs)

lemma heap_le_generation: "heap_le H (H[r := setActivityGeneration g (H ! r)])"
  unfolding heap_le_def
proof (intro conjI allI impI)
  fix x assume "x < length H"
  then show "creatureIds (H[r := setActivityGeneration g (H ! r)] ! x) = creatureIds (H ! x)"
    "fixtureIds (H[r := setActivityGeneration g (H ! r)] ! x) = fixtureIds (H ! x)"
    "sessionId (H[r := setActivityGeneration g (H ! r)] ! x) = sessionId (H ! x)"
    "activityReason (H[r := setActivityGeneration g (H ! r)] ! x) = activityReason (H ! x)"
    "cancelled (H ! x) \<Longrightarrow> cancelled (H[r := setActivityGeneration g (H ! r)] ! x)"
    by (cases "x = r"; simp add: setActivityGeneration_def)+
qed simp


section \<open>The invariant of the registry\<close>

definition registry_ok :: "('t, 'a) world_scheme \<Rightarrow> bool" where
  "registry_ok W \<longleftrightarrow>
     (\<forall>u st. map_of (universeStates W) u = Some st \<longrightarrow> exclusive (heap W) (activeSessions st) \<and>
        (\<forall>r \<in> set (activeSessions st). activityGeneration (heap W ! r) \<noteq> 0)) \<and>
     nextActivityGeneration W \<noteq> 0 \<and>
     (\<forall>r < length (heap W). activityGeneration (heap W ! r) < nextActivityGeneration W) \<and>
     (\<forall>r < length (heap W). \<forall>r' < length (heap W). r \<noteq> r' \<longrightarrow> activityGeneration (heap W ! r) \<noteq> 0 \<longrightarrow>
        activityGeneration (heap W ! r) \<noteq> activityGeneration (heap W ! r')) \<and>
     (\<forall>c. generation_of (services W) c < nextActivityGeneration W)"

text \<open>Every operation but an adoption only shrinks the lists and flags sessions.\<close>

definition shrinks :: "('t, 'a) world_scheme \<Rightarrow> ('t, 'a) world_scheme \<Rightarrow> bool" where
  "shrinks W W' \<longleftrightarrow> heap_le (heap W) (heap W') \<and> length (heap W') = length (heap W) \<and>
     (\<forall>r. activityGeneration (heap W' ! r) = activityGeneration (heap W ! r)) \<and>
     nextActivityGeneration W' = nextActivityGeneration W \<and>
     (\<forall>u st'. map_of (universeStates W') u = Some st' \<longrightarrow>
        (activeSessions st' = [] \<or> (\<exists>st. map_of (universeStates W) u = Some st \<and>
           (distinct (activeSessions st) \<longrightarrow> distinct (activeSessions st')) \<and>
           set (activeSessions st') \<subseteq> set (activeSessions st)))) \<and>
     ((\<forall>c. generation_of (services W) c < nextActivityGeneration W) \<longrightarrow>
        (\<forall>c. generation_of (services W') c < nextActivityGeneration W))"

lemma shrinks_lists:
  "shrinks W W' \<Longrightarrow> map_of (universeStates W') u = Some st' \<Longrightarrow> activeSessions st' = [] \<or>
   (\<exists>st. map_of (universeStates W) u = Some st \<and>
     (distinct (activeSessions st) \<longrightarrow> distinct (activeSessions st')) \<and>
     set (activeSessions st') \<subseteq> set (activeSessions st))"
  by (simp add: shrinks_def)

lemma registry_ok_shrinks:
  assumes "registry_ok W" "shrinks W W'"
  shows "registry_ok W'"
proof -
  have ex: "exclusive (heap W') (activeSessions st') \<and> (\<forall>r \<in> set (activeSessions st'). activityGeneration (heap W' ! r) \<noteq> 0)"
    if st': "map_of (universeStates W') u = Some st'" for u st'
  proof (cases "activeSessions st' = []")
    case False
    then obtain st where st: "map_of (universeStates W) u = Some st"
        "distinct (activeSessions st) \<longrightarrow> distinct (activeSessions st')"
        "set (activeSessions st') \<subseteq> set (activeSessions st)"
      using shrinks_lists [OF assms(2) st'] by blast
    then have "exclusive (heap W) (activeSessions st)"
        "\<forall>r \<in> set (activeSessions st). activityGeneration (heap W ! r) \<noteq> 0"
      using assms(1) by (auto simp: registry_ok_def)
    with st show ?thesis
      using exclusive_heap_le exclusive_subset assms(2) unfolding shrinks_def
      by (metis exclusive_def subsetD)
  qed simp
  show ?thesis
    using assms ex unfolding registry_ok_def shrinks_def by simp
qed

lemma generation_of_set_one_bound:
  "generation_of S c < b \<Longrightarrow> w_generation w < b \<Longrightarrow> generation_of (set_activity_one env sid w x S) c < b"
  by (auto simp: generation_of_set_one split: option.splits)

lemma generation_of_setActivityState_bound:
  "\<forall>c. generation_of S c < b \<Longrightarrow> w_generation w < b \<Longrightarrow> generation_of (snd (setActivityState env ids w S)) c < b"
  unfolding setActivityState_def Let_def snd_conv
  by (rule fold_preserves [where P = "\<lambda>S'. generation_of S' c < b"])
    (simp_all add: generation_of_set_one_bound)

lemma services_teardown: "services (scheduleImmediateTeardown r V) = services V"
  by (simp add: scheduleImmediateTeardown_def schedule_event_def split: option.splits)

lemma generation_of_notify:
  assumes "\<forall>c. generation_of (services W) c < b" "activityGeneration (heap W ! r) < b"
  shows "generation_of (services (notifyCancelledSession env r W)) c < b"
proof -
  define S1 where "S1 = (if activityReason (heap W ! r) = ReasonIdle
    then incrementIdleStopped (env_now env) (creatureIds (heap W ! r)) (services W) else services W)"
  have "\<forall>c. generation_of S1 c < b" using assms(1) by (simp add: S1_def frame_simps)
  then have "generation_of (snd (setActivityState env (creatureIds (heap W ! r))
      \<lparr>w_animation = anim_id (s_animation (heap W ! r)), w_reason = Cancelled, w_state = Stopped,
       w_session = sessionId (heap W ! r), w_generation = activityGeneration (heap W ! r)\<rparr> S1)) c < b"
    using assms(2) by (intro generation_of_setActivityState_bound) auto
  then show ?thesis
    by (simp add: notifyCancelledSession_def Let_def S1_def services_teardown split: if_splits)
qed

lemma generation_of_notify_all:
  assumes "\<forall>c. generation_of (services W) c < b" "\<forall>r \<in> set rs. activityGeneration (heap W ! r) < b"
  shows "\<forall>c. generation_of (services (notify_all env rs W)) c < b"
  using assms unfolding notify_all_def
proof (induction rs arbitrary: W)
  case (Cons r rs)
  then show ?case using generation_of_notify [of W b r env] by simp
qed simp

lemma outbox_notify_all:
  "eventLoop W = Some cur \<Longrightarrow>
   outbox (notify_all env rs W) = outbox W @ map (\<lambda>r. (cur + 1, RunnerEvent r)) rs"
  unfolding notify_all_def
proof (induction rs arbitrary: W)
  case (Cons r rs)
  have "outbox (notifyCancelledSession env r W) = outbox W @ [(cur + 1, RunnerEvent r)]"
    using Cons.prems by (simp add: notifyCancelledSession_def scheduleImmediateTeardown_def schedule_event_def Let_def)
  then show ?case using Cons by simp
qed simp

lemma shrinks_put:
  assumes "map_of (universeStates W) u = Some st"
    "distinct (activeSessions st) \<longrightarrow> distinct (activeSessions st')"
    "set (activeSessions st') \<subseteq> set (activeSessions st)"
  shows "shrinks W (put_universe u st' W)"
  using assms by (auto simp: shrinks_def split: if_splits)

lemma shrinks_refl [simp]: "shrinks W W"
  by (auto simp: shrinks_def)

lemma shrinks_put_at:
  assumes "activeSessions st' = activeSessions (universe_at W u)"
  shows "shrinks W (put_universe u st' W)"
proof (cases "map_of (universeStates W) u")
  case None
  then have "activeSessions st' = []" using assms by (simp add: universe_at_def new_universe_state_def)
  then show ?thesis by (auto simp: shrinks_def split: if_splits)
next
  case (Some st)
  then show ?thesis using assms by (intro shrinks_put) (auto simp: universe_at_def)
qed

lemma shrinks_erase: "shrinks W (erase_universe u W)"
  by (auto simp: shrinks_def erase_universe_def delete_conv' split: if_splits)


lemma shrinks_cancel_matching:
  assumes "map_of (universeStates W) u = Some st0" "activeSessions st = activeSessions st0"
    and "registry_ok W"
  shows "shrinks W (snd (cancel_matching env u P st W))"
proof -
  obtain H' cs sv where w: "cancel_where P (activeSessions st) (heap W) = (H', cs, sv)" by (rule prod_cases3)
  have d: "distinct (activeSessions st)" "\<forall>r \<in> set (activeSessions st). r < length (heap W)"
    using assms by (auto simp: registry_ok_def exclusive_def)
  note spec = cancel_where_spec [OF d w] and le = heap_le_cancel_where [OF d w]
  have gen: "\<forall>r. activityGeneration (H' ! r) = activityGeneration (heap W ! r)"
    using spec by (simp add: cancelSessionLocked_def session_op_defs)
  have "\<forall>r \<in> set cs. activityGeneration (H' ! r) < nextActivityGeneration W"
  proof
    fix r assume "r \<in> set cs"
    then have "r < length (heap W)" using spec d(2) by simp
    then show "activityGeneration (H' ! r) < nextActivityGeneration W"
      using assms(3) gen unfolding registry_ok_def by metis
  qed
  then have gens: "(\<forall>c. generation_of (services W) c < nextActivityGeneration W) \<longrightarrow>
      (\<forall>c. generation_of (services (notify_all env cs (put_universe u (st\<lparr>activeSessions := sv\<rparr>) (W\<lparr>heap := H'\<rparr>)))) c
         < nextActivityGeneration W)"
    using generation_of_notify_all [of "put_universe u (st\<lparr>activeSessions := sv\<rparr>) (W\<lparr>heap := H'\<rparr>)"
        "nextActivityGeneration W" cs env] by simp
  have "distinct sv" "set sv \<subseteq> set (activeSessions st0)" using spec d(1) assms(2) by auto
  then have lists: "\<forall>v st'. map_of (universeStates (put_universe u (st\<lparr>activeSessions := sv\<rparr>) (W\<lparr>heap := H'\<rparr>))) v = Some st' \<longrightarrow>
      activeSessions st' = [] \<or> (\<exists>st. map_of (universeStates W) v = Some st \<and>
       (distinct (activeSessions st) \<longrightarrow> distinct (activeSessions st')) \<and>
       set (activeSessions st') \<subseteq> set (activeSessions st))"
    using assms(1) by auto
  have cm: "snd (cancel_matching env u P st W) = notify_all env cs (put_universe u (st\<lparr>activeSessions := sv\<rparr>) (W\<lparr>heap := H'\<rparr>))"
    by (simp add: cancel_matching_def w Let_def)
  show ?thesis
    unfolding shrinks_def cm using gens lists le gen spec by simp
qed

lemma shrinks_op:
  assumes "registry_ok W" "\<nexists>u r isPl allOfIt. op = Adopt u r isPl allOfIt"
  shows "shrinks W (run_manager_op env op W)"
proof (cases op)
  case (Adopt u r isPl allOfIt)
  then show ?thesis using assms(2) by blast
next
  case (CancelFor u cs)
  then show ?thesis
    using assms(1) by (auto simp: cancelSessionsForCreatures_def intro: shrinks_cancel_matching split: option.splits)
next
  case (CancelIdle u c)
  then show ?thesis
    using assms(1) by (auto simp: cancelIdleSessionForCreature_def case_prod_unfold Let_def
        intro: shrinks_cancel_matching split: option.splits)
next
  case (StopPl u)
  then show ?thesis
    using assms(1) by (auto simp: stopPlaylist_def intro!: shrinks_cancel_matching split: option.splits)
next
  case (ClearPl u)
  then show ?thesis
    by (auto simp: clearPlaylist_def Let_def intro: shrinks_erase shrinks_put split: option.splits)
next
  case (AbortLoad u sid)
  then show ?thesis
    by (auto simp: abortLoadingSession_def Let_def intro!: shrinks_erase shrinks_put
        dest: notin_set_remove1 in_set_remove1 [THEN iffD1] set_remove1_subset [THEN subsetD] split: option.splits)
next
  case (StartPl u pid)
  then show ?thesis by (simp add: startPlaylist_def Let_def shrinks_put_at)
next
  case (SetStatus u ps)
  then show ?thesis by (simp add: setPlaylistStatus_def Let_def shrinks_put_at)
next
  case (QueueAnim u a)
  then show ?thesis by (simp add: queueAnimation_def Let_def shrinks_put_at)
qed (auto simp: mark_interrupted_def unmark_interrupted_def resumePlaylist_def consumeInterruptResumeDecision_def
    clearSession_def popQueuedAnimation_def clearAnimationQueue_def intro!: shrinks_put
    split: option.splits list.splits)

text \<open>What an adoption leaves behind.\<close>

lemma adopt_locked_Some:
  fixes W :: "('t, 'a) world_scheme" and allOfIt :: bool
  assumes "map_of (universeStates W) u = Some st"
    and "distinct (activeSessions st)" "\<forall>e \<in> set (activeSessions st). e < length (heap W)" "r \<notin> set (activeSessions st)"
  defines "P \<equiv> \<lambda>e. \<not> cancelled (heap W ! e) \<and> (allOfIt \<or> sessionsConflict (heap W ! r) (heap W ! e))"
  shows "\<exists>H'. adopt_locked u r isPl allOfIt W = (filter P (activeSessions st),
      put_universe u (st\<lparr>activeSessions := filter (\<lambda>e. \<not> P e) (activeSessions st) @ [r],
        playlistState := (if isPl then PlActive else playlistState st)\<rparr>)
        (W\<lparr>heap := H', nextActivityGeneration := nextActivityGeneration W + 1\<rparr>)) \<and>
      length H' = length (heap W) \<and>
      (\<forall>e. e \<noteq> r \<longrightarrow> H' ! e = (if e \<in> set (filter P (activeSessions st)) then cancelSessionLocked (heap W ! e) else heap W ! e)) \<and>
      (r < length (heap W) \<longrightarrow> H' ! r = setActivityGeneration (nextActivityGeneration W) (heap W ! r))"
proof -
  let ?H = "(heap W)[r := setActivityGeneration (nextActivityGeneration W) (heap W ! r)]"
  let ?Q = "\<lambda>e. \<not> cancelled e \<and> (allOfIt \<or> sessionsConflict (?H ! r) e)"
  obtain H' cs sv where w: "cancel_where ?Q (activeSessions st) ?H = (H', cs, sv)" by (rule prod_cases3)
  have other: "e \<noteq> r \<Longrightarrow> ?H ! e = heap W ! e" for e by simp
  have "creatureIds (?H ! r) = creatureIds (heap W ! r)" "fixtureIds (?H ! r) = fixtureIds (heap W ! r)"
    by (cases "r < length (heap W)"; simp add: setActivityGeneration_def list_update_beyond)+
  then have conf: "sessionsConflict (?H ! r) x = sessionsConflict (heap W ! r) x" for x
    by (simp add: sessionsConflict_def)
  have "\<forall>e \<in> set (activeSessions st). ?Q (?H ! e) = P e"
  proof
    fix e assume "e \<in> set (activeSessions st)"
    then have "e \<noteq> r" using assms(4) by blast
    then show "?Q (?H ! e) = P e" by (simp only: P_def conf other [OF \<open>e \<noteq> r\<close>])
  qed
  then have f: "filter (\<lambda>e. ?Q (?H ! e)) (activeSessions st) = filter P (activeSessions st)"
      "filter (\<lambda>e. \<not> ?Q (?H ! e)) (activeSessions st) = filter (\<lambda>e. \<not> P e) (activeSessions st)"
    by (auto cong: filter_cong)
  have spec: "cs = filter P (activeSessions st)" "sv = filter (\<lambda>e. \<not> P e) (activeSessions st)"
      "length H' = length (heap W)" "\<forall>e. H' ! e = (if e \<in> set cs then cancelSessionLocked (?H ! e) else ?H ! e)"
    using cancel_where_spec [OF assms(2) _ w] assms(3) f by auto
  have "r \<notin> set cs" using spec(1) assms(4) by simp
  then show ?thesis
    using assms(1) spec w
    by (intro exI [of _ H']) (auto simp: adopt_locked_def Let_def put_universe_def)
qed


lemma adopt_locked_None:
  assumes "map_of (universeStates W) u = None"
  shows "adopt_locked u r isPl allOfIt W = ([], put_universe u (new_universe_state\<lparr>activeSessions := [r],
      playlistState := (if isPl then PlActive else PlNone)\<rparr>)
      (W\<lparr>heap := (heap W)[r := setActivityGeneration (nextActivityGeneration W) (heap W ! r)],
         nextActivityGeneration := nextActivityGeneration W + 1\<rparr>))"
  using assms by (simp add: adopt_locked_def Let_def)

definition adoption_victims :: "nat \<Rightarrow> bool \<Rightarrow> universe_t \<Rightarrow> ('t, 'a) world_scheme \<Rightarrow> nat list" where
  "adoption_victims r allOfIt u W = filter (\<lambda>e. \<not> cancelled (heap W ! e) \<and>
     (allOfIt \<or> sessionsConflict (heap W ! r) (heap W ! e))) (getActiveSessions W u)"

text \<open>
  The whole effect of an adoption on the registry, from a registry that satisfies its
  invariant: the lists, the heap, the counter.
\<close>

lemma registerSession_effect:
  fixes W :: "('t, 'a) world_scheme" and env :: service_env and u :: universe_t and allOfIt isPl :: bool
  assumes "registry_ok W" "r < length (heap W)" "r \<notin> set (getActiveSessions W u)"
  defines "V \<equiv> adoption_victims r allOfIt u W" and "W' \<equiv> registerSession env u (Some r) isPl allOfIt W"
  shows "getActiveSessions W' u = filter (\<lambda>e. e \<notin> set V) (getActiveSessions W u) @ [r]"
    and "\<And>v. v \<noteq> u \<Longrightarrow> map_of (universeStates W') v = map_of (universeStates W) v"
    and "length (heap W') = length (heap W)"
    and "\<And>e. e \<noteq> r \<Longrightarrow> heap W' ! e = (if e \<in> set V then cancelSessionLocked (heap W ! e) else heap W ! e)"
    and "heap W' ! r = setActivityGeneration (nextActivityGeneration W) (heap W ! r)"
    and "nextActivityGeneration W' = nextActivityGeneration W + 1"
    and "\<And>cur. eventLoop W = Some cur \<Longrightarrow> outbox W' = outbox W @ map (\<lambda>e. (cur + 1, RunnerEvent e)) V"
    and "\<forall>c. generation_of (services W') c < nextActivityGeneration W"
proof -
  have ok: "\<forall>e < length (heap W). activityGeneration (heap W ! e) < nextActivityGeneration W"
      "\<forall>c. generation_of (services W) c < nextActivityGeneration W"
    using assms(1) by (auto simp: registry_ok_def)
  have "\<exists>st' H'. adopt_locked u r isPl allOfIt W = (V, put_universe u st' (W\<lparr>heap := H',
        nextActivityGeneration := nextActivityGeneration W + 1\<rparr>)) \<and>
      activeSessions st' = filter (\<lambda>e. e \<notin> set V) (getActiveSessions W u) @ [r] \<and> length H' = length (heap W) \<and>
      (\<forall>e. e \<noteq> r \<longrightarrow> H' ! e = (if e \<in> set V then cancelSessionLocked (heap W ! e) else heap W ! e)) \<and>
      H' ! r = setActivityGeneration (nextActivityGeneration W) (heap W ! r) \<and> (\<forall>e \<in> set V. e < length (heap W) \<and> e \<noteq> r)"
  proof (cases "map_of (universeStates W) u")
    case None
    then show ?thesis
      using assms(2)
      by (intro exI [of _ "new_universe_state\<lparr>activeSessions := [r], playlistState := (if isPl then PlActive else PlNone)\<rparr>"]
          exI [of _ "(heap W)[r := setActivityGeneration (nextActivityGeneration W) (heap W ! r)]"])
        (simp add: adopt_locked_None V_def adoption_victims_def getActiveSessions_def)
  next
    case (Some st)
    then have d: "distinct (activeSessions st)" "\<forall>e \<in> set (activeSessions st). e < length (heap W)"
        "r \<notin> set (activeSessions st)" "getActiveSessions W u = activeSessions st"
      using assms(1,3) by (auto simp: registry_ok_def exclusive_def getActiveSessions_def)
    have V: "V = filter (\<lambda>e. \<not> cancelled (heap W ! e) \<and> (allOfIt \<or> sessionsConflict (heap W ! r) (heap W ! e)))
        (activeSessions st)" by (simp add: V_def adoption_victims_def d(4))
    then have rest: "filter (\<lambda>e. \<not> (\<not> cancelled (heap W ! e) \<and> (allOfIt \<or> sessionsConflict (heap W ! r) (heap W ! e))))
        (activeSessions st) = filter (\<lambda>e. e \<notin> set V) (activeSessions st)"
      by (auto intro: filter_cong)
    have v: "\<forall>e \<in> set V. e < length (heap W) \<and> e \<noteq> r" using V d(2,3) by auto
    from adopt_locked_Some [OF Some d(1-3), of isPl allOfIt] obtain H' where
      "adopt_locked u r isPl allOfIt W = (V, put_universe u (st\<lparr>activeSessions := filter (\<lambda>e. e \<notin> set V) (activeSessions st) @ [r],
          playlistState := (if isPl then PlActive else playlistState st)\<rparr>)
        (W\<lparr>heap := H', nextActivityGeneration := nextActivityGeneration W + 1\<rparr>))"
      "length H' = length (heap W)"
      "\<forall>e. e \<noteq> r \<longrightarrow> H' ! e = (if e \<in> set V then cancelSessionLocked (heap W ! e) else heap W ! e)"
      "H' ! r = setActivityGeneration (nextActivityGeneration W) (heap W ! r)"
      unfolding V [symmetric] rest using assms(2) by blast
    then show ?thesis
      unfolding d(4) using v by (intro exI conjI) (assumption, simp_all)
  qed
  then obtain st' H' where a: "adopt_locked u r isPl allOfIt W = (V, put_universe u st' (W\<lparr>heap := H',
        nextActivityGeneration := nextActivityGeneration W + 1\<rparr>))"
      "activeSessions st' = filter (\<lambda>e. e \<notin> set V) (getActiveSessions W u) @ [r]" "length H' = length (heap W)"
      "\<forall>e. e \<noteq> r \<longrightarrow> H' ! e = (if e \<in> set V then cancelSessionLocked (heap W ! e) else heap W ! e)"
      "H' ! r = setActivityGeneration (nextActivityGeneration W) (heap W ! r)"
      "\<forall>e \<in> set V. e < length (heap W) \<and> e \<noteq> r" by blast
  define W1 where "W1 = put_universe u st' (W\<lparr>heap := H', nextActivityGeneration := nextActivityGeneration W + 1\<rparr>)"
  have W': "W' = notify_all env V W1" by (simp add: W'_def registerSession_def a(1) W1_def)
  show "getActiveSessions W' u = filter (\<lambda>e. e \<notin> set V) (getActiveSessions W u) @ [r]"
    using a(2) by (simp add: W' W1_def getActiveSessions_def)
  show "\<And>v. v \<noteq> u \<Longrightarrow> map_of (universeStates W') v = map_of (universeStates W) v"
    by (simp add: W' W1_def)
  show "length (heap W') = length (heap W)" using a(3) by (simp add: W' W1_def)
  show "\<And>e. e \<noteq> r \<Longrightarrow> heap W' ! e = (if e \<in> set V then cancelSessionLocked (heap W ! e) else heap W ! e)"
    using a(4) by (simp add: W' W1_def)
  show "heap W' ! r = setActivityGeneration (nextActivityGeneration W) (heap W ! r)" using a(5) by (simp add: W' W1_def)
  show "nextActivityGeneration W' = nextActivityGeneration W + 1" by (simp add: W' W1_def)
  show "\<And>cur. eventLoop W = Some cur \<Longrightarrow> outbox W' = outbox W @ map (\<lambda>e. (cur + 1, RunnerEvent e)) V"
  proof -
    fix cur assume "eventLoop W = Some cur"
    then have "eventLoop W1 = Some cur" "outbox W1 = outbox W" by (simp_all add: W1_def)
    then show "outbox W' = outbox W @ map (\<lambda>e. (cur + 1, RunnerEvent e)) V" by (simp add: W' outbox_notify_all)
  qed
  have "\<forall>e \<in> set V. activityGeneration (heap W1 ! e) < nextActivityGeneration W"
    using a(4,6) ok(1) by (simp add: W1_def cancelSessionLocked_def session_op_defs)
  then show "\<forall>c. generation_of (services W') c < nextActivityGeneration W"
    unfolding W' using ok(2) by (intro generation_of_notify_all) (simp_all add: W1_def)
qed


text \<open>
  C10: what an adoption does (issues 62, 63, 82 and 87). Registering session \<open>r\<close> on universe
  \<open>u\<close> removes and cancels exactly the active sessions that share a creature or a fixture with
  it (all of them for an interrupt), appends \<open>r\<close>, gives it the next generation, which is
  above every generation handed out before, schedules one immediate teardown runner for
  each cancelled session in their order, and touches no other session or universe.
\<close>

theorem adoption_takes_over:
  fixes W :: "('t, 'a) world_scheme"
  assumes "registry_ok W" "r < length (heap W)" "r \<notin> set (getActiveSessions W u)" "eventLoop W = Some cur"
  shows "let V = adoption_victims r allOfIt u W; W' = registerSession env u (Some r) isPl allOfIt W in
    getActiveSessions W' u = filter (\<lambda>e. e \<notin> set V) (getActiveSessions W u) @ [r] \<and>
    (\<forall>v. v \<noteq> u \<longrightarrow> getActiveSessions W' v = getActiveSessions W v) \<and>
    (\<forall>e. e \<noteq> r \<longrightarrow> heap W' ! e = (if e \<in> set V then cancelSessionLocked (heap W ! e) else heap W ! e)) \<and>
    heap W' ! r = setActivityGeneration (nextActivityGeneration W) (heap W ! r) \<and>
    (\<forall>e < length (heap W). activityGeneration (heap W ! e) < activityGeneration (heap W' ! r)) \<and>
    outbox W' = outbox W @ map (\<lambda>e. (cur + 1, RunnerEvent e)) V"
proof -
  note eff = registerSession_effect [OF assms(1-3), where env = env and allOfIt = allOfIt and isPl = isPl]
  have "\<forall>e < length (heap W). activityGeneration (heap W ! e) < nextActivityGeneration W"
    using assms(1) by (simp add: registry_ok_def)
  then show ?thesis
    unfolding Let_def using eff(1,4,5) eff(7) [OF assms(4)] eff(2)
    by (simp add: getActiveSessions_def setActivityGeneration_def)
qed

lemma exclusive_snoc:
  assumes "exclusive H rs" "r < length H" "r \<notin> set rs"
    and "\<And>e. e \<in> set rs \<Longrightarrow> \<not> cancelled (H ! e) \<Longrightarrow> \<not> sessionsConflict (H ! r) (H ! e)"
  shows "exclusive H (rs @ [r])"
  unfolding exclusive_def
proof (intro conjI ballI impI)
  fix x y
  assume "x \<in> set (rs @ [r])" "y \<in> set (rs @ [r])" "x \<noteq> y" "\<not> cancelled (H ! x)" "\<not> cancelled (H ! y)"
  then show "\<not> sessionsConflict (H ! x) (H ! y)"
    using assms(1,3) assms(4) [of x] assms(4) [of y] sessionsConflict_sym [of "H ! x" "H ! y"]
    by (cases "x = r"; cases "y = r") (simp_all add: exclusive_def)
qed (use assms(1-3) in \<open>auto simp: exclusive_def\<close>)

lemma registry_ok_adopt:
  assumes "registry_ok W" "r < length (heap W)" "activityGeneration (heap W ! r) = 0" "nextActivityGeneration W \<noteq> - 1"
  shows "registry_ok (registerSession env u (Some r) isPl allOfIt W)"
proof -
  let ?W' = "registerSession env u (Some r) isPl allOfIt W" and ?V = "adoption_victims r allOfIt u W"
  let ?n = "nextActivityGeneration W"
  have act: "exclusive (heap W) (getActiveSessions W v) \<and>
      (\<forall>e \<in> set (getActiveSessions W v). activityGeneration (heap W ! e) \<noteq> 0)" for v
    using assms(1) by (auto simp: registry_ok_def getActiveSessions_def split: option.splits)
  then have fresh: "r \<notin> set (getActiveSessions W v)" for v using assms(3) by blast
  note eff = registerSession_effect [OF assms(1,2) fresh [of u], where env = env and allOfIt = allOfIt and isPl = isPl]
  have inc: "?n < ?n + 1" using assms(4) by (rule word_succ_greater)
  have gen: "activityGeneration (heap ?W' ! e) = (if e = r then ?n else activityGeneration (heap W ! e))" for e
    using eff(4) [of e] eff(5) by (auto simp: cancelSessionLocked_def session_op_defs)
  have le: "heap_le (heap W) (heap ?W')"
    unfolding heap_le_def
  proof (intro conjI allI impI)
    fix e
    have "heap ?W' ! e = setActivityGeneration ?n (heap W ! e) \<or> heap ?W' ! e = cancelSessionLocked (heap W ! e) \<or>
        heap ?W' ! e = heap W ! e"
      using eff(4) [of e] eff(5) by (cases "e = r") auto
    then show "creatureIds (heap ?W' ! e) = creatureIds (heap W ! e)" "fixtureIds (heap ?W' ! e) = fixtureIds (heap W ! e)"
      "sessionId (heap ?W' ! e) = sessionId (heap W ! e)" "activityReason (heap ?W' ! e) = activityReason (heap W ! e)"
      "cancelled (heap W ! e) \<Longrightarrow> cancelled (heap ?W' ! e)"
      by (auto simp: cancelSessionLocked_def session_op_defs)
  qed (simp add: eff(3))
  have lists: "exclusive (heap ?W') (activeSessions st) \<and> (\<forall>e \<in> set (activeSessions st). activityGeneration (heap ?W' ! e) \<noteq> 0)"
    if st: "map_of (universeStates ?W') v = Some st" for v st
  proof (cases "v = u")
    case True
    have rs: "activeSessions st = filter (\<lambda>e. e \<notin> set ?V) (getActiveSessions W u) @ [r]"
      using eff(1) st True by (simp add: getActiveSessions_def)
    have "exclusive (heap ?W') (filter (\<lambda>e. e \<notin> set ?V) (getActiveSessions W u))"
      using exclusive_heap_le [OF exclusive_subset le] act [of u] by (auto simp: exclusive_def)
    moreover have "\<not> sessionsConflict (heap ?W' ! r) (heap ?W' ! e)"
      if e: "e \<in> set (filter (\<lambda>e. e \<notin> set ?V) (getActiveSessions W u))" "\<not> cancelled (heap ?W' ! e)" for e
    proof -
      have ne: "e \<noteq> r" "e \<notin> set ?V" "e \<in> set (getActiveSessions W u)" using e(1) fresh [of u] by auto
      then have eq: "heap ?W' ! e = heap W ! e" using eff(4) [of e] by simp
      then have "\<not> sessionsConflict (heap W ! r) (heap W ! e)"
        using ne e(2) by (simp add: adoption_victims_def)
      then show ?thesis
        unfolding eq eff(5) by (simp add: sessionsConflict_def setActivityGeneration_def)
    qed
    ultimately have "exclusive (heap ?W') (activeSessions st)"
      unfolding rs using fresh [of u] assms(2) eff(3) by (intro exclusive_snoc) auto
    moreover have "?n \<noteq> 0" using assms(1) by (simp add: registry_ok_def)
    ultimately show ?thesis using act [of u] fresh [of u] by (auto simp: rs gen)
  next
    case False
    then have "map_of (universeStates W) v = Some st" using eff(2) [of v] st by simp
    then have "activeSessions st = getActiveSessions W v" by (simp add: getActiveSessions_def)
    then show ?thesis using act [of v] fresh [of v] exclusive_heap_le [OF _ le] by (auto simp: gen)
  qed
  show ?thesis
    unfolding registry_ok_def eff(3,6)
  proof (intro conjI allI impI)
    show "?n + 1 \<noteq> 0" using inc by (metis not_less_zero word_not_simps(1) word_zero_le not_le)
  next
    fix e assume "e < length (heap W)"
    then show "activityGeneration (heap ?W' ! e) < ?n + 1"
      using assms(1) inc by (auto simp: gen registry_ok_def intro: less_trans)
  next
    fix e e' assume "e < length (heap W)" "e' < length (heap W)" "e \<noteq> e'" "activityGeneration (heap ?W' ! e) \<noteq> 0"
    then show "activityGeneration (heap ?W' ! e) \<noteq> activityGeneration (heap ?W' ! e')"
      using assms(1) unfolding gen registry_ok_def by (metis less_irrefl)
  next
    fix c show "generation_of (services ?W') c < ?n + 1" using eff(8) inc by (meson less_trans)
  qed (use lists in auto)
qed


section \<open>Reachable registries\<close>

text \<open>
  The steps of the server as the registry sees them: a session is constructed; an operation
  of the manager runs (an adoption takes a session that was never adopted, and the 64-bit
  counter has not run out); the playback code changes sessions (positions and flags, never
  ids, generations, or a cancellation back); an activity write is made for an adopted
  session; time passes and events are scheduled.
\<close>

definition op_enabled :: "manager_op \<Rightarrow> ('t, 'a) world_scheme \<Rightarrow> bool" where
  "op_enabled op W = (case op of
     Adopt u r isPl allOfIt \<Rightarrow>
       r < length (heap W) \<and> activityGeneration (heap W ! r) = 0 \<and> nextActivityGeneration W \<noteq> - 1
   | _ \<Rightarrow> True)"

inductive manager_step :: "('t, 'a) world_scheme \<Rightarrow> ('t, 'a) world_scheme \<Rightarrow> bool" where
  step_op: "op_enabled op W \<Longrightarrow> manager_step W (run_manager_op env op W)"
| step_new: "manager_step W (W\<lparr>heap := heap W @ [new_session decode uuid anim u start]\<rparr>)"
| step_play: "heap_le (heap W) H \<Longrightarrow> length H = length (heap W) \<Longrightarrow>
    \<forall>r. activityGeneration (H ! r) = activityGeneration (heap W ! r) \<Longrightarrow>
    manager_step W (W\<lparr>heap := H\<rparr>)"
| step_write: "r < length (heap W) \<Longrightarrow> w_generation w = activityGeneration (heap W ! r) \<Longrightarrow>
    manager_step W (W\<lparr>services := snd (setActivityState env ids w (services W))\<rparr>)"
| step_time: "manager_step W (W\<lparr>eventLoop := t, outbox := es\<rparr>)"

inductive_cases manager_step_elim: "manager_step W W'"

definition new_world :: "framenum_t option \<Rightarrow> 't world" where
  "new_world t = \<lparr>heap = [], universeStates = [], nextActivityGeneration = 1, services = new_service,
     eventLoop = t, outbox = []\<rparr>"

lemma registry_ok_new [simp]: "registry_ok (new_world t)"
  by (simp add: registry_ok_def new_world_def new_service_def generation_of_def)

lemma registry_ok_cong:
  assumes "registry_ok W" "heap W' = heap W" "universeStates W' = universeStates W"
    "nextActivityGeneration W' = nextActivityGeneration W" "\<forall>c. generation_of (services W') c < nextActivityGeneration W"
  shows "registry_ok W'"
  using assms unfolding registry_ok_def by simp

lemma exclusive_append: "exclusive H rs \<Longrightarrow> exclusive (H @ [s]) rs"
  by (auto simp: exclusive_def nth_append)

lemma registry_ok_append:
  assumes "registry_ok W" "activityGeneration s = 0"
  shows "registry_ok (W\<lparr>heap := heap W @ [s]\<rparr>)"
proof -
  have "0 < nextActivityGeneration W" using assms by (simp add: registry_ok_def word_neq_0_conv)
  moreover have "r \<in> set (activeSessions st) \<Longrightarrow> r < length (heap W)"
    if "map_of (universeStates W) v = Some st" for r v st
    using assms that by (auto simp: registry_ok_def exclusive_def)
  ultimately show ?thesis
    using assms
    by (auto simp: registry_ok_def nth_append less_Suc_eq intro: exclusive_append)
qed

lemma registry_ok_new_session:
  assumes "registry_ok W"
  shows "registry_ok (W\<lparr>heap := heap W @ [new_session decode uuid anim u start]\<rparr>)"
  using assms by (rule registry_ok_append) (simp add: new_session_def case_prod_unfold Let_def)

lemma registry_ok_step:
  assumes "manager_step W W'" "registry_ok W"
  shows "registry_ok W'"
  using assms
proof (cases rule: manager_step.cases)
  case (step_op op env)
  show ?thesis
  proof (cases "\<exists>u r isPl allOfIt. op = Adopt u r isPl allOfIt")
    case True
    then show ?thesis using step_op assms(2) by (auto simp: op_enabled_def intro: registry_ok_adopt)
  next
    case False
    then show ?thesis using step_op assms(2) shrinks_op registry_ok_shrinks by blast
  qed
next
  case (step_new decode uuid anim u start)
  then show ?thesis using assms(2) registry_ok_new_session by simp
next
  case (step_play H)
  then show ?thesis
    using assms(2) by (auto simp: shrinks_def intro!: registry_ok_shrinks [OF assms(2)])
next
  case (step_write r w env ids)
  then have "w_generation w < nextActivityGeneration W" using assms(2) by (simp add: registry_ok_def)
  then have "\<forall>c. generation_of (snd (setActivityState env ids w (services W))) c < nextActivityGeneration W"
    using assms(2) by (intro allI generation_of_setActivityState_bound) (simp_all add: registry_ok_def)
  then show ?thesis using step_write by (intro registry_ok_cong [OF assms(2)]) simp_all
next
  case (step_time t es)
  then show ?thesis using assms(2) by (intro registry_ok_cong [OF assms(2)]) (simp_all add: registry_ok_def)
qed

lemma registry_ok_reachable: "manager_step\<^sup>*\<^sup>* W W' \<Longrightarrow> registry_ok W \<Longrightarrow> registry_ok W'"
  by (induction rule: rtranclp_induct) (auto intro: registry_ok_step)

text \<open>
  C3: outputs are used exclusively (issues 62 and 65). In every state the server can reach,
  two different live (not cancelled) sessions registered on the same universe never drive
  the same creature or the same fixture.
\<close>

theorem live_sessions_share_no_output:
  assumes "manager_step\<^sup>*\<^sup>* (new_world t :: 't world) W"
    and "r \<in> set (getActiveSessions W u)" "r' \<in> set (getActiveSessions W u)" "r \<noteq> r'"
    and "\<not> cancelled (heap W ! r)" "\<not> cancelled (heap W ! r')"
  shows "set (creatureIds (heap W ! r)) \<inter> set (creatureIds (heap W ! r')) = {} \<and>
    set (fixtureIds (heap W ! r)) \<inter> set (fixtureIds (heap W ! r')) = {}"
proof -
  have "registry_ok W" using assms(1) by (rule registry_ok_reachable) simp
  then have "exclusive (heap W) (getActiveSessions W u)"
    by (auto simp: registry_ok_def getActiveSessions_def split: option.splits)
  then have "\<not> sessionsConflict (heap W ! r) (heap W ! r')" using assms(2-6) by (auto simp: exclusive_def)
  then show ?thesis by (auto simp: sessionsConflict_def list_ex_iff)
qed

text \<open>
  C32: generations order adoptions (issue 87). In every reachable state two sessions that
  have been adopted carry different generations, and both the registered sessions and the
  generations recorded by the runtime store are below the next one to be handed out.
\<close>

theorem generations_are_fresh:
  assumes "manager_step\<^sup>*\<^sup>* (new_world t :: 't world) W"
    and "r < length (heap W)" "r' < length (heap W)" "r \<noteq> r'" "activityGeneration (heap W ! r) \<noteq> 0"
  shows "activityGeneration (heap W ! r) \<noteq> activityGeneration (heap W ! r') \<and>
    activityGeneration (heap W ! r) < nextActivityGeneration W \<and>
    generation_of (services W) c < nextActivityGeneration W"
proof -
  have "registry_ok W" using assms(1) by (rule registry_ok_reachable) simp
  then show ?thesis using assms(2-) unfolding registry_ok_def by metis
qed


section \<open>Concrete runs\<close>

definition demo_session :: "string \<Rightarrow> string \<Rightarrow> unit session" where
  "demo_session sid c = new_session (\<lambda>f. Some [1]) sid
     (demo_animation [''x'']\<lparr>tracks := [\<lparr>track_id = ''t'', creature_id = c, fixture_id = [],
        track_animation_id = ''a'', frames = [''x'']\<rparr>]\<rparr>) 1 0"

definition demo_two :: "unit world" where
  "demo_two = (let W = (new_world (Some 10))\<lparr>heap := [] @ [demo_session ''s1'' ''beaky'']\<rparr> in
     W\<lparr>heap := heap W @ [demo_session ''s2'' ''mango'']\<rparr>)"

definition demo_first :: "unit world" where
  "demo_first = registerSession demo_env 1 (Some 0) False False demo_two"

definition demo_both :: "unit world" where
  "demo_both = registerSession demo_env 1 (Some 1) False False demo_first"

lemma demo_two_reachable: "manager_step\<^sup>*\<^sup>* (new_world (Some 10)) demo_two"
proof -
  have "manager_step (new_world (Some 10)) ((new_world (Some 10) :: unit world)
      \<lparr>heap := heap (new_world (Some 10)) @ [demo_session ''s1'' ''beaky'']\<rparr>)"
    unfolding demo_session_def by (rule step_new)
  then have "manager_step (new_world (Some 10)) ((new_world (Some 10))\<lparr>heap := [] @ [demo_session ''s1'' ''beaky'']\<rparr>)"
    by (simp add: new_world_def)
  moreover have "manager_step ((new_world (Some 10))\<lparr>heap := [] @ [demo_session ''s1'' ''beaky'']\<rparr>) demo_two"
    unfolding demo_two_def Let_def demo_session_def [of "''s2''"] by (rule step_new)
  ultimately show ?thesis by (meson rtranclp.rtrancl_into_rtrancl rtranclp.rtrancl_refl)
qed

lemma demo_first_reachable: "manager_step\<^sup>*\<^sup>* (new_world (Some 10)) demo_first"
proof -
  have "op_enabled (Adopt 1 0 False False) demo_two" by code_simp
  then have "manager_step demo_two demo_first"
    using step_op [of "Adopt 1 0 False False" demo_two demo_env] by (simp add: demo_first_def)
  then show ?thesis using demo_two_reachable by (meson rtranclp.rtrancl_into_rtrancl)
qed

lemma demo_both_reachable: "manager_step\<^sup>*\<^sup>* (new_world (Some 10)) demo_both"
proof -
  have "op_enabled (Adopt 1 1 False False) demo_first" by code_simp
  then have "manager_step demo_first demo_both"
    using step_op [of "Adopt 1 1 False False" demo_first demo_env] by (simp add: demo_both_def)
  then show ?thesis using demo_first_reachable by (meson rtranclp.rtrancl_into_rtrancl)
qed

theorem live_sessions_share_no_output_witness:
  "set (creatureIds (heap demo_both ! 0)) \<inter> set (creatureIds (heap demo_both ! 1)) = {}"
proof -
  have "getActiveSessions demo_both 1 = [0, 1]" by code_simp
  moreover have "\<not> cancelled (heap demo_both ! 0)" "\<not> cancelled (heap demo_both ! 1)" by code_simp+
  ultimately show ?thesis
    using live_sessions_share_no_output [OF demo_both_reachable, of 0 1 1] by simp
qed

theorem generations_are_fresh_witness:
  "activityGeneration (heap demo_both ! 0) \<noteq> activityGeneration (heap demo_both ! 1)"
proof -
  have "length (heap demo_both) = 2" "activityGeneration (heap demo_both ! 0) \<noteq> 0" by code_simp+
  then show ?thesis using generations_are_fresh [OF demo_both_reachable, of 0 1] by simp
qed

theorem adoption_takes_over_witness:
  "getActiveSessions (registerSession demo_env 1 (Some 1) False True demo_first) 1 = [1] \<and>
   outbox (registerSession demo_env 1 (Some 1) False True demo_first) = [(11, RunnerEvent 0)]"
proof -
  have ok: "registry_ok demo_first"
    using demo_first_reachable by (rule registry_ok_reachable) simp
  have "1 < length (heap demo_first)" "1 \<notin> set (getActiveSessions demo_first 1)" "eventLoop demo_first = Some 10"
    "getActiveSessions demo_first 1 = [0]" "adoption_victims 1 True 1 demo_first = [0]" "outbox demo_first = []"
    by code_simp+
  then show ?thesis
    using adoption_takes_over [OF ok, of 1 1 10 True demo_env False] by (simp add: Let_def)
qed

theorem stopped_playlist_stays_stopped_witness:
  "getPlaylistState (fold (\<lambda>(env, op). run_manager_op env op)
     [(demo_env, MarkInterrupted 1 True), (demo_env, Consume 1), (demo_env, Resume 1)]
     (stopPlaylist demo_env 1 (startPlaylist 1 ''p'' demo_both))) 1 = PlStopped"
proof (rule stopped_playlist_stays_stopped)
  show "getPlaylistState (stopPlaylist demo_env 1 (startPlaylist 1 ''p'' demo_both)) 1 = PlStopped"
    by code_simp
qed simp

end
