(* ===== verification/Binary64.thy ===== *)
theory Binary64
  imports Prelude "HOL-Library.Log_Nat" Complex_Main
begin

text \<open>
  IEEE 754 binary64 arithmetic on the values the server computes with. A finite double
  is represented by the rational it denotes; \<open>rnd64\<close> is round-to-nearest, ties to even,
  to a 53-bit significand. Every C++ operator on doubles is the exact rational operation
  followed by one \<open>rnd64\<close>. The exponent range is left unbounded: the code here only
  forms values of magnitude between 2^-64 and 2^64 (or zero), far inside it, so neither
  overflow nor subnormals occur.
\<close>

section \<open>Rounding\<close>

definition round_half_even :: "rat \<Rightarrow> int" where
  "round_half_even x = (let f = \<lfloor>x\<rfloor>; d = x - of_int f in
     if d < 1/2 then f else if 1/2 < d then f + 1 else if even f then f else f + 1)"

definition exp64 :: "rat \<Rightarrow> int" where
  "exp64 x = (let (n, d) = quotient_of x; e = bitlen n - bitlen d - 53 in
     if x < 2 powi (e + 53) then e else e + 1)"

definition rnd64_pos :: "rat \<Rightarrow> rat" where
  "rnd64_pos x = of_int (round_half_even (x / 2 powi (exp64 x))) * 2 powi (exp64 x)"

definition rnd64 :: "rat \<Rightarrow> rat" where
  "rnd64 x = (if x = 0 then 0 else if 0 < x then rnd64_pos x else - rnd64_pos (- x))"

definition dadd :: "rat \<Rightarrow> rat \<Rightarrow> rat" where "dadd x y = rnd64 (x + y)"
definition dsub :: "rat \<Rightarrow> rat \<Rightarrow> rat" where "dsub x y = rnd64 (x - y)"
definition dmul :: "rat \<Rightarrow> rat \<Rightarrow> rat" where "dmul x y = rnd64 (x * y)"
definition ddiv :: "rat \<Rightarrow> rat \<Rightarrow> rat" where "ddiv x y = rnd64 (x / y)"

text \<open>\<open>static_cast<double>(u)\<close> for an unsigned integer, and the truncating cast back.\<close>

definition of_uint64 :: "nat \<Rightarrow> rat" where "of_uint64 n = rnd64 (of_nat n)"
definition trunc_int :: "rat \<Rightarrow> int" where
  "trunc_int x = (if 0 \<le> x then \<lfloor>x\<rfloor> else - \<lfloor>- x\<rfloor>)"

section \<open>Rounding to an integer is monotone and exact on integers\<close>

lemma round_half_even_int [simp]: "round_half_even (of_int n) = n"
  by (simp add: round_half_even_def)

lemma round_half_even_bounds: "\<lfloor>x\<rfloor> \<le> round_half_even x" "round_half_even x \<le> \<lfloor>x\<rfloor> + 1"
  by (simp_all add: round_half_even_def Let_def)

lemma round_half_even_mono:
  assumes "x \<le> y"
  shows "round_half_even x \<le> round_half_even y"
proof (cases "\<lfloor>x\<rfloor> = \<lfloor>y\<rfloor>")
  case True
  with assms show ?thesis by (auto simp: round_half_even_def Let_def)
next
  case False
  have "\<lfloor>x\<rfloor> \<le> \<lfloor>y\<rfloor>" using assms by (rule floor_mono)
  with False have "\<lfloor>x\<rfloor> + 1 \<le> \<lfloor>y\<rfloor>" by linarith
  with round_half_even_bounds [of x] round_half_even_bounds [of y] show ?thesis by linarith
qed

section \<open>The exponent\<close>

lemma quotient_of_pos_parts:
  assumes "0 < x" "quotient_of x = (n, d)"
  shows "0 < n" "0 < d" "x = of_int n / of_int d"
proof -
  show d: "0 < d" using assms(2) by (rule quotient_of_denom_pos)
  show x: "x = of_int n / of_int d" using assms(2) by (rule quotient_of_div)
  with d assms(1) show "0 < n" by (simp add: zero_less_divide_iff)
qed

lemma bitlen_powi_bounds:
  assumes "0 < n"
  shows "(2 :: rat) powi (bitlen n - 1) \<le> of_int n" "of_int n < (2 :: rat) powi bitlen n"
proof -
  have b: "1 \<le> bitlen n" "2 ^ nat (bitlen n - 1) \<le> n" "n < 2 ^ nat (bitlen n)"
    using bitlen_bounds [OF assms] assms by (auto simp: bitlen_def floorlog_def)
  have "(2 :: rat) ^ nat (bitlen n - 1) \<le> of_int n"
    using b(2) by (metis of_int_le_iff of_int_numeral of_int_power)
  then show "(2 :: rat) powi (bitlen n - 1) \<le> of_int n"
    using b(1) by (simp add: power_int_def)
  have "of_int n < (2 :: rat) ^ nat (bitlen n)"
    using b(3) by (metis of_int_less_iff of_int_numeral of_int_power)
  then show "of_int n < (2 :: rat) powi bitlen n"
    using b(1) by (simp add: power_int_def)
qed

lemma exp64_bounds:
  assumes "0 < x"
  shows "2 powi (exp64 x + 52) \<le> x" "x < 2 powi (exp64 x + 53)"
proof -
  obtain n d where q: "quotient_of x = (n, d)" by fastforce
  note nd = quotient_of_pos_parts [OF assms q]
  note bn = bitlen_powi_bounds [OF nd(1)] and bd = bitlen_powi_bounds [OF nd(2)]
  let ?e = "bitlen n - bitlen d - 53"
  have d0: "(0 :: rat) < of_int d" using nd(2) by simp
  have p: "(0 :: rat) < 2 powi k" for k by simp
  have "(2 :: rat) powi (?e + 52) * of_int d \<le> 2 powi (?e + 52) * 2 powi bitlen d"
    using bd(2) by simp
  also have "\<dots> = 2 powi (bitlen n - 1)" by (simp flip: power_int_add)
  also have "\<dots> \<le> of_int n" by (rule bn(1))
  finally have lo: "2 powi (?e + 52) \<le> x"
    using d0 nd(3) by (simp add: pos_le_divide_eq)
  have "of_int n < (2 :: rat) powi bitlen n" by (rule bn(2))
  also have "\<dots> = 2 powi (?e + 54) * 2 powi (bitlen d - 1)" by (simp flip: power_int_add)
  also have "\<dots> \<le> 2 powi (?e + 54) * of_int d" using bd(1) by simp
  finally have hi: "x < 2 powi (?e + 54)"
    using d0 nd(3) by (simp add: pos_divide_less_eq)
  have ex: "exp64 x = (if x < 2 powi (?e + 53) then ?e else ?e + 1)"
    by (simp add: exp64_def q)
  show "2 powi (exp64 x + 52) \<le> x"
    using lo ex by (simp add: add.assoc split: if_splits)
  show "x < 2 powi (exp64 x + 53)"
    using hi ex by (simp add: add.assoc split: if_splits)
qed

lemma exp64_unique:
  assumes "2 powi (e + 52) \<le> x" "x < 2 powi (e + 53)"
  shows "exp64 x = e"
proof -
  have x: "0 < x" using assms(1) by (meson less_le_trans zero_less_power_int zero_less_numeral)
  have lt: "a + 52 < b + 53" if "(2 :: rat) powi (a + 52) \<le> x" "x < 2 powi (b + 53)" for a b
  proof (rule ccontr)
    assume "\<not> ?thesis"
    then have "(2 :: rat) powi (b + 53) \<le> 2 powi (a + 52)" by (intro power_int_increasing) auto
    with that show False by linarith
  qed
  show ?thesis
    using lt [OF assms(1) exp64_bounds(2) [OF x]] lt [OF exp64_bounds(1) [OF x] assms(2)] by linarith
qed

lemma exp64_mono:
  assumes "0 < x" "x \<le> y"
  shows "exp64 x \<le> exp64 y"
proof (rule ccontr)
  assume "\<not> ?thesis"
  then have "(2 :: rat) powi (exp64 y + 53) \<le> 2 powi (exp64 x + 52)"
    by (intro power_int_increasing) auto
  with exp64_bounds(1) [OF assms(1)] exp64_bounds(2) [of y] assms show False by linarith
qed

section \<open>Rounding to 53 bits\<close>

lemma powi2_pos [simp]: "(0 :: rat) < 2 powi k"
  by simp

lemma powi2_not_neg [simp]: "\<not> (2 :: rat) powi k < 0"
  by (simp add: not_less)

lemma rnd64_pos_bounds:
  assumes "0 < x"
  shows "2 powi (exp64 x + 52) \<le> rnd64_pos x" "rnd64_pos x \<le> 2 powi (exp64 x + 53)"
proof -
  let ?e = "exp64 x" let ?m = "x / 2 powi ?e"
  have "of_int (2 ^ 52) \<le> ?m" "?m \<le> of_int (2 ^ 53)"
    using exp64_bounds [OF assms] by (simp_all add: power_int_add pos_le_divide_eq pos_divide_le_eq mult.commute)
  from this [THEN round_half_even_mono] have "2 ^ 52 \<le> round_half_even ?m" "round_half_even ?m \<le> 2 ^ 53"
    by (simp_all only: round_half_even_int)
  then have "(2 :: rat) ^ 52 \<le> of_int (round_half_even ?m)" "of_int (round_half_even ?m) \<le> (2 :: rat) ^ 53"
    by (metis of_int_le_iff of_int_numeral of_int_power)+
  then show "2 powi (?e + 52) \<le> rnd64_pos x" "rnd64_pos x \<le> 2 powi (?e + 53)"
    by (simp_all add: rnd64_pos_def power_int_add mult.commute)
qed

lemma rnd64_pos_positive: "0 < x \<Longrightarrow> 0 < rnd64_pos x"
  using rnd64_pos_bounds(1) [of x] powi2_pos [of "exp64 x + 52"] by linarith

lemma rnd64_pos_mono:
  assumes "0 < x" "x \<le> y"
  shows "rnd64_pos x \<le> rnd64_pos y"
proof (cases "exp64 x = exp64 y")
  case True
  have "x / 2 powi exp64 y \<le> y / 2 powi exp64 y"
    using assms(2) by (simp add: divide_right_mono)
  then show ?thesis
    using round_half_even_mono True by (simp add: rnd64_pos_def)
next
  case False
  with exp64_mono [OF assms] have "exp64 x + 53 \<le> exp64 y + 52" by linarith
  then have "(2 :: rat) powi (exp64 x + 53) \<le> 2 powi (exp64 y + 52)"
    by (intro power_int_increasing) auto
  with rnd64_pos_bounds(2) [OF assms(1)] rnd64_pos_bounds(1) [of y] assms show ?thesis by linarith
qed

lemma rnd64_pos_exact:
  assumes m: "0 < m" "m \<le> 2 ^ 53" and x: "x = of_int m * 2 powi k"
  shows "rnd64_pos x = x"
proof -
  let ?e = "exp64 x"
  have x0: "0 < x" using m(1) x by simp
  have "of_int m \<le> (2 :: rat) ^ 53"
    using m(2) by (metis of_int_le_iff of_int_numeral of_int_power)
  then have "of_int m * 2 powi k \<le> (2 :: rat) ^ 53 * 2 powi k"
    by (rule mult_right_mono) simp
  then have "x \<le> 2 powi (k + 53)"
    using x by (simp add: power_int_add mult.commute)
  with exp64_bounds(1) [OF x0] have le: "(2 :: rat) powi (?e + 52) \<le> 2 powi (k + 53)" by linarith
  have ek: "?e \<le> k + 1"
  proof (rule ccontr)
    assume "\<not> ?thesis"
    then have "k + 53 < ?e + 52" by simp
    then have "(2 :: rat) powi (k + 53) < 2 powi (?e + 52)" by (intro power_int_strict_increasing) auto
    with le show False by linarith
  qed
  have "\<exists>i. x / 2 powi ?e = of_int i"
  proof (cases "?e = k + 1")
    case True
    with exp64_bounds(1) [OF x0] have "(2 :: rat) powi (k + 53) \<le> of_int m * 2 powi k"
      using x by (simp add: add.commute)
    then have "(2 :: rat) ^ 53 * 2 powi k \<le> of_int m * 2 powi k"
      by (simp add: power_int_add mult.commute)
    then have "(2 :: rat) ^ 53 \<le> of_int m" by simp
    then have "2 ^ 53 \<le> m" by (metis of_int_le_iff of_int_numeral of_int_power)
    with m(2) have "m = 2 ^ 53" by simp
    with True x have "x / 2 powi ?e = of_int (2 ^ 52)" by (simp add: power_int_add)
    then show ?thesis by blast
  next
    case False
    with ek have "0 \<le> k - ?e" by simp
    then have "(2 :: rat) ^ nat (k - ?e) = 2 powi (k - ?e)" by (simp add: power_int_def)
    also have "\<dots> = 2 powi k / 2 powi ?e" by (simp add: power_int_diff)
    finally have "(2 :: rat) powi k / 2 powi ?e = of_int (2 ^ nat (k - ?e))" by simp
    then have "x / 2 powi ?e = of_int (m * 2 ^ nat (k - ?e))"
      unfolding x by (simp only: of_int_mult flip: times_divide_eq_right)
    then show ?thesis by blast
  qed
  then obtain i where i: "x / 2 powi ?e = of_int i" by blast
  have "rnd64_pos x = of_int i * 2 powi ?e"
    by (simp only: rnd64_pos_def i round_half_even_int)
  also have "\<dots> = x" using i [symmetric] by simp
  finally show ?thesis .
qed

lemma rnd64_0 [simp]: "rnd64 0 = 0"
  by (simp add: rnd64_def)

lemma rnd64_minus: "rnd64 (- x) = - rnd64 x"
  by (auto simp: rnd64_def)

lemma rnd64_mono:
  assumes "x \<le> y"
  shows "rnd64 x \<le> rnd64 y"
proof -
  consider "0 < x" | "x \<le> 0" "0 \<le> y" | "y < 0" by linarith
  then show ?thesis
  proof cases
    case 1
    with assms rnd64_pos_mono [OF 1 assms] show ?thesis by (simp add: rnd64_def)
  next
    case 2
    have "rnd64 x \<le> 0" using 2(1) rnd64_pos_positive [of "- x"] by (auto simp: rnd64_def)
    moreover have "0 \<le> rnd64 y" using 2(2) rnd64_pos_positive [of y] by (auto simp: rnd64_def)
    ultimately show ?thesis by linarith
  next
    case 3
    with assms rnd64_pos_mono [of "- y" "- x"] show ?thesis by (simp add: rnd64_def)
  qed
qed

lemma rnd64_exact: "\<bar>m\<bar> \<le> 2 ^ 53 \<Longrightarrow> rnd64 (of_int m * 2 powi k) = of_int m * 2 powi k"
  using rnd64_pos_exact [of m "of_int m * 2 powi k" k] rnd64_pos_exact [of "- m" "- (of_int m * 2 powi k)" k]
  by (cases "m = 0") (auto simp: rnd64_def zero_less_mult_iff mult_less_0_iff)

lemma rnd64_of_int: "\<bar>m\<bar> \<le> 2 ^ 53 \<Longrightarrow> rnd64 (of_int m) = of_int m"
  using rnd64_exact [of m 0] by simp

lemma rnd64_of_half: "\<bar>m\<bar> \<le> 2 ^ 53 \<Longrightarrow> rnd64 (of_int m / 2) = of_int m / 2"
  using rnd64_exact [of m "- 1"] by (simp add: power_int_minus)

lemma of_uint64_exact: "n \<le> 2 ^ 53 \<Longrightarrow> of_uint64 n = of_nat n"
  using rnd64_of_int [of "int n"] by (simp add: of_uint64_def)

lemma trunc_int_mono: "x \<le> y \<Longrightarrow> trunc_int x \<le> trunc_int y"
  unfolding trunc_int_def using floor_mono [of x y] floor_mono [of "- y" "- x"]
  by (auto simp: floor_le_iff le_floor_iff intro: order.trans [of _ 0])

lemma trunc_int_of_int [simp]: "trunc_int (of_int n) = n"
  by (simp add: trunc_int_def)

end
