(* ===== verification/Fixture_Runner.thy ===== *)
theory Fixture_Runner
  imports Fixture_Model Session_Manager Binary64
begin

text \<open>
  \<open>FixturePatternRunner\<close> (src/src/server/fixture/FixturePatternRunner.h and .cpp): the active
  patterns and live-control entries of the fixtures, the fades between byte vectors, and the
  flag that keeps at most one tick event pending. Each critical section under \<open>mapMutex_\<close> is
  one function; \<open>start\<close> has two of them. The maps are association lists, in iteration order.
\<close>

section \<open>State\<close>

datatype fixture_pattern_phase = FadeIn | Hold | FadeOut | Done

record active_pattern =
  ap_fixtureId :: fixtureId_t
  ap_patternId :: string
  ap_universe :: universe_t
  startedAtFrame :: framenum_t
  fadeInDoneFrame :: framenum_t
  holdDoneFrame :: framenum_t
  fadeOutDoneFrame :: framenum_t
  phase :: fixture_pattern_phase
  ap_channelOffset :: u16
  channelSpan :: u16
  startValues :: "u8 list"
  targetValues :: "u8 list"
  lastRenderedValues :: "u8 list"
  ap_creatureId :: creatureId_t
  fadeInMs :: u32
  fadeOutMs :: u32
  holdMs :: u32
  triggerTraceId :: string
  triggerSpanId :: string

record active_live =
  al_fixtureId :: fixtureId_t
  al_universe :: universe_t
  al_channelOffset :: u16
  al_channelSpan :: u16
  live_values :: "u8 list"
  deadlineFrame :: framenum_t
  al_triggerTraceId :: string
  al_triggerSpanId :: string

record fixture_runner =
  active :: "(fixtureId_t \<times> active_pattern) list"
  live :: "(fixtureId_t \<times> active_live) list"
  tickArmed :: bool

definition new_fixture_runner :: fixture_runner where
  "new_fixture_runner = \<lparr>active = [], live = [], tickArmed = False\<rparr>"

text \<open>The parent span of a request, as its trace and span ids.\<close>

type_synonym span_ids = "(string \<times> string) option"

section \<open>The tick flag and the queries\<close>

definition tryArm :: "fixture_runner \<Rightarrow> bool \<times> fixture_runner" where
  "tryArm R = (if tickArmed R then (False, R) else (True, R\<lparr>tickArmed := True\<rparr>))"

definition disarm :: "fixture_runner \<Rightarrow> fixture_runner" where
  "disarm R = R\<lparr>tickArmed := False\<rparr>"

definition hasActivePatterns :: "fixture_runner \<Rightarrow> bool" where
  "hasActivePatterns R \<longleftrightarrow> active R \<noteq> []"

definition hasLive :: "fixture_runner \<Rightarrow> fixtureId_t \<Rightarrow> bool" where
  "hasLive R f \<longleftrightarrow> map_of (live R) f \<noteq> None"

section \<open>Interpolation\<close>

definition byte_double :: "u8 \<Rightarrow> rat" where
  "byte_double b = of_nat (unat b)"

definition lerp :: "u8 \<Rightarrow> u8 \<Rightarrow> rat \<Rightarrow> u8" where
  "lerp a b t =
     (if t \<le> 0 then a
      else if 1 \<le> t then b
      else (let result = dadd (byte_double a) (dmul (dsub (byte_double b) (byte_double a)) t) in
        if result < 0 then 0
        else if 255 < result then 255
        else word_of_int (trunc_int (dadd result (1 / 2)))))"

definition frame_ratio :: "framenum_t \<Rightarrow> u32 \<Rightarrow> rat" where
  "frame_ratio elapsed ms = ddiv (of_uint64 (unat elapsed)) (of_uint64 (unat ms))"

definition interpolate :: "u16 \<Rightarrow> u8 list \<Rightarrow> u8 list \<Rightarrow> rat \<Rightarrow> u8 list" where
  "interpolate sp from to t =
     map (\<lambda>i. lerp (nth_or 0 from i) (nth_or 0 to i) t) [0..<unat sp]"

section \<open>Starting and stopping a pattern\<close>

definition fixture_span :: "dmx_fixture \<Rightarrow> u16" where
  "fixture_span f = fold (\<lambda>ch m. max m (ch_offset ch)) (channels f) 0 + 1"

text \<open>
  The loop that fills the target vector. An offset past the vector (only possible when a
  channel's offset is 65535, so that the span wraps to zero) is undefined in the code; here
  the write has no effect.
\<close>

definition pattern_targets :: "dmx_fixture \<Rightarrow> fixture_pattern \<Rightarrow> u8 list \<times> bool" where
  "pattern_targets f p = fold (\<lambda>pv (tv, touched). case findChannelByName f (pv_channel pv) of
       None \<Rightarrow> (tv, touched)
     | Some ch \<Rightarrow> (tv[unat (ch_offset ch) := pv_value pv], True))
     (pat_values p) (replicate (unat (fixture_span f)) 0, False)"

definition pattern_entry ::
  "dmx_fixture \<Rightarrow> fixture_pattern \<Rightarrow> universe_t \<Rightarrow> creatureId_t \<Rightarrow> framenum_t \<Rightarrow> span_ids \<Rightarrow> active_pattern"
where
  "pattern_entry f p universe creature cur sp =
     (let fadeInDone = cur + ucast (fade_in_ms p);
          holdDone = (if hold_ms p = 0 then framenum_max else fadeInDone + ucast (hold_ms p));
          fadeOutDone = (if holdDone = framenum_max then framenum_max
                         else holdDone + ucast (fade_out_ms p))
      in \<lparr>ap_fixtureId = fx_id f, ap_patternId = pat_id p, ap_universe = universe,
          startedAtFrame = cur, fadeInDoneFrame = fadeInDone, holdDoneFrame = holdDone,
          fadeOutDoneFrame = fadeOutDone, phase = FadeIn,
          ap_channelOffset = fixture_channel_offset f, channelSpan = fixture_span f,
          startValues = [], targetValues = fst (pattern_targets f p), lastRenderedValues = [],
          ap_creatureId = creature, fadeInMs = fade_in_ms p, fadeOutMs = fade_out_ms p,
          holdMs = hold_ms p,
          triggerTraceId = (case sp of None \<Rightarrow> [] | Some (t, s) \<Rightarrow> t),
          triggerSpanId = (case sp of None \<Rightarrow> [] | Some (t, s) \<Rightarrow> s)\<rparr>)"

text \<open>
  \<open>start\<close> in its two critical sections: the refusals (no channels, live control, no channel
  touched), and the installation, which does not look at \<open>live\<close> again.
\<close>

definition start_check :: "dmx_fixture \<Rightarrow> fixture_pattern \<Rightarrow> fixture_runner \<Rightarrow> bool" where
  "start_check f p R =
     (if channels f = [] then False
      else if map_of (live R) (fx_id f) \<noteq> None then False
      else snd (pattern_targets f p))"

definition start_install ::
  "dmx_fixture \<Rightarrow> fixture_pattern \<Rightarrow> universe_t \<Rightarrow> creatureId_t \<Rightarrow> framenum_t \<Rightarrow> span_ids \<Rightarrow>
   fixture_runner \<Rightarrow> fixture_runner"
where
  "start_install f p universe creature cur sp R =
     (let entry = pattern_entry f p universe creature cur sp;
          n = unat (channelSpan entry);
          sv = (case map_of (active R) (fx_id f) of
                  Some old \<Rightarrow> resize_vec n 0
                    (if lastRenderedValues old = [] then replicate n 0 else lastRenderedValues old)
                | None \<Rightarrow> replicate n 0)
      in R\<lparr>active := AList.update (fx_id f)
            (entry\<lparr>startValues := sv, lastRenderedValues := sv\<rparr>) (active R)\<rparr>)"

definition start_pattern ::
  "dmx_fixture \<Rightarrow> fixture_pattern \<Rightarrow> universe_t \<Rightarrow> creatureId_t \<Rightarrow> framenum_t \<Rightarrow> span_ids \<Rightarrow>
   fixture_runner \<Rightarrow> bool \<times> fixture_runner"
where
  "start_pattern f p universe creature cur sp R =
     (if start_check f p R then (True, start_install f p universe creature cur sp R)
      else (False, R))"

definition stop_entry :: "framenum_t \<Rightarrow> active_pattern \<Rightarrow> active_pattern" where
  "stop_entry cur e = e\<lparr>
     startValues := resize_vec (unat (channelSpan e)) 0
       (if lastRenderedValues e = [] then targetValues e else lastRenderedValues e),
     targetValues := replicate (unat (channelSpan e)) 0,
     phase := FadeOut,
     startedAtFrame := cur,
     fadeInDoneFrame := cur,
     holdDoneFrame := cur,
     fadeOutDoneFrame := cur + ucast (fadeOutMs e)\<rparr>"

definition stop_pattern :: "fixtureId_t \<Rightarrow> framenum_t \<Rightarrow> fixture_runner \<Rightarrow> fixture_runner" where
  "stop_pattern fid cur R = (case map_of (active R) fid of
     None \<Rightarrow> R
   | Some e \<Rightarrow>
       if phase e = FadeOut \<or> phase e = Done then R
       else R\<lparr>active := AList.update fid (stop_entry cur e) (active R)\<rparr>)"

section \<open>Live control\<close>

fun resolve_live :: "dmx_fixture \<Rightarrow> (string \<times> u8) list \<Rightarrow> (u16 \<times> u8) list option" where
  "resolve_live f [] = Some []"
| "resolve_live f ((name, v) # cvs) = (case find (\<lambda>ch. ch_name ch = name) (channels f) of
     None \<Rightarrow> None
   | Some ch \<Rightarrow>
       if fixture_span f \<le> ch_offset ch then None
       else map_option (\<lambda>rest. (ch_offset ch, v) # rest) (resolve_live f cvs))"

text \<open>The live entry found or created, and the update every accepted call makes to it.\<close>

definition seed_live :: "dmx_fixture \<Rightarrow> universe_t \<Rightarrow> active_live option \<Rightarrow> active_live" where
  "seed_live f universe old = (case old of
     None \<Rightarrow> \<lparr>al_fixtureId = fx_id f, al_universe = universe,
       al_channelOffset = fixture_channel_offset f, al_channelSpan = fixture_span f,
       live_values = replicate (unat (fixture_span f)) 0, deadlineFrame = 0,
       al_triggerTraceId = [], al_triggerSpanId = []\<rparr>
   | Some e \<Rightarrow>
      (let e1 = e\<lparr>al_universe := universe, al_channelOffset := fixture_channel_offset f\<rparr> in
       if length (live_values e1) \<noteq> unat (fixture_span f)
       then e1\<lparr>live_values := resize_vec (unat (fixture_span f)) 0 (live_values e1),
               al_channelSpan := fixture_span f\<rparr>
       else e1))"

definition write_live :: "(u16 \<times> u8) list \<Rightarrow> framenum_t \<Rightarrow> span_ids \<Rightarrow> active_live \<Rightarrow> active_live" where
  "write_live resolved deadline sp e = e\<lparr>
     live_values := fold (\<lambda>(off, v) vs. vs[unat off := v]) resolved (live_values e),
     deadlineFrame := deadline,
     al_triggerTraceId := (case sp of None \<Rightarrow> [] | Some (t, s) \<Rightarrow> t),
     al_triggerSpanId := (case sp of None \<Rightarrow> [] | Some (t, s) \<Rightarrow> s)\<rparr>"

definition setLive ::
  "dmx_fixture \<Rightarrow> (string \<times> u8) list \<Rightarrow> u32 \<Rightarrow> universe_t \<Rightarrow> framenum_t \<Rightarrow> span_ids \<Rightarrow>
   fixture_runner \<Rightarrow> bool \<times> fixture_runner"
where
  "setLive f cvs timeoutMs universe cur sp R =
     (if channels f = [] then (False, R)
      else if cvs = [] then (False, R)
      else if timeoutMs = 0 then (False, R)
      else (case resolve_live f cvs of
          None \<Rightarrow> (False, R)
        | Some resolved \<Rightarrow>
           (let old = map_of (live R) (fx_id f);
                entry = write_live resolved (cur + ucast timeoutMs) sp (seed_live f universe old)
            in (True, R\<lparr>live := AList.update (fx_id f) entry (live R),
                  active := (if old = None then AList.delete (fx_id f) (active R) else active R)\<rparr>))))"

section \<open>Ticking\<close>

definition FIXTURE_PATTERN_TICK_INTERVAL_FRAMES :: framenum_t where
  "FIXTURE_PATTERN_TICK_INTERVAL_FRAMES = 20"

definition render_entry :: "framenum_t \<Rightarrow> active_pattern \<Rightarrow> active_pattern" where
  "render_entry cur e = (case phase e of
     FadeIn \<Rightarrow>
       if fadeInMs e = 0 \<or> fadeInDoneFrame e \<le> cur then
         e\<lparr>phase := Hold, lastRenderedValues := targetValues e\<rparr>
       else e\<lparr>lastRenderedValues := interpolate (channelSpan e) (startValues e) (targetValues e)
                (frame_ratio (cur - startedAtFrame e) (fadeInMs e))\<rparr>
   | Hold \<Rightarrow>
       if holdDoneFrame e \<noteq> framenum_max \<and> holdDoneFrame e \<le> cur then
         e\<lparr>phase := FadeOut, startedAtFrame := cur, fadeOutDoneFrame := cur + ucast (fadeOutMs e),
           startValues := targetValues e, targetValues := replicate (unat (channelSpan e)) 0,
           lastRenderedValues := targetValues e\<rparr>
       else e\<lparr>lastRenderedValues := targetValues e\<rparr>
   | FadeOut \<Rightarrow>
       if fadeOutMs e = 0 \<or> fadeOutDoneFrame e \<le> cur then
         e\<lparr>phase := Done, lastRenderedValues := targetValues e\<rparr>
       else e\<lparr>lastRenderedValues := interpolate (channelSpan e) (startValues e) (targetValues e)
                (frame_ratio (cur - startedAtFrame e) (fadeOutMs e))\<rparr>
   | Done \<Rightarrow> e)"

definition pattern_write :: "active_pattern \<Rightarrow> dmx_event" where
  "pattern_write e = \<lparr>dmx_universe = ap_universe e, channelOffset = ucast (ap_channelOffset e),
     dmx_data = lastRenderedValues e\<rparr>"

definition live_write :: "framenum_t \<Rightarrow> active_live \<Rightarrow> dmx_event" where
  "live_write cur e = \<lparr>dmx_universe = al_universe e, channelOffset = ucast (al_channelOffset e),
     dmx_data = (if deadlineFrame e \<le> cur then replicate (unat (al_channelSpan e)) 0
                 else live_values e)\<rparr>"

definition runner_tick ::
  "bool \<Rightarrow> framenum_t \<Rightarrow> fixture_runner \<Rightarrow> (bool \<times> server_event event list) \<times> fixture_runner"
where
  "runner_tick hasLoop cur R =
     (let toEmit = map (render_entry cur) (filter (\<lambda>e. phase e \<noteq> Done) (map snd (active R)));
          active' = map (\<lambda>(k, e). (k, render_entry cur e)) (active R);
          finished = map ap_fixtureId (filter (\<lambda>e. phase e = Done) (map snd active'));
          liveFinished = map al_fixtureId (filter (\<lambda>e. deadlineFrame e \<le> cur) (map snd (live R)));
          events = (if hasLoop then
              map (\<lambda>e. (cur, DmxWrite (pattern_write e))) toEmit @
              map (\<lambda>e. (cur, DmxWrite (live_write cur e))) (map snd (live R)) else []);
          R' = R\<lparr>active := fold AList.delete finished active',
                 live := fold AList.delete liveFinished (live R)\<rparr>
      in ((active R' \<noteq> [] \<or> live R' \<noteq> [], events), R'))"

section \<open>A fade stays between its endpoints and moves one way\<close>

lemma byte_less: "unat (b :: u8) < 256"
  using unsigned_less [where 'a = nat, of b] by simp

lemma byte_double_le_iff [simp]: "byte_double a \<le> byte_double b \<longleftrightarrow> a \<le> b"
  unfolding byte_double_def of_nat_le_iff word_le_nat_alt ..

lemma byte_cases:
  obtains n where "unat (b :: u8) = n" "byte_double b = of_nat n" "n < 256"
  using byte_less [of b] unfolding byte_double_def by blast

lemma byte_double_range: "0 \<le> byte_double b" "byte_double b \<le> 255"
  by (cases b rule: byte_cases; simp)+

lemma byte_double_diff: "dsub (byte_double b) (byte_double a) = byte_double b - byte_double a"
proof -
  obtain m where m: "unat a = m" "byte_double a = of_nat m" "m < 256" by (rule byte_cases)
  obtain n where n: "unat b = n" "byte_double b = of_nat n" "n < 256" by (rule byte_cases)
  have "\<bar>int n - int m\<bar> \<le> 2 ^ 53" using m(3) n(3) by simp
  from rnd64_of_int [OF this] show ?thesis by (simp add: dsub_def m n)
qed

text \<open>The value before the final conversion, and the conversion of a value in range.\<close>

definition lerp_double :: "u8 \<Rightarrow> u8 \<Rightarrow> rat \<Rightarrow> rat" where
  "lerp_double a b t = dadd (byte_double a) (dmul (dsub (byte_double b) (byte_double a)) t)"

definition round_byte :: "rat \<Rightarrow> int" where
  "round_byte x = trunc_int (dadd x (1 / 2))"

lemma round_byte_mono: "x \<le> y \<Longrightarrow> round_byte x \<le> round_byte y"
  by (simp add: round_byte_def dadd_def rnd64_mono trunc_int_mono)

lemma round_byte_byte: "round_byte (byte_double b) = uint b"
proof -
  obtain n where n: "unat b = n" "byte_double b = of_nat n" "n < 256" by (rule byte_cases)
  have "\<bar>2 * int n + 1\<bar> \<le> 2 ^ 53" using n(3) by simp
  from rnd64_of_half [OF this]
  have "rnd64 (of_nat n + 1 / 2) = of_nat n + 1 / 2" by (simp add: add_divide_distrib)
  moreover have "trunc_int (of_nat n + 1 / 2) = int n"
    by (simp add: trunc_int_def floor_eq_iff)
  ultimately show ?thesis unfolding round_byte_def dadd_def uint_nat n(1,2) by simp
qed

lemma uint_byte: "0 \<le> uint (b :: u8)" "uint (b :: u8) < 256"
  using unsigned_less [where 'a = int, of b] by simp_all

lemma rnd64_byte [simp]: "rnd64 (byte_double b) = byte_double b"
proof -
  obtain n where n: "unat b = n" "byte_double b = of_nat n" "n < 256" by (rule byte_cases)
  then show ?thesis using rnd64_of_int [of "int n"] by simp
qed

lemma scaled_diff:
  assumes "0 \<le> t" "t \<le> t'" "t' \<le> 1" "a \<le> b"
  shows "0 \<le> dmul (dsub (byte_double b) (byte_double a)) t"
    and "dmul (dsub (byte_double b) (byte_double a)) t \<le> dmul (dsub (byte_double b) (byte_double a)) t'"
    and "dmul (dsub (byte_double b) (byte_double a)) t' \<le> byte_double b - byte_double a"
proof -
  let ?d = "byte_double b - byte_double a"
  have d: "0 \<le> ?d" using assms(4) by simp
  note ds = byte_double_diff [of b a]
  have r: "rnd64 ?d = ?d" using ds by (simp add: dsub_def)
  show "0 \<le> dmul (dsub (byte_double b) (byte_double a)) t"
    using rnd64_mono [of 0 "?d * t"] d assms(1) by (simp add: ds dmul_def)
  show "dmul (dsub (byte_double b) (byte_double a)) t \<le> dmul (dsub (byte_double b) (byte_double a)) t'"
    using d assms(2) by (auto simp: ds dmul_def intro!: rnd64_mono mult_left_mono)
  have "?d * t' \<le> ?d" using mult_left_mono [OF assms(3) d] by simp
  then show "dmul (dsub (byte_double b) (byte_double a)) t' \<le> ?d"
    using rnd64_mono [of "?d * t'" ?d] by (simp add: ds dmul_def r)
qed

lemma dsub_swap: "dsub x y = - dsub y x"
  using rnd64_minus [of "y - x"] by (simp add: dsub_def)

lemma dmul_minus: "dmul (- x) t = - dmul x t"
  using rnd64_minus [of "x * t"] by (simp add: dmul_def)

lemma lerp_double_up:
  assumes "0 \<le> t" "t \<le> t'" "t' \<le> 1" "a \<le> b"
  shows "byte_double a \<le> lerp_double a b t" "lerp_double a b t \<le> lerp_double a b t'"
    "lerp_double a b t' \<le> byte_double b"
proof -
  note s = scaled_diff [OF assms]
  show "byte_double a \<le> lerp_double a b t"
    using rnd64_mono [of "byte_double a" "byte_double a + dmul (dsub (byte_double b) (byte_double a)) t"] s(1)
    by (simp add: lerp_double_def dadd_def rnd64_byte)
  show "lerp_double a b t \<le> lerp_double a b t'"
    using s(2) by (simp add: lerp_double_def dadd_def rnd64_mono)
  show "lerp_double a b t' \<le> byte_double b"
    using rnd64_mono [of "byte_double a + dmul (dsub (byte_double b) (byte_double a)) t'" "byte_double b"] s(3)
    by (simp add: lerp_double_def dadd_def rnd64_byte le_diff_eq add.commute)
qed

lemma lerp_double_down:
  assumes "0 \<le> t" "t \<le> t'" "t' \<le> 1" "b \<le> a"
  shows "byte_double b \<le> lerp_double a b t'" "lerp_double a b t' \<le> lerp_double a b t"
    "lerp_double a b t \<le> byte_double a"
proof -
  note s = scaled_diff [OF assms]
  have l: "lerp_double a b x = rnd64 (byte_double a - dmul (dsub (byte_double a) (byte_double b)) x)" for x
    by (simp add: lerp_double_def dadd_def dsub_swap [of "byte_double b"] dmul_minus)
  show "byte_double b \<le> lerp_double a b t'"
    using rnd64_mono [of "byte_double b" "byte_double a - dmul (dsub (byte_double a) (byte_double b)) t'"] s(3)
    by (simp add: l rnd64_byte)
  show "lerp_double a b t' \<le> lerp_double a b t"
    using s(2) by (simp add: l rnd64_mono)
  show "lerp_double a b t \<le> byte_double a"
    using rnd64_mono [of "byte_double a - dmul (dsub (byte_double a) (byte_double b)) t" "byte_double a"] s(1)
    by (simp add: l rnd64_byte)
qed

lemma lerp_double_range:
  assumes "0 \<le> t" "t \<le> 1"
  shows "byte_double (min a b) \<le> lerp_double a b t" "lerp_double a b t \<le> byte_double (max a b)"
  using lerp_double_up [OF assms(1) order_refl assms(2), of a b]
    lerp_double_down [OF assms(1) order_refl assms(2), of b a]
  by (cases "a \<le> b"; simp add: min_def max_def)+

lemma lerp_rounds:
  assumes "0 < t" "t < 1"
  shows "uint (lerp a b t) = round_byte (lerp_double a b t)"
proof -
  let ?x = "lerp_double a b t"
  have t: "0 \<le> t" "t \<le> 1" using assms by simp_all
  note r = lerp_double_range [OF t, of a b]
  have x: "0 \<le> ?x" "?x \<le> 255"
    using r byte_double_range [of "min a b"] byte_double_range [of "max a b"] by linarith+
  have "0 \<le> round_byte ?x" "round_byte ?x < 256"
    using round_byte_mono [OF r(1)] round_byte_mono [OF r(2)] uint_byte(2) [of "max a b"] uint_byte(1) [of "min a b"]
    unfolding round_byte_byte by linarith+
  moreover have "lerp a b t = word_of_int (round_byte ?x)"
    using assms x unfolding lerp_def round_byte_def lerp_double_def Let_def by simp
  ultimately show ?thesis by (simp add: unsigned_of_int take_bit_int_eq_self)
qed

lemma lerp_ends [simp]: "t \<le> 0 \<Longrightarrow> lerp a b t = a" "1 \<le> t \<Longrightarrow> lerp a b t = b"
  by (simp_all add: lerp_def)

lemma lerp_between: "min a b \<le> lerp a b t \<and> lerp a b t \<le> max a b"
proof (cases "0 < t \<and> t < 1")
  case True
  then have t: "0 \<le> t" "t \<le> 1" by simp_all
  show ?thesis
    using round_byte_mono [OF lerp_double_range(1) [OF t, of a b]]
      round_byte_mono [OF lerp_double_range(2) [OF t, of a b]] True
    unfolding word_le_def by (simp add: lerp_rounds round_byte_byte)
next
  case False
  then show ?thesis by (auto simp: not_less)
qed

lemma lerp_mono:
  assumes "t \<le> t'"
  shows "a \<le> b \<Longrightarrow> lerp a b t \<le> lerp a b t'" "b \<le> a \<Longrightarrow> lerp a b t' \<le> lerp a b t"
proof -
  have *: "(a \<le> b \<longrightarrow> lerp a b t \<le> lerp a b t') \<and> (b \<le> a \<longrightarrow> lerp a b t' \<le> lerp a b t)"
  proof (cases "0 < t \<and> t' < 1")
    case True
    then have t: "0 \<le> t" "t' \<le> 1" "0 < t" "t < 1" "0 < t'" "t' < 1" using assms by simp_all
    show ?thesis
      using lerp_double_up(2) [OF t(1) assms t(2), of a b] lerp_double_down(2) [OF t(1) assms t(2), of b a]
      unfolding word_le_def by (simp add: lerp_rounds t round_byte_mono)
  next
    case False
    then show ?thesis
      using lerp_between [of a b t] lerp_between [of a b t'] by (auto simp: not_less min_def max_def split: if_splits)
  qed
  then show "a \<le> b \<Longrightarrow> lerp a b t \<le> lerp a b t'" "b \<le> a \<Longrightarrow> lerp a b t' \<le> lerp a b t"
    by blast+
qed

end
