(* ===== verification/Fixture_Lifecycle.thy ===== *)
theory Fixture_Lifecycle
  imports Fixture_Runner
begin

text \<open>
  The correctness of the fixture pattern runner: its invariant, the exclusion of patterns and
  live control, the fades, the life of a pattern from its start to the final blackout, and the
  protocol that keeps a tick pending while anything is active.
\<close>

section \<open>The invariant\<close>

definition entry_ok :: "fixtureId_t \<Rightarrow> active_pattern \<Rightarrow> bool" where
  "entry_ok fid e \<longleftrightarrow> ap_fixtureId e = fid \<and>
     length (startValues e) = unat (channelSpan e) \<and>
     length (targetValues e) = unat (channelSpan e) \<and>
     length (lastRenderedValues e) = unat (channelSpan e) \<and>
     (phase e = FadeOut \<longrightarrow> targetValues e = replicate (unat (channelSpan e)) 0)"

definition live_entry_ok :: "fixtureId_t \<Rightarrow> active_live \<Rightarrow> bool" where
  "live_entry_ok fid e \<longleftrightarrow> al_fixtureId e = fid \<and> length (live_values e) = unat (al_channelSpan e)"

definition runner_ok :: "fixture_runner \<Rightarrow> bool" where
  "runner_ok R \<longleftrightarrow> keys_ok (active R) \<and> keys_ok (live R) \<and>
     (\<forall>(k, e) \<in> set (active R). entry_ok k e) \<and> (\<forall>(k, e) \<in> set (live R). live_entry_ok k e)"

definition controls_disjoint :: "fixture_runner \<Rightarrow> bool" where
  "controls_disjoint R \<longleftrightarrow> (\<forall>f. map_of (active R) f = None \<or> map_of (live R) f = None)"

lemma runner_ok_active: "runner_ok R \<Longrightarrow> map_of (active R) k = Some e \<Longrightarrow> entry_ok k e"
  by (auto simp: runner_ok_def dest: map_of_SomeD)

lemma runner_ok_live: "runner_ok R \<Longrightarrow> map_of (live R) k = Some e \<Longrightarrow> live_entry_ok k e"
  by (auto simp: runner_ok_def dest: map_of_SomeD)

lemma runner_ok_put_active:
  "runner_ok R \<Longrightarrow> entry_ok k e \<Longrightarrow> runner_ok (R\<lparr>active := AList.update k e (active R)\<rparr>)"
  using set_update_subset [of k e "active R"] by (auto simp: runner_ok_def)

lemma length_pattern_targets: "length (fst (pattern_targets f p)) = unat (fixture_span f)"
proof -
  have "length (fst (fold (\<lambda>pv (tv, touched). case findChannelByName f (pv_channel pv) of
       None \<Rightarrow> (tv, touched)
     | Some ch \<Rightarrow> (tv[unat (ch_offset ch) := pv_value pv], True)) pvs (tv0, b0))) = length tv0" for pvs :: "fixture_pattern_value list" and tv0 b0
    by (induction pvs arbitrary: tv0 b0) (auto split: option.splits)
  then show ?thesis by (simp only: pattern_targets_def length_replicate)
qed

lemma entry_ok_started: "entry_ok (fx_id f) ((pattern_entry f p u c cur sp)\<lparr>
     startValues := resize_vec (unat (fixture_span f)) 0 vs, lastRenderedValues := resize_vec (unat (fixture_span f)) 0 vs\<rparr>)"
  by (simp add: entry_ok_def pattern_entry_def Let_def length_pattern_targets)

definition started_entry ::
  "dmx_fixture \<Rightarrow> fixture_pattern \<Rightarrow> universe_t \<Rightarrow> creatureId_t \<Rightarrow> framenum_t \<Rightarrow> span_ids \<Rightarrow> u8 list \<Rightarrow> active_pattern"
where
  "started_entry f p u c cur sp vs = (pattern_entry f p u c cur sp)\<lparr>
     startValues := resize_vec (unat (fixture_span f)) 0 vs,
     lastRenderedValues := resize_vec (unat (fixture_span f)) 0 vs\<rparr>"

lemma resize_vec_Nil [simp]: "resize_vec n x [] = replicate n x"
  by (simp add: resize_vec_def)

lemma resize_vec_replicate: "resize_vec n x (replicate n x) = replicate n x"
  by simp

lemma start_install_eq:
  "start_install f p u c cur sp R = R\<lparr>active := AList.update (fx_id f)
     (started_entry f p u c cur sp (case map_of (active R) (fx_id f) of
        Some old \<Rightarrow> lastRenderedValues old | None \<Rightarrow> [])) (active R)\<rparr>"
proof -
  have "channelSpan (pattern_entry f p u c cur sp) = fixture_span f"
    by (simp add: pattern_entry_def Let_def)
  then show ?thesis
    by (simp add: start_install_def started_entry_def Let_def split: option.splits)
qed

lemma runner_ok_start_install [invariant_intros]:
  "runner_ok R \<Longrightarrow> runner_ok (start_install f p u c cur sp R)"
  using runner_ok_put_active [OF _ entry_ok_started] by (simp add: start_install_eq started_entry_def)

lemma runner_ok_start [invariant_intros]: "runner_ok R \<Longrightarrow> runner_ok (snd (start_pattern f p u c cur sp R))"
  by (simp add: start_pattern_def runner_ok_start_install)

lemma entry_ok_stop: "entry_ok k e \<Longrightarrow> entry_ok k (stop_entry cur e)"
  by (simp add: entry_ok_def stop_entry_def)

lemma runner_ok_stop [invariant_intros]: "runner_ok R \<Longrightarrow> runner_ok (stop_pattern fid cur R)"
  by (auto simp: stop_pattern_def intro!: runner_ok_put_active entry_ok_stop
      dest: runner_ok_active split: option.splits)

lemma length_resolved: "length (fold (\<lambda>(off, v) vs. vs[unat off := v]) rs vs) = length vs"
  by (induction rs arbitrary: vs) auto

lemma live_entry_ok_seed:
  "(\<And>e. old = Some e \<Longrightarrow> live_entry_ok (fx_id f) e) \<Longrightarrow> live_entry_ok (fx_id f) (seed_live f u old)"
  by (cases old) (auto simp: seed_live_def live_entry_ok_def Let_def)

lemma live_entry_ok_write: "live_entry_ok k e \<Longrightarrow> live_entry_ok k (write_live rs d sp e)"
  by (simp add: write_live_def live_entry_ok_def length_resolved)

lemma setLive_cases:
  assumes "setLive f cvs t u cur sp R = (b, R')"
  obtains "\<not> b" "R' = R"
  | rs where "b" "resolve_live f cvs = Some rs"
      "R' = R\<lparr>live := AList.update (fx_id f)
          (write_live rs (cur + ucast t) sp (seed_live f u (map_of (live R) (fx_id f)))) (live R),
        active := (if map_of (live R) (fx_id f) = None then AList.delete (fx_id f) (active R) else active R)\<rparr>"
  using assms by (auto simp: setLive_def Let_def split: if_splits option.splits)

lemma runner_ok_setLive [invariant_intros]:
  assumes "runner_ok R" shows "runner_ok (snd (setLive f cvs t u cur sp R))"
proof -
  obtain b R' where s: "setLive f cvs t u cur sp R = (b, R')" by fastforce
  show ?thesis
    using s
  proof (cases rule: setLive_cases)
    case 1
    then show ?thesis using assms s by simp
  next
    case (2 rs)
    let ?e = "write_live rs (cur + ucast t) sp (seed_live f u (map_of (live R) (fx_id f)))"
    have "live_entry_ok (fx_id f) ?e"
      using runner_ok_live [OF assms] by (blast intro: live_entry_ok_seed live_entry_ok_write)
    then show ?thesis
      using assms set_update_subset [of "fx_id f" ?e "live R"] set_delete_subset [of "fx_id f" "active R"] s 2
      by (fastforce simp: runner_ok_def)
  qed
qed

lemma length_interpolate [simp]: "length (interpolate n a b t) = unat n"
  by (simp add: interpolate_def)

lemma entry_ok_render: "entry_ok k e \<Longrightarrow> entry_ok k (render_entry cur e)"
  by (auto simp: entry_ok_def render_entry_def split: fixture_pattern_phase.splits)

lemma keys_ok_in: "keys_ok m \<Longrightarrow> (k, v) \<in> set m \<Longrightarrow> map_of m k = Some v"
  by (simp add: keys_ok_def)

text \<open>What one tick leaves for each fixture.\<close>

definition entry_step :: "framenum_t \<Rightarrow> active_pattern option \<Rightarrow> active_pattern option" where
  "entry_step cur x = Option.bind x (\<lambda>e.
     if phase (render_entry cur e) = Done then None else Some (render_entry cur e))"

lemma active_tick:
  assumes "runner_ok R"
  shows "map_of (active (snd (runner_tick l cur R))) k = entry_step cur (map_of (active R) k)"
proof -
  let ?act = "map (\<lambda>(k, e). (k, render_entry cur e)) (active R)"
  let ?fin = "map ap_fixtureId (filter (\<lambda>e. phase e = Done) (map snd ?act))"
  have keys: "keys_ok (active R)" using assms by (simp add: runner_ok_def)
  have id: "ap_fixtureId (render_entry cur e) = k'" if "(k', e) \<in> set (active R)" for k' e
    using runner_ok_active [OF assms keys_ok_in [OF keys that]] entry_ok_render by (auto simp: entry_ok_def)
  have "k \<in> set ?fin \<longleftrightarrow> (\<exists>e. (k, e) \<in> set (active R) \<and> phase (render_entry cur e) = Done)"
    using id by force
  also have "\<dots> \<longleftrightarrow> (\<exists>e. map_of (active R) k = Some e \<and> phase (render_entry cur e) = Done)"
    using keys by (auto simp: keys_ok_map_of)
  finally show ?thesis
    by (cases "map_of (active R) k")
      (auto simp: runner_tick_def Let_def entry_step_def map_of_fold_delete map_of_map_values)
qed

lemma live_tick:
  assumes "runner_ok R"
  shows "map_of (live (snd (runner_tick l cur R))) k =
    Option.bind (map_of (live R) k) (\<lambda>e. if deadlineFrame e \<le> cur then None else Some e)"
proof -
  let ?fin = "map al_fixtureId (filter (\<lambda>e. deadlineFrame e \<le> cur) (map snd (live R)))"
  have keys: "keys_ok (live R)" using assms by (simp add: runner_ok_def)
  have id: "al_fixtureId e = k'" if "(k', e) \<in> set (live R)" for k' e
    using runner_ok_live [OF assms keys_ok_in [OF keys that]] by (simp add: live_entry_ok_def)
  have "k \<in> set ?fin \<longleftrightarrow> (\<exists>e. (k, e) \<in> set (live R) \<and> deadlineFrame e \<le> cur)"
    using id by force
  also have "\<dots> \<longleftrightarrow> (\<exists>e. map_of (live R) k = Some e \<and> deadlineFrame e \<le> cur)"
    using keys by (auto simp: keys_ok_map_of)
  finally show ?thesis
    by (cases "map_of (live R) k") (auto simp: runner_tick_def Let_def map_of_fold_delete)
qed

lemma runner_ok_tick [invariant_intros]:
  assumes "runner_ok R" shows "runner_ok (snd (runner_tick l cur R))"
proof -
  have "entry_ok k e" if "(k, e) \<in> set (active (snd (runner_tick l cur R)))" for k e
  proof -
    have "(k, e) \<in> (\<lambda>(k, e). (k, render_entry cur e)) ` set (active R)"
      using that set_fold_delete_subset by (fastforce simp: runner_tick_def Let_def)
    then show ?thesis using assms entry_ok_render by (auto simp: runner_ok_def)
  qed
  moreover have "live_entry_ok k e" if "(k, e) \<in> set (live (snd (runner_tick l cur R)))" for k e
    using that assms set_fold_delete_subset by (fastforce simp: runner_tick_def Let_def runner_ok_def)
  moreover have "keys_ok (active (snd (runner_tick l cur R)))" "keys_ok (live (snd (runner_tick l cur R)))"
    using assms by (simp_all add: runner_ok_def runner_tick_def Let_def)
  ultimately show ?thesis by (auto simp: runner_ok_def)
qed

lemma runner_ok_tryArm [invariant_intros]: "runner_ok R \<Longrightarrow> runner_ok (snd (tryArm R))"
  by (simp add: tryArm_def runner_ok_def)

lemma runner_ok_disarm [invariant_intros]: "runner_ok R \<Longrightarrow> runner_ok (disarm R)"
  by (simp add: disarm_def runner_ok_def)

lemma runner_ok_new [simp]: "runner_ok new_fixture_runner"
  by (simp add: runner_ok_def new_fixture_runner_def)

section \<open>Operations one after the other\<close>

datatype fixture_op =
    OpStart dmx_fixture fixture_pattern universe_t creatureId_t framenum_t span_ids
  | OpStop fixtureId_t framenum_t
  | OpSetLive dmx_fixture "(string \<times> u8) list" u32 universe_t framenum_t span_ids
  | OpTick framenum_t

fun run_fixture_op :: "fixture_op \<Rightarrow> fixture_runner \<Rightarrow> fixture_runner" where
  "run_fixture_op (OpStart f p u c cur sp) R = snd (start_pattern f p u c cur sp R)"
| "run_fixture_op (OpStop fid cur) R = stop_pattern fid cur R"
| "run_fixture_op (OpSetLive f cvs t u cur sp) R = snd (setLive f cvs t u cur sp R)"
| "run_fixture_op (OpTick cur) R = snd (runner_tick True cur R)"

lemma runner_ok_op: "runner_ok R \<Longrightarrow> runner_ok (run_fixture_op op R)"
  by (cases op) (auto intro: invariant_intros)

lemma controls_disjoint_op:
  assumes "runner_ok R" "controls_disjoint R" shows "controls_disjoint (run_fixture_op op R)"
proof (cases op)
  case (OpStart f p u c cur sp)
  then show ?thesis
    using assms(2) by (auto simp: start_pattern_def start_check_def controls_disjoint_def start_install_eq)
next
  case (OpStop fid cur)
  then show ?thesis
    using assms(2) unfolding controls_disjoint_def
    by (fastforce simp: stop_pattern_def split: option.splits)
next
  case (OpSetLive f cvs t u cur sp)
  obtain b R' where s: "setLive f cvs t u cur sp R = (b, R')" by fastforce
  then have "controls_disjoint R'"
  proof (cases rule: setLive_cases)
    case 1
    then show ?thesis using assms(2) by simp
  next
    case (2 rs)
    then show ?thesis using assms(2) unfolding controls_disjoint_def by fastforce
  qed
  then show ?thesis using OpSetLive s by simp
next
  case (OpTick cur)
  then show ?thesis
    using assms unfolding controls_disjoint_def
    by (simp add: active_tick live_tick entry_step_def) (metis bind.bind_lzero)
qed

text \<open>
  C36: patterns and live control exclude each other. After any sequence of complete
  operations (starts, stops, live updates, ticks) on a fresh runner, every fixture has at
  most one entry in each map and never one in both; and a start on a fixture under live
  control is refused and changes nothing.
\<close>

theorem live_excludes_patterns:
  shows "(let R = fold run_fixture_op ops new_fixture_runner in
    keys_ok (active R) \<and> keys_ok (live R) \<and>
    (map_of (active R) fid = None \<or> map_of (live R) fid = None) \<and>
    (hasLive R (fx_id f) \<longrightarrow> start_pattern f p u c cur sp R = (False, R)))"
proof -
  let ?R = "fold run_fixture_op ops new_fixture_runner"
  have "runner_ok (fold run_fixture_op ops R) \<and> controls_disjoint (fold run_fixture_op ops R)"
    if "runner_ok R" "controls_disjoint R" for R
    using that by (induction ops arbitrary: R) (simp_all add: runner_ok_op controls_disjoint_op)
  moreover have "controls_disjoint new_fixture_runner"
    by (simp add: controls_disjoint_def new_fixture_runner_def)
  ultimately have "runner_ok ?R" "controls_disjoint ?R" by simp_all
  then show ?thesis
    by (simp add: Let_def runner_ok_def controls_disjoint_def hasLive_def start_pattern_def start_check_def)
qed

text \<open>
  The exclusion holds for whole operations only: \<open>start\<close> releases the mutex between its check
  and its installation, so a live update that lands there leaves the fixture in both maps.
\<close>

lemma start_race_breaks_exclusion:
  assumes "start_check f p R" "setLive f cvs t u cur sp R = (True, R1)"
  shows "\<not> controls_disjoint (start_install f p u' c cur' sp' R1)"
  using assms(2)
  by (cases rule: setLive_cases) (auto simp: controls_disjoint_def start_install_eq)

section \<open>Fades\<close>

lemma of_uint64_mono: "m \<le> n \<Longrightarrow> of_uint64 m \<le> of_uint64 n"
  by (simp add: of_uint64_def rnd64_mono)

lemma of_uint64_pos: "ms \<noteq> 0 \<Longrightarrow> 0 < of_uint64 (unat (ms :: u32))"
proof -
  assume "ms \<noteq> 0"
  then have "0 < unat ms" by (simp add: unat_gt_0)
  moreover have "unat ms \<le> 2 ^ 53" using unsigned_less [where 'a = nat, of ms] by simp
  ultimately show ?thesis by (simp only: of_uint64_exact of_nat_0_less_iff)
qed

lemma frame_ratio_mono: "x \<le> y \<Longrightarrow> ms \<noteq> 0 \<Longrightarrow> frame_ratio x ms \<le> frame_ratio y ms"
  using of_uint64_pos [of ms]
  by (auto simp: frame_ratio_def ddiv_def word_le_nat_alt intro!: rnd64_mono divide_right_mono of_uint64_mono)

lemma frame_ratio_0 [simp]: "frame_ratio 0 ms = 0"
  by (simp add: frame_ratio_def of_uint64_def ddiv_def)

lemma interpolate_nth:
  "i < unat n \<Longrightarrow> length a = unat n \<Longrightarrow> length b = unat n \<Longrightarrow> interpolate n a b t ! i = lerp (a ! i) (b ! i) t"
  by (simp add: interpolate_def)

lemma interpolate_0: "length a = unat n \<Longrightarrow> t \<le> 0 \<Longrightarrow> interpolate n a b t = a"
  by (rule nth_equalityI) (simp_all add: interpolate_def)

lemma elapsed_mono: "s \<le> x \<Longrightarrow> x \<le> y \<Longrightarrow> x - s \<le> (y - s :: framenum_t)"
  by (simp add: word_le_nat_alt unat_sub)

text \<open>A fading entry at a frame is its target, or a mix whose weight grows with the frame.\<close>

lemma fading_value:
  assumes "entry_ok k e" "phase e = FadeIn \<or> phase e = FadeOut" "i < unat (channelSpan e)"
  obtains w where "\<And>cur. startedAtFrame e \<le> cur \<Longrightarrow>
      lastRenderedValues (render_entry cur e) ! i = lerp (startValues e ! i) (targetValues e ! i) (w cur)"
    "\<And>cur cur'. startedAtFrame e \<le> cur \<Longrightarrow> cur \<le> cur' \<Longrightarrow> w cur \<le> w cur'"
proof -
  let ?ms = "if phase e = FadeIn then fadeInMs e else fadeOutMs e"
  let ?D = "if phase e = FadeIn then fadeInDoneFrame e else fadeOutDoneFrame e"
  let ?r = "\<lambda>cur. frame_ratio (cur - startedAtFrame e) ?ms"
  let ?w = "\<lambda>cur. if ?ms = 0 \<or> ?D \<le> cur then max 1 (?r cur) else ?r cur"
  show ?thesis
  proof (rule that [of ?w])
    fix cur assume "startedAtFrame e \<le> cur"
    then show "lastRenderedValues (render_entry cur e) ! i = lerp (startValues e ! i) (targetValues e ! i) (?w cur)"
      using assms by (auto simp: render_entry_def entry_ok_def interpolate_nth)
  next
    fix cur cur' :: framenum_t assume c: "startedAtFrame e \<le> cur" "cur \<le> cur'"
    show "?w cur \<le> ?w cur'"
    proof (cases "?ms = 0")
      case False
      then have "?r cur \<le> ?r cur'" using elapsed_mono [OF c] by (simp add: frame_ratio_mono)
      then show ?thesis using c(2) by (auto simp: max_def)
    qed (simp add: frame_ratio_def of_uint64_def ddiv_def)
  qed
qed

text \<open>
  C37: a fade is monotone and never overshoots. For every channel of a fading pattern, at any
  two ticks in order, the rendered bytes lie between the start and the target value and the
  later one is at least as close to the target; this is the rounded binary64 arithmetic of
  \<open>lerp\<close>, not real arithmetic.
\<close>

theorem fade_is_monotone:
  assumes "entry_ok k e" "phase e = FadeIn \<or> phase e = FadeOut" "i < unat (channelSpan e)"
    and "startedAtFrame e \<le> cur" "cur \<le> cur'"
  defines "a \<equiv> startValues e ! i" and "b \<equiv> targetValues e ! i"
    and "v \<equiv> lastRenderedValues (render_entry cur e) ! i"
    and "v' \<equiv> lastRenderedValues (render_entry cur' e) ! i"
  shows "(a \<le> b \<longrightarrow> a \<le> v \<and> v \<le> v' \<and> v' \<le> b) \<and> (b \<le> a \<longrightarrow> b \<le> v' \<and> v' \<le> v \<and> v \<le> a)"
proof -
  obtain w where w: "\<And>cur. startedAtFrame e \<le> cur \<Longrightarrow>
      lastRenderedValues (render_entry cur e) ! i = lerp a b (w cur)"
    "\<And>cur cur'. startedAtFrame e \<le> cur \<Longrightarrow> cur \<le> cur' \<Longrightarrow> w cur \<le> w cur'"
    using fading_value [OF assms(1-3)] unfolding a_def b_def by blast
  have v: "v = lerp a b (w cur)" "v' = lerp a b (w cur')"
    unfolding v_def v'_def using w(1) assms(4,5) order_trans by blast+
  show ?thesis
    using lerp_mono(1) [OF w(2) [OF assms(4,5)], of a b] lerp_mono(2) [OF w(2) [OF assms(4,5)], of b a] lerp_between [of a b "w cur"]
      lerp_between [of a b "w cur'"]
    unfolding v by (auto simp: min_def max_def split: if_splits)
qed

section \<open>Handoff, completion and blackout\<close>

lemma tick_events_active:
  assumes "runner_ok R" "map_of (active R) k = Some e" "phase e \<noteq> Done"
  shows "(cur, DmxWrite (pattern_write (render_entry cur e))) \<in> set (snd (fst (runner_tick True cur R)))"
  using map_of_SomeD [OF assms(2)] assms(3) by (force simp: runner_tick_def Let_def)

lemma tick_events_live:
  assumes "map_of (live R) k = Some e"
  shows "(cur, DmxWrite (live_write cur e)) \<in> set (snd (fst (runner_tick True cur R)))"
  using map_of_SomeD [OF assms] by (force simp: runner_tick_def Let_def)

lemma stop_entry_simps [simp]:
  "phase (stop_entry cur e) = FadeOut" "fadeOutMs (stop_entry cur e) = fadeOutMs e"
  "fadeOutDoneFrame (stop_entry cur e) = cur + ucast (fadeOutMs e)"
  "startedAtFrame (stop_entry cur e) = cur" "channelSpan (stop_entry cur e) = channelSpan e"
  "ap_universe (stop_entry cur e) = ap_universe e" "ap_channelOffset (stop_entry cur e) = ap_channelOffset e"
  by (simp_all add: stop_entry_def)

lemma render_entry_frame [frame_simps]:
  "ap_universe (render_entry cur e) = ap_universe e" "ap_channelOffset (render_entry cur e) = ap_channelOffset e"
  "channelSpan (render_entry cur e) = channelSpan e" "ap_fixtureId (render_entry cur e) = ap_fixtureId e"
  "fadeOutMs (render_entry cur e) = fadeOutMs e" "fadeInMs (render_entry cur e) = fadeInMs e"
  "fadeInDoneFrame (render_entry cur e) = fadeInDoneFrame e" "holdDoneFrame (render_entry cur e) = holdDoneFrame e"
  by (simp_all add: render_entry_def split: fixture_pattern_phase.split)

lemma render_fading_out:
  "phase e = FadeOut \<Longrightarrow> fadeOutMs e \<noteq> 0 \<Longrightarrow> cur < fadeOutDoneFrame e \<Longrightarrow>
   lastRenderedValues (render_entry cur e) = interpolate (channelSpan e) (startValues e) (targetValues e)
     (frame_ratio (cur - startedAtFrame e) (fadeOutMs e))"
  by (auto simp: render_entry_def dest: leD)


section \<open>Every timed pattern ends\<close>

text \<open>
  The ticks the event chain makes: from frame \<open>c\<close>, every \<open>FIXTURE_PATTERN_TICK_INTERVAL_FRAMES\<close>.
  \<open>ticks_for\<close> is the number of ticks needed to cover so many milliseconds, and \<open>life\<close> the number
  of ticks a pattern has left.
\<close>

primrec ticks :: "framenum_t \<Rightarrow> nat \<Rightarrow> fixture_runner \<Rightarrow> fixture_runner" where
  "ticks c 0 R = R"
| "ticks c (Suc n) R =
     ticks (c + FIXTURE_PATTERN_TICK_INTERVAL_FRAMES) n (snd (runner_tick True c R))"

definition ticks_for :: "nat \<Rightarrow> nat" where
  "ticks_for ms = (ms + 19) div 20"

lemma ticks_for_less: "0 < x \<Longrightarrow> ticks_for (x - 20) + 1 \<le> ticks_for x"
proof (cases "20 \<le> x")
  case True
  then obtain y where "x = y + 20" by (metis le_add_diff_inverse2)
  then show ?thesis by (simp add: ticks_for_def)
next
  case False
  moreover assume "0 < x"
  ultimately have "20 div 20 \<le> (x + 19) div 20" by (intro div_le_mono) simp
  then show ?thesis using False by (simp add: ticks_for_def)
qed

lemma ticks_for_mono: "x \<le> y \<Longrightarrow> ticks_for x \<le> ticks_for y"
  by (simp add: ticks_for_def div_le_mono)

lemma ticks_for_bound: "x < 2 ^ 32 \<Longrightarrow> ticks_for x \<le> 2 ^ 28"
  by (simp add: ticks_for_def)

definition life :: "nat \<Rightarrow> active_pattern \<Rightarrow> nat" where
  "life now e = (case phase e of
     FadeIn \<Rightarrow> ticks_for (unat (fadeInDoneFrame e) - now) + ticks_for (unat (holdMs e)) + ticks_for (unat (fadeOutMs e)) + 3
   | Hold \<Rightarrow> ticks_for (unat (holdDoneFrame e) - now) + ticks_for (unat (fadeOutMs e)) + 2
   | FadeOut \<Rightarrow> ticks_for (unat (fadeOutDoneFrame e) - now) + 1
   | Done \<Rightarrow> 0)"

definition life_ok :: "nat \<Rightarrow> active_pattern \<Rightarrow> bool" where
  "life_ok now e \<longleftrightarrow> (case phase e of
     FadeIn \<Rightarrow> unat (holdDoneFrame e) = unat (fadeInDoneFrame e) + unat (holdMs e) \<and>
       holdDoneFrame e \<noteq> framenum_max \<and> (fadeInMs e = 0 \<longrightarrow> unat (fadeInDoneFrame e) \<le> now)
   | Hold \<Rightarrow> holdDoneFrame e \<noteq> framenum_max
   | FadeOut \<Rightarrow> fadeOutMs e = 0 \<longrightarrow> unat (fadeOutDoneFrame e) \<le> now
   | Done \<Rightarrow> True)"

lemma unat_add_ms: "unat (c :: u64) + 2 ^ 32 < 2 ^ 64 \<Longrightarrow> unat (c + ucast (ms :: u32)) = unat c + unat ms"
proof -
  assume "unat c + 2 ^ 32 < 2 ^ 64"
  moreover have "unat ms < 2 ^ 32" using unsigned_less [where 'a = nat, of ms] by simp
  ultimately show ?thesis by (simp add: unat_word_ariths unsigned_ucast_eq take_bit_nat_eq_self)
qed

lemma render_life:
  assumes "life_ok (unat c) e" "phase e \<noteq> Done" "unat c + 2 ^ 32 < 2 ^ 64"
  shows "(phase (render_entry c e) = Done \<and> phase e = FadeOut \<and> lastRenderedValues (render_entry c e) = targetValues e) \<or>
    (phase (render_entry c e) \<noteq> Done \<and> life_ok (unat c + 20) (render_entry c e) \<and>
     life (unat c + 20) (render_entry c e) + 1 \<le> life (unat c) e)"
proof (cases "phase e")
  case FadeIn
  let ?x = "unat (fadeInDoneFrame e) - unat c"
  show ?thesis
  proof (cases "fadeInMs e = 0 \<or> fadeInDoneFrame e \<le> c")
    case True
    then have "unat (fadeInDoneFrame e) \<le> unat c"
      using assms(1) FadeIn by (auto simp: life_ok_def word_le_nat_alt)
    then have "unat (holdDoneFrame e) - (unat c + 20) \<le> unat (holdMs e)"
      using assms(1) FadeIn by (simp add: life_ok_def)
    then show ?thesis
      using True FadeIn assms(1) ticks_for_mono [of "unat (holdDoneFrame e) - (unat c + 20)" "unat (holdMs e)"]
      by (auto simp: render_entry_def life_ok_def life_def)
  next
    case False
    then have "0 < ?x" by (simp add: not_le word_less_nat_alt)
    then show ?thesis
      using False FadeIn assms(1) ticks_for_less [of ?x]
      by (auto simp: render_entry_def life_ok_def life_def diff_diff_left)
  qed
next
  case Hold
  show ?thesis
  proof (cases "holdDoneFrame e \<le> c")
    case True
    have "unat (c + ucast (fadeOutMs e)) - (unat c + 20) \<le> unat (fadeOutMs e)"
      by (simp only: unat_add_ms [OF assms(3)])
    then show ?thesis
      using True Hold assms(1) unat_add_ms [OF assms(3), of "fadeOutMs e"]
        ticks_for_mono [of "unat (c + ucast (fadeOutMs e)) - (unat c + 20)" "unat (fadeOutMs e)"]
      by (auto simp: render_entry_def life_ok_def life_def)
  next
    case False
    then have "0 < unat (holdDoneFrame e) - unat c" by (simp add: not_le word_less_nat_alt)
    then show ?thesis
      using False Hold assms(1) ticks_for_less [of "unat (holdDoneFrame e) - unat c"]
      by (auto simp: render_entry_def life_ok_def life_def diff_diff_left)
  qed
next
  case FadeOut
  show ?thesis
  proof (cases "fadeOutMs e = 0 \<or> fadeOutDoneFrame e \<le> c")
    case True
    then show ?thesis using FadeOut by (auto simp: render_entry_def)
  next
    case False
    then have "0 < unat (fadeOutDoneFrame e) - unat c" by (simp add: not_le word_less_nat_alt)
    then show ?thesis
      using False FadeOut assms(1) ticks_for_less [of "unat (fadeOutDoneFrame e) - unat c"]
      by (auto simp: render_entry_def life_ok_def life_def diff_diff_left)
  qed
next
  case Done
  then show ?thesis using assms(2) by simp
qed

lemma unat_next_tick: "unat (c :: u64) + 20 < 2 ^ 64 \<Longrightarrow> unat (c + FIXTURE_PATTERN_TICK_INTERVAL_FRAMES) = unat c + 20"
  by (simp add: FIXTURE_PATTERN_TICK_INTERVAL_FRAMES_def unat_word_ariths take_bit_nat_eq_self)

lemma entry_runs_out:
  assumes "runner_ok R" "map_of (active R) k = Some e" "phase e \<noteq> Done" "life_ok (unat c) e"
    and "life (unat c) e \<le> N" "unat c + 20 * N + 2 ^ 32 < 2 ^ 64"
  shows "\<exists>m < N. map_of (active (ticks c (Suc m) R)) k = None \<and>
    (c + of_nat m * FIXTURE_PATTERN_TICK_INTERVAL_FRAMES,
     DmxWrite \<lparr>dmx_universe = ap_universe e, channelOffset = ucast (ap_channelOffset e),
       dmx_data = replicate (unat (channelSpan e)) 0\<rparr>)
    \<in> set (snd (fst (runner_tick True (c + of_nat m * FIXTURE_PATTERN_TICK_INTERVAL_FRAMES) (ticks c m R))))"
  using assms
proof (induction N arbitrary: R c e)
  case 0
  then show ?case by (auto simp: life_def split: fixture_pattern_phase.splits)
next
  case (Suc N)
  let ?e = "render_entry c e" and ?R = "snd (runner_tick True c R)"
  let ?c = "c + FIXTURE_PATTERN_TICK_INTERVAL_FRAMES"
  have fits: "unat c + 2 ^ 32 < 2 ^ 64" using Suc.prems(6) by simp
  from render_life [OF Suc.prems(4,3) fits] show ?case
  proof (elim disjE conjE)
    assume over: "phase ?e = Done" "phase e = FadeOut" "lastRenderedValues ?e = targetValues e"
    have "targetValues e = replicate (unat (channelSpan e)) 0"
      using runner_ok_active [OF Suc.prems(1,2)] over(2) by (simp add: entry_ok_def)
    then have "pattern_write ?e = \<lparr>dmx_universe = ap_universe e, channelOffset = ucast (ap_channelOffset e),
        dmx_data = replicate (unat (channelSpan e)) 0\<rparr>"
      using over(3) by (simp add: pattern_write_def frame_simps)
    then show ?thesis
      using tick_events_active [OF Suc.prems(1-3), of c] over(1)
      by (intro exI [of _ 0]) (simp add: active_tick [OF Suc.prems(1)] Suc.prems(2) entry_step_def)
  next
    assume go: "phase ?e \<noteq> Done" "life_ok (unat c + 20) ?e" "life (unat c + 20) ?e + 1 \<le> life (unat c) e"
    have c: "unat ?c = unat c + 20" using Suc.prems(6) by (intro unat_next_tick) simp
    have "map_of (active ?R) k = Some ?e"
      using go(1) by (simp add: active_tick [OF Suc.prems(1)] Suc.prems(2) entry_step_def)
    from Suc.IH [OF runner_ok_tick [OF Suc.prems(1)] this go(1), of ?c]
    obtain m where m: "m < N" "map_of (active (ticks ?c (Suc m) ?R)) k = None"
      "(?c + of_nat m * FIXTURE_PATTERN_TICK_INTERVAL_FRAMES,
        DmxWrite \<lparr>dmx_universe = ap_universe e, channelOffset = ucast (ap_channelOffset e),
          dmx_data = replicate (unat (channelSpan e)) 0\<rparr>)
       \<in> set (snd (fst (runner_tick True (?c + of_nat m * FIXTURE_PATTERN_TICK_INTERVAL_FRAMES) (ticks ?c m ?R))))"
      using go(2,3) Suc.prems(5,6) c by (auto simp: frame_simps)
    have "c + of_nat (Suc m) * FIXTURE_PATTERN_TICK_INTERVAL_FRAMES =
        ?c + of_nat m * FIXTURE_PATTERN_TICK_INTERVAL_FRAMES"
      by (simp add: algebra_simps)
    then show ?thesis
      using m by (intro exI [of _ "Suc m"]) (simp only: ticks.simps Suc_less_eq simp_thms)
  qed
qed

lemma u32_less: "unat (x :: u32) < 2 ^ 32"
  using unsigned_less [where 'a = nat, of x] by simp

lemma started_entry_life:
  assumes "hold_ms p \<noteq> 0" "unat F < 2 ^ 63"
  shows "life_ok (unat F) (started_entry f p u c F sp vs)"
    and "life (unat F) (started_entry f p u c F sp vs) =
      ticks_for (unat (fade_in_ms p)) + ticks_for (unat (hold_ms p)) + ticks_for (unat (fade_out_ms p)) + 3"
proof -
  have 1: "unat (F + ucast (fade_in_ms p)) = unat F + unat (fade_in_ms p)"
    using assms(2) by (intro unat_add_ms) simp
  have 2: "unat (F + ucast (fade_in_ms p) + ucast (hold_ms p)) = unat F + unat (fade_in_ms p) + unat (hold_ms p)"
    using assms(2) u32_less [of "fade_in_ms p"] 1
    by (subst unat_add_ms) simp_all
  have "unat (framenum_max) = 2 ^ 64 - 1" by (simp add: framenum_max_def unsigned_minus_1_eq_mask mask_eq_exp_minus_1)
  then have "F + ucast (fade_in_ms p) + ucast (hold_ms p) \<noteq> framenum_max"
    using 2 assms(2) u32_less [of "fade_in_ms p"] u32_less [of "hold_ms p"] by auto
  then show "life_ok (unat F) (started_entry f p u c F sp vs)"
    using assms 1 2 by (auto simp: life_ok_def started_entry_def pattern_entry_def Let_def)
  show "life (unat F) (started_entry f p u c F sp vs) =
      ticks_for (unat (fade_in_ms p)) + ticks_for (unat (hold_ms p)) + ticks_for (unat (fade_out_ms p)) + 3"
    using 1 by (simp add: life_def started_entry_def pattern_entry_def Let_def)
qed

text \<open>
  C26: a pattern with a hold time runs to its end. However long its fades and its hold, if
  nothing else touches the fixture, then within
  ceil(fade-in/20) + ceil(hold/20) + ceil(fade-out/20) + 3 ticks of the 20 ms chain there is
  one that writes all zeros to every channel of the fixture and after which the pattern
  is gone from the runner.
\<close>

theorem pattern_runs_to_blackout:
  assumes "runner_ok R" "start_pattern f p u c F sp R = (True, R0)"
    and "hold_ms p \<noteq> 0" "unat F < 2 ^ 63"
  shows "\<exists>m < ticks_for (unat (fade_in_ms p)) + ticks_for (unat (hold_ms p)) + ticks_for (unat (fade_out_ms p)) + 3.
    map_of (active (ticks F (Suc m) R0)) (fx_id f) = None \<and>
    (F + of_nat m * FIXTURE_PATTERN_TICK_INTERVAL_FRAMES,
     DmxWrite \<lparr>dmx_universe = u, channelOffset = ucast (fixture_channel_offset f),
       dmx_data = replicate (unat (fixture_span f)) 0\<rparr>)
    \<in> set (snd (fst (runner_tick True (F + of_nat m * FIXTURE_PATTERN_TICK_INTERVAL_FRAMES) (ticks F m R0))))"
proof -
  obtain vs where e: "map_of (active R0) (fx_id f) = Some (started_entry f p u c F sp vs)"
    using assms(2) by (auto simp: start_pattern_def start_install_eq split: if_splits)
  let ?e = "started_entry f p u c F sp vs"
  have ok: "runner_ok R0"
    using assms(1,2) by (auto simp: start_pattern_def runner_ok_start_install split: if_splits)
  have fields: "phase ?e \<noteq> Done" "ap_universe ?e = u" "ap_channelOffset ?e = fixture_channel_offset f"
    "channelSpan ?e = fixture_span f"
    by (simp_all add: started_entry_def pattern_entry_def Let_def)
  note b = ticks_for_bound [OF u32_less [of "fade_in_ms p"]] ticks_for_bound [OF u32_less [of "hold_ms p"]]
    ticks_for_bound [OF u32_less [of "fade_out_ms p"]]
  show ?thesis
    using entry_runs_out [OF ok e fields(1) started_entry_life(1) [OF assms(3,4)] order_refl]
      started_entry_life(2) [OF assms(3,4), of f u c sp vs] b assms(4)
    unfolding fields(2-4) by simp
qed

section \<open>Live control expires\<close>

lemma seed_live_fields [simp]:
  "al_universe (write_live rs d sp (seed_live f u old)) = u"
  "al_channelOffset (write_live rs d sp (seed_live f u old)) = fixture_channel_offset f"
  "deadlineFrame (write_live rs d sp e) = d"
  by (auto simp: write_live_def seed_live_def Let_def split: option.splits)

lemma seed_live_span:
  "(\<And>e. old = Some e \<Longrightarrow> live_entry_ok (fx_id f) e) \<Longrightarrow>
   al_channelSpan (write_live rs d sp (seed_live f u old)) = fixture_span f"
  by (auto simp: write_live_def seed_live_def live_entry_ok_def Let_def word_unat_eq_iff split: option.splits)


section \<open>A concrete fixture\<close>

definition demo_fixture :: dmx_fixture where
  "demo_fixture = \<lparr>fx_id = ''fog'', fixture_name = ''Fog'', fixture_kind = Fogger, fixture_channel_offset = 20,
     assigned_universe = Some 2,
     channels = [\<lparr>ch_offset = 0, ch_name = ''red'', ch_kind = ''color''\<rparr>,
                 \<lparr>ch_offset = 1, ch_name = ''level'', ch_kind = ''generic''\<rparr>],
     patterns = [], bindings = []\<rparr>"

definition demo_pattern :: fixture_pattern where
  "demo_pattern = \<lparr>pat_id = ''p'', pat_name = ''Glow'', pat_values = [\<lparr>pv_channel = ''level'', pv_value = 200\<rparr>],
     fade_in_ms = 40, fade_out_ms = 40, hold_ms = 20\<rparr>"

definition demo_active :: fixture_runner where
  "demo_active = start_install demo_fixture demo_pattern 2 ''x'' 100 None new_fixture_runner"

lemma demo_start: "start_pattern demo_fixture demo_pattern 2 ''x'' 100 None new_fixture_runner = (True, demo_active)"
  unfolding demo_active_def by code_simp

lemma demo_active_ok: "runner_ok demo_active"
  by (simp add: demo_active_def runner_ok_start_install)

definition demo_held :: fixture_runner where
  "demo_held = ticks 100 1 (start_install demo_fixture (demo_pattern\<lparr>fade_in_ms := 0\<rparr>) 2 ''x'' 100 None new_fixture_runner)"

lemma ticks_ok: "runner_ok R \<Longrightarrow> runner_ok (ticks c n R)"
  by (induction n arbitrary: c R) (simp_all add: runner_ok_tick)

theorem live_excludes_patterns_witness:
  "(let R = fold run_fixture_op [OpStart demo_fixture demo_pattern 2 [] 5 None,
        OpSetLive demo_fixture [(''red'', 9)] 1000 2 6 None] new_fixture_runner in
     start_pattern demo_fixture demo_pattern 2 [] 7 None R = (False, R))"
proof -
  let ?ops = "[OpStart demo_fixture demo_pattern 2 [] 5 None, OpSetLive demo_fixture [(''red'', 9)] 1000 2 6 None]"
  have "hasLive (fold run_fixture_op ?ops new_fixture_runner) (fx_id demo_fixture)" by code_simp
  then show ?thesis
    using live_excludes_patterns [of ?ops "fx_id demo_fixture" demo_fixture demo_pattern 2 "[]" 7 None]
    by (simp only: Let_def simp_thms)
qed

theorem fade_is_monotone_witness:
  "phase (the (map_of (active demo_active) ''fog'')) = FadeIn \<and>
   lastRenderedValues (render_entry 130 (the (map_of (active demo_active) ''fog''))) ! 1 \<le> 200 \<and>
   lastRenderedValues (render_entry 120 (the (map_of (active demo_active) ''fog''))) ! 1 \<le>
   lastRenderedValues (render_entry 130 (the (map_of (active demo_active) ''fog''))) ! 1"
proof -
  let ?e = "the (map_of (active demo_active) ''fog'')"
  have e: "map_of (active demo_active) ''fog'' = Some ?e" unfolding demo_active_def by code_simp
  have facts: "phase ?e = FadeIn" "1 < unat (channelSpan ?e)" "startedAtFrame ?e \<le> 120"
    "startValues ?e ! 1 \<le> targetValues ?e ! 1" "targetValues ?e ! 1 = 200"
    unfolding demo_active_def by code_simp+
  show ?thesis
    using fade_is_monotone [OF runner_ok_active [OF demo_active_ok e] _ facts(2,3), of 130] facts(1,4,5)
    by simp
qed


theorem pattern_runs_to_blackout_witness:
  "\<exists>m < 8. map_of (active (ticks 100 (Suc m) demo_active)) ''fog'' = None"
proof -
  have 1: "hold_ms demo_pattern \<noteq> 0" "unat (100 :: framenum_t) < 2 ^ 63" by (simp_all add: demo_pattern_def)
  have 2: "ticks_for (unat (fade_in_ms demo_pattern)) + ticks_for (unat (hold_ms demo_pattern)) +
      ticks_for (unat (fade_out_ms demo_pattern)) + 3 = 8" "fx_id demo_fixture = ''fog''"
    by code_simp+
  show ?thesis
    using pattern_runs_to_blackout [OF runner_ok_new demo_start 1] unfolding 2 by blast
qed


end
