(* ===== verification/Object_Cache.thy ===== *)
theory Object_Cache
  imports Prelude
begin

text \<open>
  \<open>ObjectCache<Key, Value>\<close> of src/src/util/cache.h, the shared lookup cache for creatures,
  fixtures and universe assignments. The member map holds \<open>shared_ptr\<close>s, so an entry is an
  optional value: a null pointer can be stored, and \<open>tryGet\<close> does not distinguish it from
  an absent key while \<open>get\<close> and \<open>contains\<close> do. The interface the clients rely on is the
  locale \<open>cache_interface\<close>, which the model of the class instantiates.
\<close>

section \<open>The class\<close>

type_synonym ('k, 'v) object_cache = "('k \<times> 'v option) list"

datatype 'a or_out_of_range = Out_of_range | Got 'a

definition cache_put_ptr :: "'k \<Rightarrow> 'v option \<Rightarrow> ('k, 'v) object_cache \<Rightarrow> ('k, 'v) object_cache" where
  "cache_put_ptr k p m = AList.update k p (AList.delete k m)"

definition cache_put :: "'k \<Rightarrow> 'v \<Rightarrow> ('k, 'v) object_cache \<Rightarrow> ('k, 'v) object_cache" where
  "cache_put k v m = AList.update k (Some v) (AList.delete k m)"

definition cache_get :: "('k, 'v) object_cache \<Rightarrow> 'k \<Rightarrow> 'v option or_out_of_range" where
  "cache_get m k = (case map_of m k of None \<Rightarrow> Out_of_range | Some p \<Rightarrow> Got p)"

definition cache_tryGet :: "('k, 'v) object_cache \<Rightarrow> 'k \<Rightarrow> 'v option" where
  "cache_tryGet m k = (case map_of m k of None \<Rightarrow> None | Some p \<Rightarrow> p)"

definition cache_remove :: "'k \<Rightarrow> ('k, 'v) object_cache \<Rightarrow> ('k, 'v) object_cache" where
  "cache_remove k m = AList.delete k m"

definition cache_contains :: "('k, 'v) object_cache \<Rightarrow> 'k \<Rightarrow> bool" where
  "cache_contains m k \<longleftrightarrow> map_of m k \<noteq> None"

definition cache_getAllKeys :: "('k, 'v) object_cache \<Rightarrow> 'k list" where
  "cache_getAllKeys m = map fst m"

lemmas cache_defs = cache_put_ptr_def cache_put_def cache_get_def cache_tryGet_def
  cache_remove_def cache_contains_def cache_getAllKeys_def

lemma keys_ok_cache_put [simp, invariant_intros]: "keys_ok m \<Longrightarrow> keys_ok (cache_put k v m)"
  by (simp add: cache_put_def)

lemma keys_ok_cache_put_ptr [simp, invariant_intros]: "keys_ok m \<Longrightarrow> keys_ok (cache_put_ptr k p m)"
  by (simp add: cache_put_ptr_def)

lemma keys_ok_cache_remove [simp, invariant_intros]: "keys_ok m \<Longrightarrow> keys_ok (cache_remove k m)"
  by (simp add: cache_remove_def)

lemma cache_getAllKeys_contains: "k \<in> set (cache_getAllKeys m) \<longleftrightarrow> cache_contains m k"
  by (simp add: cache_defs map_of_eq_None_iff)

section \<open>The interface\<close>

text \<open>
  What the playback runners and the fixture dispatcher rely on: a lookup, an insertion and
  a removal, with the map laws. \<open>coherent\<close> says that every cached value is the one
  the backing store would return; the clients only ever insert what they just loaded.
\<close>

locale cache_interface =
  fixes lookup :: "'m \<Rightarrow> 'k \<Rightarrow> 'v option"
    and store :: "'k \<Rightarrow> 'v \<Rightarrow> 'm \<Rightarrow> 'm"
    and drop_key :: "'k \<Rightarrow> 'm \<Rightarrow> 'm"
  assumes lookup_store: "lookup (store k v m) k' = (if k' = k then Some v else lookup m k')"
    and lookup_drop: "lookup (drop_key k m) k' = (if k' = k then None else lookup m k')"
begin

definition coherent :: "('k \<Rightarrow> 'v result) \<Rightarrow> 'm \<Rightarrow> bool" where
  "coherent load m \<longleftrightarrow> (\<forall>k v. lookup m k = Some v \<longrightarrow> load k = Inr v)"

definition fetch :: "('k \<Rightarrow> 'v result) \<Rightarrow> 'm \<Rightarrow> 'k \<Rightarrow> ('v \<times> 'm) result" where
  "fetch load m k = (case lookup m k of
     Some v \<Rightarrow> Inr (v, m)
   | None \<Rightarrow> (case load k of Inl e \<Rightarrow> Inl e | Inr v \<Rightarrow> Inr (v, store k v m)))"

lemma fetch_coherent: "coherent load m \<Longrightarrow> fetch load m k = Inr (v, m') \<Longrightarrow> coherent load m'"
  by (auto simp: fetch_def coherent_def lookup_store split: option.splits sum.splits if_splits)

lemma fetch_value: "coherent load m \<Longrightarrow> fetch load m k = Inr (v, m') \<Longrightarrow> load k = Inr v"
  by (auto simp: fetch_def coherent_def split: option.splits sum.splits)

lemma fetch_cached: "fetch load m k = Inr (v, m') \<Longrightarrow> lookup m' k = Some v"
  by (auto simp: fetch_def lookup_store split: option.splits sum.splits)

lemma fetch_frame: "fetch load m k = Inr (v, m') \<Longrightarrow> k' \<noteq> k \<Longrightarrow> lookup m' k' = lookup m k'"
  by (auto simp: fetch_def lookup_store split: option.splits sum.splits)

lemma fetch_again: "fetch load m k = Inr (v, m') \<Longrightarrow> fetch load' m' k = Inr (v, m')"
  by (simp add: fetch_def [of load'] fetch_cached)

lemma coherent_drop: "coherent load m \<Longrightarrow> coherent load (drop_key k m)"
  by (auto simp: coherent_def lookup_drop split: if_splits)

end

interpretation object_cache: cache_interface cache_tryGet cache_put cache_remove
  by unfold_locales (auto simp: cache_defs)

text \<open>
  The cache-aside lookup the clients write out: \<open>tryGet\<close>, and on a miss load and \<open>put\<close>. It is
  the interface's \<open>fetch\<close> on this class, so its laws are the interface's laws.
\<close>

definition cache_fetch ::
  "('k \<Rightarrow> 'v result) \<Rightarrow> ('k, 'v) object_cache \<Rightarrow> 'k \<Rightarrow> ('v \<times> ('k, 'v) object_cache) result"
where
  "cache_fetch load m k = (case cache_tryGet m k of
     Some v \<Rightarrow> Inr (v, m)
   | None \<Rightarrow> (case load k of Inl e \<Rightarrow> Inl e | Inr v \<Rightarrow> Inr (v, cache_put k v m)))"

lemma cache_fetch_is_fetch: "cache_fetch = object_cache.fetch"
  by (simp add: fun_eq_iff cache_fetch_def object_cache.fetch_def)

lemmas cache_fetch_laws = object_cache.fetch_coherent [folded cache_fetch_is_fetch]
  object_cache.fetch_value [folded cache_fetch_is_fetch]
  object_cache.fetch_cached [folded cache_fetch_is_fetch]
  object_cache.fetch_frame [folded cache_fetch_is_fetch]

end
