(* ===== verification/Playback_Runner.thy ===== *)
theory Playback_Runner
  imports Session_Manager Object_Cache Fixture_Model
begin

text \<open>
  \<open>PlaybackRunnerEvent\<close> (src/src/server/eventloop/events/playback-runner.cpp): the event that
  plays one frame of a session, reschedules itself, and completes or tears the session down.
  The database, the session's callbacks and the audio transport are arguments: the
  transport's interface (audio/AudioTransport.h) is the record \<open>transport_ops\<close>.
\<close>

section \<open>What the runner works on\<close>

record creature =
  creature_name :: string
  creature_channel_offset :: u16
  idle_animation_ids :: "string list"

record 't runner_world = "'t world" +
  creatureCache :: "(creatureId_t, creature) object_cache option"
  fixtureCache :: "(fixtureId_t, dmx_fixture) object_cache option"
  fixtureUniverseMap :: "(fixtureId_t, universe_t) object_cache option"

record 't transport_ops =
  needsPerFrameDispatch :: "'t \<Rightarrow> bool"
  dispatchNextChunk :: "framenum_t \<Rightarrow> 't \<Rightarrow> framenum_t result \<times> 't"
  hasTerminalFailure :: "'t \<Rightarrow> bool"
  transport_isFinished :: "'t \<Rightarrow> bool"
  getNextDispatchFrame :: "'t \<Rightarrow> framenum_t option"
  transport_stop :: "'t \<Rightarrow> 't"

record ('t, 'w) runner_env =
  r_service_env :: service_env
  r_ops :: "'t transport_ops"
  r_on_start :: "nat \<Rightarrow> 'w \<Rightarrow> 'w"
  r_on_finish :: "nat \<Rightarrow> 'w \<Rightarrow> 'w"
  r_start_idle :: "creatureId_t \<Rightarrow> 'w \<Rightarrow> 'w"
  r_db :: "((creatureId_t \<Rightarrow> creature result) \<times> (fixtureId_t \<Rightarrow> dmx_fixture result)) option"

definition EVENT_LOOP_PERIOD_MS :: u32 where
  "EVENT_LOOP_PERIOD_MS = 1"

definition frameStepForMs :: "u32 \<Rightarrow> framenum_t" where
  "frameStepForMs msPerFrame = max 1 (ucast (msPerFrame div EVENT_LOOP_PERIOD_MS))"

definition internal_error :: "string \<Rightarrow> 'a result" where
  "internal_error msg = Inl (ServerError InternalError msg)"

definition update_session :: "nat \<Rightarrow> ('t session \<Rightarrow> 't session) \<Rightarrow> ('t, 'a) world_scheme \<Rightarrow> ('t, 'a) world_scheme" where
  "update_session r f W = W\<lparr>heap := (heap W)[r := f (heap W ! r)]\<rparr>"

section \<open>Emitting frames\<close>

text \<open>
  Where a track's frame goes: \<open>Inr (None, W)\<close> is a fixture without a universe, whose frame
  is skipped; a cache miss loads the creature or fixture and fills the cache.
\<close>

definition resolve_target ::
  "('t, ('t, 'a) runner_world_scheme) runner_env \<Rightarrow> universe_t \<Rightarrow> track_state \<Rightarrow> ('t, 'a) runner_world_scheme \<Rightarrow>
   ((universe_t \<times> u16) option \<times> ('t, 'a) runner_world_scheme) result"
where
  "resolve_target env sessionUniverse t W = (case r_db env of
     None \<Rightarrow> internal_error ''Database unavailable during playback''
   | Some (db_creature, db_fixture) \<Rightarrow>
       if isFixtureTrack t then
         (case (fixtureCache W, fixtureUniverseMap W) of
            (Some fc, Some fm) \<Rightarrow> (case cache_fetch db_fixture fc (fixtureId t) of
                Inl _ \<Rightarrow> internal_error (''Fixture '' @ fixtureId t @ '' not found in database during playback'')
              | Inr (fixture, fc') \<Rightarrow> Inr
                  (map_option (\<lambda>u. (u, fixture_channel_offset fixture)) (cache_tryGet fm (fixtureId t)),
                   W\<lparr>fixtureCache := Some fc'\<rparr>))
          | _ \<Rightarrow> internal_error ''Fixture cache or universe map unavailable during playback'')
       else
         (case creatureCache W of
            None \<Rightarrow> internal_error ''Creature cache unavailable during playback''
          | Some cc \<Rightarrow> (case cache_fetch db_creature cc (creatureId t) of
                Inl _ \<Rightarrow> internal_error (''Creature '' @ creatureId t @ '' not found in database during playback'')
              | Inr (c, cc') \<Rightarrow> Inr
                  (Some (sessionUniverse, creature_channel_offset c), W\<lparr>creatureCache := Some cc'\<rparr>))))"

definition advance_track :: "framenum_t \<Rightarrow> u32 \<Rightarrow> track_state \<Rightarrow> track_state" where
  "advance_track frame ms t = t\<lparr>currentFrameIndex := currentFrameIndex t + 1,
     nextDispatchFrame := frame + frameStepForMs ms\<rparr>"

text \<open>
  The loop of \<open>emitDmxFrames\<close> over the tracks: an error stops it, leaving the earlier tracks
  advanced and the later ones as they were.
\<close>

fun emit_tracks ::
  "('t, ('t, 'a) runner_world_scheme) runner_env \<Rightarrow> universe_t \<Rightarrow> u32 \<Rightarrow> framenum_t \<Rightarrow> track_state list \<Rightarrow>
   ('t, 'a) runner_world_scheme \<Rightarrow> server_error option \<times> track_state list \<times> ('t, 'a) runner_world_scheme"
where
  "emit_tracks env u ms frame [] W = (None, [], W)"
| "emit_tracks env u ms frame (t # ts) W =
     (if track_isFinished t \<or> frame < nextDispatchFrame t then
        (let (e, ts', W') = emit_tracks env u ms frame ts W in (e, t # ts', W'))
      else (case resolve_target env u t W of
          Inl e \<Rightarrow> (Some e, t # ts, W)
        | Inr (None, W1) \<Rightarrow>
            (let (e, ts', W') = emit_tracks env u ms frame ts W1 in (e, advance_track frame ms t # ts', W'))
        | Inr (Some (target, offset), W1) \<Rightarrow>
            (let W2 = schedule_event frame (DmxWrite \<lparr>dmx_universe = target, channelOffset = ucast offset,
                        dmx_data = decodedFrames t ! unat (currentFrameIndex t)\<rparr>) W1;
                 (e, ts', W') = emit_tracks env u ms frame ts W2
             in (e, advance_track frame ms t # ts', W'))))"

definition emitDmxFrames ::
  "('t, ('t, 'a) runner_world_scheme) runner_env \<Rightarrow> framenum_t \<Rightarrow> nat \<Rightarrow> ('t, 'a) runner_world_scheme \<Rightarrow>
   framenum_t result \<times> ('t, 'a) runner_world_scheme"
where
  "emitDmxFrames env frame r W =
     (if creatureCache W = None then (internal_error ''Creature cache unavailable during playback'', W)
      else if r_db env = None then (internal_error ''Database unavailable during playback'', W)
      else if eventLoop W = None then (internal_error ''Event loop unavailable during playback'', W)
      else (let s = heap W ! r;
                (e, ts, W1) = emit_tracks env (s_universe s) (getMsPerFrame s) frame (trackStates s) W;
                W2 = update_session r (\<lambda>s. s\<lparr>trackStates := ts\<rparr>) W1
            in (case e of None \<Rightarrow> Inr frame | Some err \<Rightarrow> Inl err, W2)))"

definition areAllTracksFinished :: "'t transport_ops \<Rightarrow> 't session \<Rightarrow> bool" where
  "areAllTracksFinished ops s =
     (if trackStates s = [] then True
      else if \<not> list_all track_isFinished (trackStates s) then False
      else (case audioTransport s of
          None \<Rightarrow> True
        | Some tr \<Rightarrow> \<not> (needsPerFrameDispatch ops tr \<and> \<not> transport_isFinished ops tr)))"

definition calculateNextFrameNumber :: "'t transport_ops \<Rightarrow> framenum_t \<Rightarrow> 't session \<Rightarrow> framenum_t" where
  "calculateNextFrameNumber ops frame s =
     (let n1 = foldl (\<lambda>n t. if track_isFinished t then n else min n (nextDispatchFrame t)) framenum_max (trackStates s);
          n2 = (case audioTransport s of
                  None \<Rightarrow> n1
                | Some tr \<Rightarrow> (case getNextDispatchFrame ops tr of None \<Rightarrow> n1 | Some f \<Rightarrow> min n1 f))
      in if n2 = framenum_max then frame + 1 else max (frame + 1) n2)"

section \<open>Completion\<close>

definition performTeardown ::
  "('t, ('t, 'a) runner_world_scheme) runner_env \<Rightarrow> nat \<Rightarrow> ('t, 'a) runner_world_scheme \<Rightarrow> ('t, 'a) runner_world_scheme"
where
  "performTeardown env r W =
     (let W1 = (case eventLoop W of None \<Rightarrow> W | Some cur \<Rightarrow> schedule_event (cur + 1) (AnimationLight False) W)
      in update_session r (\<lambda>s. s\<lparr>audioTransport := map_option (transport_stop (r_ops env)) (audioTransport s)\<rparr>) W1)"

definition completeCancelledSession ::
  "('t, ('t, 'a) runner_world_scheme) runner_env \<Rightarrow> nat \<Rightarrow> ('t, 'a) runner_world_scheme \<Rightarrow> ('t, 'a) runner_world_scheme"
where
  "completeCancelledSession env r W =
     (let (claimed, s) = markFinished (heap W ! r);
          W1 = update_session r (\<lambda>_. s) W
      in if \<not> claimed then W1
         else
           (let W2 = performTeardown env r W1;
                W3 = r_on_finish env r W2;
                s3 = heap W3 ! r;
                W4 = (if \<not> cancellationNotified s3
                      then W3\<lparr>services := snd (setActivityState (r_service_env env) (creatureIds s3)
                             \<lparr>w_animation = anim_id (s_animation s3), w_reason = Cancelled, w_state = Stopped,
                              w_session = sessionId s3, w_generation = activityGeneration s3\<rparr> (services W3))\<rparr>
                      else W3)
            in fold (\<lambda>c W. if \<not> hasActiveSessionForCreature W (s_universe s3) c
                           then r_start_idle env c W else W) (creatureIds s3) W4))"

text \<open>The tail of \<open>executeImpl\<close> once the session has claimed its natural completion.\<close>

definition complete_naturally ::
  "('t, ('t, 'a) runner_world_scheme) runner_env \<Rightarrow> nat \<Rightarrow> ('t, 'a) runner_world_scheme \<Rightarrow> ('t, 'a) runner_world_scheme"
where
  "complete_naturally env r W =
     (let W2 = performTeardown env r W;
          W3 = r_on_finish env r W2;
          s = heap W3 ! r;
          ids = creatureIds s;
          newSessionStarted = list_ex (\<lambda>c. hasActiveNonIdleSessionForCreature W3 (s_universe s) c) ids
      in if \<not> newSessionStarted then
           (let reason = activityReason s;
                W4 = W3\<lparr>services := snd (setActivityState (r_service_env env) ids
                       \<lparr>w_animation = anim_id (s_animation s), w_reason = reason, w_state = Idle,
                        w_session = sessionId s, w_generation = activityGeneration s\<rparr> (services W3))\<rparr>
            in if reason \<noteq> Playlist then fold (r_start_idle env) ids W4 else W4)
         else W3)"

section \<open>\<open>executeImpl\<close>\<close>

definition cancel_and_complete ::
  "('t, ('t, 'a) runner_world_scheme) runner_env \<Rightarrow> nat \<Rightarrow> ('t, 'a) runner_world_scheme \<Rightarrow> ('t, 'a) runner_world_scheme"
where
  "cancel_and_complete env r W = completeCancelledSession env r (update_session r cancel W)"

text \<open>After the frames are out: completion, or the next runner event.\<close>

definition finish_or_reschedule ::
  "('t, ('t, 'a) runner_world_scheme) runner_env \<Rightarrow> framenum_t \<Rightarrow> nat \<Rightarrow> ('t, 'a) runner_world_scheme \<Rightarrow>
   framenum_t result \<times> ('t, 'a) runner_world_scheme"
where
  "finish_or_reschedule env frame r W =
     (if areAllTracksFinished (r_ops env) (heap W ! r) then
        (case audioTransport (heap W ! r) of
           Some tr \<Rightarrow>
             if hasTerminalFailure (r_ops env) tr
             then (internal_error ''Playback ended because its audio output failed terminally'',
                   cancel_and_complete env r W)
             else (let (claimed, s) = markFinished (heap W ! r); W1 = update_session r (\<lambda>_. s) W in
                   (Inr frame, if \<not> claimed then W1 else complete_naturally env r W1))
         | None \<Rightarrow>
             (let (claimed, s) = markFinished (heap W ! r); W1 = update_session r (\<lambda>_. s) W in
              (Inr frame, if \<not> claimed then W1 else complete_naturally env r W1)))
      else
        (Inr frame, schedule_event (calculateNextFrameNumber (r_ops env) frame (heap W ! r)) (RunnerEvent r) W))"

text \<open>The RTP dispatch: a terminal failure fails the session, any other error is only logged.\<close>

definition dispatch_audio ::
  "('t, ('t, 'a) runner_world_scheme) runner_env \<Rightarrow> framenum_t \<Rightarrow> nat \<Rightarrow> ('t, 'a) runner_world_scheme \<Rightarrow>
   server_error option \<times> ('t, 'a) runner_world_scheme"
where
  "dispatch_audio env frame r W = (case audioTransport (heap W ! r) of
     None \<Rightarrow> (None, W)
   | Some tr \<Rightarrow>
       if \<not> needsPerFrameDispatch (r_ops env) tr then (None, W)
       else (let (res, tr') = dispatchNextChunk (r_ops env) frame tr;
                 W1 = update_session r (\<lambda>s. s\<lparr>audioTransport := Some tr'\<rparr>) W
             in case res of
                  Inl e \<Rightarrow> (if hasTerminalFailure (r_ops env) tr' then Some e else None, W1)
                | Inr _ \<Rightarrow> (None, W1)))"

text \<open>The defensive guard: an idle session that does not target one creature is cancelled.\<close>

definition idle_guard :: "nat \<Rightarrow> ('t, 'a) world_scheme \<Rightarrow> ('t, 'a) world_scheme" where
  "idle_guard r W =
     (let s = heap W ! r in
      if \<not> cancelled s \<and> activityReason s = ReasonIdle \<and> length (creatureIds s) \<noteq> 1
      then update_session r cancel W else W)"

definition start_session ::
  "('t, ('t, 'a) runner_world_scheme) runner_env \<Rightarrow> nat \<Rightarrow> ('t, 'a) runner_world_scheme \<Rightarrow> ('t, 'a) runner_world_scheme"
where
  "start_session env r W =
     (let (first, s) = invokeOnStart (heap W ! r);
          W1 = update_session r (\<lambda>_. s) W
      in if first then r_on_start env r W1 else W1)"

definition play_frame ::
  "('t, ('t, 'a) runner_world_scheme) runner_env \<Rightarrow> framenum_t \<Rightarrow> nat \<Rightarrow> ('t, 'a) runner_world_scheme \<Rightarrow>
   framenum_t result \<times> ('t, 'a) runner_world_scheme"
where
  "play_frame env frame r W =
     (let (dmxResult, W3) = emitDmxFrames env frame r (start_session env r W)
      in case dmxResult of
           Inl e \<Rightarrow> (Inl e, cancel_and_complete env r W3)
         | Inr _ \<Rightarrow>
             (let (audioError, W4) = dispatch_audio env frame r W3 in
              case audioError of
                Some e \<Rightarrow> (Inl e, cancel_and_complete env r W4)
              | None \<Rightarrow> finish_or_reschedule env frame r W4))"

definition executeImpl ::
  "('t, ('t, 'a) runner_world_scheme) runner_env \<Rightarrow> framenum_t \<Rightarrow> nat option \<Rightarrow> ('t, 'a) runner_world_scheme \<Rightarrow>
   framenum_t result \<times> ('t, 'a) runner_world_scheme"
where
  "executeImpl env frame session W = (case session of
     None \<Rightarrow> (internal_error ''PlaybackRunnerEvent has no session'', W)
   | Some r \<Rightarrow>
     if eventLoop W = None then (internal_error ''PlaybackRunnerEvent missing event loop'', W)
     else if cancelled (heap (idle_guard r W) ! r)
       then (Inr frame, completeCancelledSession env r (idle_guard r W))
       else play_frame env frame r (idle_guard r W))"

section \<open>The runner moves forward\<close>

lemma calculateNextFrameNumber_later:
  "frame \<noteq> framenum_max \<Longrightarrow> frame < calculateNextFrameNumber ops frame s"
  using word_succ_greater [of frame]
  by (auto simp: calculateNextFrameNumber_def Let_def framenum_max_def less_max_iff_disj)

section \<open>Frame conditions\<close>

lemma schedule_event_frame [simp]:
  "heap (schedule_event f e W) = heap W" "universeStates (schedule_event f e W) = universeStates W"
  "nextActivityGeneration (schedule_event f e W) = nextActivityGeneration W"
  "services (schedule_event f e W) = services W" "eventLoop (schedule_event f e W) = eventLoop W"
  "outbox (schedule_event f e W) = outbox W @ [(f, e)]"
  by (simp_all add: schedule_event_def)

lemma runner_schedule_frame [simp]:
  "creatureCache (schedule_event f e W) = creatureCache W" "fixtureCache (schedule_event f e W) = fixtureCache W"
  "fixtureUniverseMap (schedule_event f e W) = fixtureUniverseMap W"
  "runner_world.more (schedule_event f e W) = runner_world.more W"
  by (simp_all add: schedule_event_def)

lemma update_session_frame [simp]:
  "heap (update_session r f W) = (heap W)[r := f (heap W ! r)]"
  "universeStates (update_session r f W) = universeStates W" "services (update_session r f W) = services W"
  "eventLoop (update_session r f W) = eventLoop W" "outbox (update_session r f W) = outbox W"
  by (simp_all add: update_session_def)

lemma runner_update_session_frame [simp]:
  "creatureCache (update_session r f W) = creatureCache W" "fixtureCache (update_session r f W) = fixtureCache W"
  "fixtureUniverseMap (update_session r f W) = fixtureUniverseMap W"
  "runner_world.more (update_session r f W) = runner_world.more W"
  by (simp_all add: update_session_def)

lemma resolve_target_frame:
  "resolve_target env u t W = Inr (tgt, W') \<Longrightarrow> heap W' = heap W \<and> universeStates W' = universeStates W \<and>
   services W' = services W \<and> eventLoop W' = eventLoop W \<and> outbox W' = outbox W \<and>
   runner_world.more W' = runner_world.more W"
  by (auto simp: resolve_target_def internal_error_def split: option.splits prod.splits if_splits sum.splits)

lemma emit_tracks_frame:
  "emit_tracks env u ms frame ts W = (e, ts', W') \<Longrightarrow> heap W' = heap W \<and> universeStates W' = universeStates W \<and>
   services W' = services W \<and> eventLoop W' = eventLoop W \<and> runner_world.more W' = runner_world.more W"
proof (induction ts arbitrary: W e ts' W')
  case (Cons t ts)
  show ?case
  proof (cases "track_isFinished t \<or> frame < nextDispatchFrame t")
    case True
    then show ?thesis using Cons by (auto split: prod.splits)
  next
    case False
    show ?thesis
    proof (cases "resolve_target env u t W")
      case (Inl err)
      then show ?thesis using Cons.prems False by auto
    next
      case (Inr p)
      obtain tgt W1 where p: "p = (tgt, W1)" by fastforce
      note W1 = resolve_target_frame [of env u t W tgt W1]
      show ?thesis
      proof (cases tgt)
        case None
        then show ?thesis using Cons.prems False Inr p W1 Cons.IH [of W1] by (auto split: prod.splits)
      next
        case (Some x)
        obtain target offset where x: "x = (target, offset)" by fastforce
        define W2 where "W2 = schedule_event frame (DmxWrite \<lparr>dmx_universe = target, channelOffset = ucast offset,
            dmx_data = decodedFrames t ! unat (currentFrameIndex t)\<rparr>) W1"
        obtain e2 ts2 W3 where "emit_tracks env u ms frame ts W2 = (e2, ts2, W3)" by (rule prod_cases3)
        then show ?thesis
          using Cons.prems False Inr p Some x W1 Cons.IH [of W2 e2 ts2 W3]
          by (auto simp: W2_def [symmetric]) (simp_all add: W2_def)
      qed
    qed
  qed
qed simp

section \<open>Completion happens once\<close>

text \<open>
  The sessions' \<open>hasFinished\<close> flags only go up, and a log, kept in the extension field of
  the world, records each call of an onFinish callback. The callbacks themselves may do
  anything that does not lower a flag or complete a session.
\<close>

definition fin_mono :: "('t, 'a) world_scheme \<Rightarrow> ('t, 'b) world_scheme \<Rightarrow> bool" where
  "fin_mono W W' \<longleftrightarrow> length (heap W) \<le> length (heap W') \<and>
     (\<forall>q < length (heap W). hasFinished (heap W ! q) \<longrightarrow> hasFinished (heap W' ! q))"

definition keeps :: "('t, nat list) runner_world_scheme \<Rightarrow> ('t, nat list) runner_world_scheme \<Rightarrow> bool" where
  "keeps W W' \<longleftrightarrow> fin_mono W W' \<and> runner_world.more W' = runner_world.more W"

definition callbacks_ok :: "('t, ('t, nat list) runner_world_scheme) runner_env \<Rightarrow> bool" where
  "callbacks_ok env \<longleftrightarrow> (\<forall>r W. keeps W (r_on_start env r W)) \<and> (\<forall>c W. keeps W (r_start_idle env c W)) \<and>
     (\<forall>r W. fin_mono W (r_on_finish env r W) \<and>
        runner_world.more (r_on_finish env r W) = runner_world.more W @ [r])"

lemma fin_mono_refl [simp]: "fin_mono W W"
  by (simp add: fin_mono_def)

lemma fin_mono_trans: "fin_mono W W' \<Longrightarrow> fin_mono W' W'' \<Longrightarrow> fin_mono W W''"
  by (auto simp: fin_mono_def)

lemma keeps_refl [simp]: "keeps W W"
  by (simp add: keeps_def)

lemma keeps_trans: "keeps W W' \<Longrightarrow> keeps W' W'' \<Longrightarrow> keeps W W''"
  by (auto simp: keeps_def intro: fin_mono_trans)

lemma fin_mono_update:
  assumes "\<And>s. s = heap W ! r \<Longrightarrow> hasFinished s \<Longrightarrow> hasFinished (f s)"
  shows "fin_mono W (update_session r f W)"
  unfolding fin_mono_def
proof (intro conjI allI impI)
  fix q assume "q < length (heap W)" "hasFinished (heap W ! q)"
  then show "hasFinished (heap (update_session r f W) ! q)" using assms by (cases "q = r") auto
qed simp

lemma keeps_update:
  "(\<And>s. s = heap W ! r \<Longrightarrow> hasFinished s \<Longrightarrow> hasFinished (f s)) \<Longrightarrow> keeps W (update_session r f W)"
  by (simp add: keeps_def fin_mono_update)

lemma keeps_same: "heap W' = heap W \<Longrightarrow> runner_world.more W' = runner_world.more W \<Longrightarrow> keeps W W'"
  by (simp add: keeps_def fin_mono_def)

lemma keeps_schedule: "keeps W (schedule_event f e W)"
  by (rule keeps_same) simp_all

lemma keeps_services: "keeps W (W\<lparr>services := S\<rparr>)"
  by (rule keeps_same) simp_all

lemma keeps_fold: "(\<And>x W. keeps W (f x W)) \<Longrightarrow> keeps W (fold f xs W)"
  by (rule fold_preserves [where P = "keeps W"]) (auto intro: keeps_trans)

lemma keeps_performTeardown: "keeps W (performTeardown env r W)"
  unfolding performTeardown_def Let_def
  by (rule keeps_trans [OF _ keeps_update]) (simp_all add: keeps_schedule split: option.splits)

lemma keeps_emitDmxFrames: "keeps W (snd (emitDmxFrames env frame r W))"
proof -
  obtain e ts W1 where em: "emit_tracks env (s_universe (heap W ! r)) (getMsPerFrame (heap W ! r)) frame
      (trackStates (heap W ! r)) W = (e, ts, W1)" by (rule prod_cases3)
  have "keeps W W1" using emit_tracks_frame [OF em] by (intro keeps_same) simp_all
  moreover have "keeps W1 (update_session r (\<lambda>s. s\<lparr>trackStates := ts\<rparr>) W1)" by (rule keeps_update) simp
  ultimately show ?thesis
    by (simp add: emitDmxFrames_def em Let_def keeps_trans)
qed

lemma keeps_dispatch_audio: "keeps W (snd (dispatch_audio env frame r W))"
  by (auto simp: dispatch_audio_def case_prod_unfold Let_def intro: keeps_update split: option.splits sum.splits)


text \<open>One execution completes at most its own session, and only one not completed before.\<close>

definition completes :: "nat \<Rightarrow> ('t, nat list) runner_world_scheme \<Rightarrow> ('t, nat list) runner_world_scheme \<Rightarrow> bool" where
  "completes r W W' \<longleftrightarrow> fin_mono W W' \<and> (runner_world.more W' = runner_world.more W \<or>
     (runner_world.more W' = runner_world.more W @ [r] \<and> \<not> hasFinished (heap W ! r) \<and> hasFinished (heap W' ! r)))"

lemma completes_keeps: "keeps W W' \<Longrightarrow> completes r W W'"
  by (simp add: completes_def keeps_def)

lemma completes_trans:
  assumes "keeps W W1" "completes r W1 W2" "r < length (heap W)"
  shows "completes r W W2"
  using assms by (auto simp: completes_def keeps_def intro: fin_mono_trans) (auto simp: fin_mono_def)

lemma completes_then_keeps:
  assumes "completes r W W1" "keeps W1 W2" "r < length (heap W)"
  shows "completes r W W2"
proof -
  have "r < length (heap W1)" using assms(1,3) by (simp add: completes_def fin_mono_def)
  then show ?thesis
    using assms by (auto simp: completes_def keeps_def intro: fin_mono_trans) (auto simp: fin_mono_def)
qed

text \<open>Claiming completion, tearing down and calling onFinish, the part both completions share.\<close>

lemma completes_claim:
  assumes "callbacks_ok env" "r < length (heap W)" "\<not> hasFinished (heap W ! r)"
  shows "completes r W (r_on_finish env r (performTeardown env r (update_session r (\<lambda>_. (heap W ! r)\<lparr>hasFinished := True\<rparr>) W)))"
proof -
  define W1 where "W1 = update_session r (\<lambda>_. (heap W ! r)\<lparr>hasFinished := True\<rparr>) W"
  define W2 where "W2 = performTeardown env r W1"
  have "fin_mono W W1" unfolding W1_def by (rule fin_mono_update) simp
  moreover have "keeps W1 W2" unfolding W2_def by (rule keeps_performTeardown)
  moreover have "fin_mono W2 (r_on_finish env r W2)" "runner_world.more (r_on_finish env r W2) = runner_world.more W2 @ [r]"
    using assms(1) by (auto simp: callbacks_ok_def)
  moreover have "hasFinished (heap W1 ! r)" "r < length (heap W1)" "runner_world.more W1 = runner_world.more W"
    using assms(2) by (simp_all add: W1_def)
  ultimately have "fin_mono W (r_on_finish env r W2)" "hasFinished (heap (r_on_finish env r W2) ! r)"
      "runner_world.more (r_on_finish env r W2) = runner_world.more W @ [r]"
    by (auto simp: keeps_def intro: fin_mono_trans) (auto simp: fin_mono_def)
  then show ?thesis using assms(3) by (simp add: completes_def W1_def W2_def)
qed

lemma completes_completeCancelled:
  assumes "callbacks_ok env" "r < length (heap W)"
  shows "completes r W (completeCancelledSession env r W)"
proof (cases "hasFinished (heap W ! r)")
  case True
  then show ?thesis
    by (auto simp: completeCancelledSession_def markFinished_def Let_def intro!: completes_keeps keeps_update)
next
  case False
  define W3 where "W3 = r_on_finish env r (performTeardown env r (update_session r (\<lambda>_. (heap W ! r)\<lparr>hasFinished := True\<rparr>) W))"
  define W4 where "W4 = (if \<not> cancellationNotified (heap W3 ! r)
      then W3\<lparr>services := snd (setActivityState (r_service_env env) (creatureIds (heap W3 ! r))
             \<lparr>w_animation = anim_id (s_animation (heap W3 ! r)), w_reason = Cancelled, w_state = Stopped,
              w_session = sessionId (heap W3 ! r), w_generation = activityGeneration (heap W3 ! r)\<rparr> (services W3))\<rparr>
      else W3)"
  have "completeCancelledSession env r W = fold (\<lambda>c W. if \<not> hasActiveSessionForCreature W (s_universe (heap W3 ! r)) c
      then r_start_idle env c W else W) (creatureIds (heap W3 ! r)) W4"
    using False by (simp add: completeCancelledSession_def markFinished_def Let_def W3_def W4_def)
  moreover have "keeps W3 W4" by (simp add: W4_def keeps_services)
  moreover have "keeps W4 (fold (\<lambda>c W. if \<not> hasActiveSessionForCreature W (s_universe (heap W3 ! r)) c
      then r_start_idle env c W else W) (creatureIds (heap W3 ! r)) W4)"
    by (rule keeps_fold) (use assms(1) in \<open>simp add: callbacks_ok_def\<close>)
  moreover have "completes r W W3" unfolding W3_def using assms False by (rule completes_claim)
  ultimately show ?thesis using completes_then_keeps keeps_trans assms(2) by metis
qed

lemma completes_naturally:
  assumes "callbacks_ok env" "r < length (heap W)" "\<not> hasFinished (heap W ! r)"
  shows "completes r W (complete_naturally env r (update_session r (\<lambda>_. (heap W ! r)\<lparr>hasFinished := True\<rparr>) W))"
proof -
  define W3 where "W3 = r_on_finish env r (performTeardown env r (update_session r (\<lambda>_. (heap W ! r)\<lparr>hasFinished := True\<rparr>) W))"
  have "completes r W W3" unfolding W3_def using assms by (rule completes_claim)
  moreover have "keeps W3 (complete_naturally env r (update_session r (\<lambda>_. (heap W ! r)\<lparr>hasFinished := True\<rparr>) W))"
    unfolding complete_naturally_def Let_def W3_def [symmetric]
    using assms(1) by (auto simp: callbacks_ok_def intro!: keeps_trans [OF keeps_services keeps_fold] keeps_services)
  ultimately show ?thesis using completes_then_keeps assms(2) by metis
qed

lemma completes_cancel_and_complete:
  assumes "callbacks_ok env" "r < length (heap W)"
  shows "completes r W (cancel_and_complete env r W)"
  unfolding cancel_and_complete_def
  by (rule completes_trans [OF keeps_update completes_completeCancelled [OF assms(1)]])
    (use assms in \<open>simp_all add: cancel_def\<close>)

lemma completes_finish_or_reschedule:
  assumes "callbacks_ok env" "r < length (heap W)"
  shows "completes r W (snd (finish_or_reschedule env frame r W))"
proof -
  have "completes r W (let (claimed, s) = markFinished (heap W ! r); W1 = update_session r (\<lambda>_. s) W in
      if \<not> claimed then W1 else complete_naturally env r W1)"
    using completes_naturally [OF assms]
    by (cases "hasFinished (heap W ! r)")
      (auto simp: markFinished_def Let_def intro!: completes_keeps keeps_update)
  then show ?thesis
    using completes_cancel_and_complete [OF assms]
    by (auto simp: finish_or_reschedule_def case_prod_unfold Let_def completes_keeps [OF keeps_schedule]
        split: option.splits)
qed

lemma keeps_idle_guard: "keeps W (idle_guard r W)"
  by (auto simp: idle_guard_def Let_def cancel_def intro: keeps_update)

lemma keeps_start_session:
  assumes "callbacks_ok env" shows "keeps W (start_session env r W)"
proof -
  have "keeps W (update_session r (\<lambda>_. (heap W ! r)\<lparr>hasStarted := True\<rparr>) W)" by (rule keeps_update) simp
  then show ?thesis
    using assms by (auto simp: start_session_def invokeOnStart_def Let_def callbacks_ok_def intro: keeps_trans)
qed

lemma completes_play_frame:
  assumes "callbacks_ok env" "r < length (heap W)"
  shows "completes r W (snd (play_frame env frame r W))"
proof -
  obtain dmx W3 where em: "emitDmxFrames env frame r (start_session env r W) = (dmx, W3)" by fastforce
  obtain ae W4 where au: "dispatch_audio env frame r W3 = (ae, W4)" by fastforce
  have k3: "keeps W W3"
    using keeps_trans [OF keeps_start_session [OF assms(1)] keeps_emitDmxFrames [of "start_session env r W" env frame r]] em
    by simp
  have k4: "keeps W W4" using keeps_trans [OF k3 keeps_dispatch_audio [of W3 env frame r]] au by simp
  have r34: "r < length (heap W3)" "r < length (heap W4)"
    using k3 k4 assms(2) by (auto simp: keeps_def fin_mono_def)
  show ?thesis
    using completes_trans [OF k3 completes_cancel_and_complete [OF assms(1) r34(1)] assms(2)]
      completes_trans [OF k4 completes_cancel_and_complete [OF assms(1) r34(2)] assms(2)]
      completes_trans [OF k4 completes_finish_or_reschedule [OF assms(1) r34(2), of frame] assms(2)]
    by (auto simp: play_frame_def em au Let_def split: sum.splits option.splits)
qed

lemma completes_executeImpl:
  assumes "callbacks_ok env" "r < length (heap W)"
  shows "completes r W (snd (executeImpl env frame (Some r) W))"
proof -
  have "r < length (heap (idle_guard r W))"
    using keeps_idle_guard [of W r] assms(2) by (simp add: keeps_def fin_mono_def)
  then show ?thesis
    using completes_trans [OF keeps_idle_guard completes_completeCancelled [OF assms(1)] assms(2)]
      completes_trans [OF keeps_idle_guard completes_play_frame [OF assms(1)] assms(2)]
    by (auto simp: executeImpl_def completes_keeps)
qed

text \<open>
  A run: runner events execute, in any order and for any sessions, between arbitrary other
  steps of the server (cancellations, adoptions, new sessions), which complete nothing.
\<close>

inductive playback_run ::
  "('t, ('t, nat list) runner_world_scheme) runner_env \<Rightarrow> ('t, nat list) runner_world_scheme \<Rightarrow>
   ('t, nat list) runner_world_scheme \<Rightarrow> bool"
  for env
where
  run_refl: "playback_run env W W"
| run_runner: "playback_run env W W' \<Longrightarrow> r < length (heap W') \<Longrightarrow>
    playback_run env W (snd (executeImpl env frame (Some r) W'))"
| run_other: "playback_run env W W' \<Longrightarrow> keeps W' W'' \<Longrightarrow> playback_run env W W''"

lemma count_completes:
  assumes "completes r W W'" "\<And>q. count_list (runner_world.more W) q \<le> (if q < length (heap W) \<and> hasFinished (heap W ! q) then 1 else 0)"
    and "r < length (heap W)"
  shows "count_list (runner_world.more W') q \<le> (if q < length (heap W') \<and> hasFinished (heap W' ! q) then 1 else 0)"
  using assms(1,3) assms(2) [of q]
  by (auto simp: completes_def fin_mono_def split: if_splits)

text \<open>
  C2: completion runs once (issue 85). However many runner events observe a session (the
  canceller's immediate teardown, the runner already scheduled, a natural end, a failure),
  its onFinish callback runs at most once, and never for a session already completed.
\<close>

theorem completion_runs_once:
  assumes "playback_run env W W'" "callbacks_ok env" "runner_world.more W = []"
  shows "count_list (runner_world.more W') q \<le> 1"
proof -
  have "\<forall>q. count_list (runner_world.more W') q \<le> (if q < length (heap W') \<and> hasFinished (heap W' ! q) then 1 else 0)"
    using assms(1,3)
  proof (induction rule: playback_run.induct)
    case (run_runner W W' r frame)
    then show ?case using count_completes [OF completes_executeImpl [OF assms(2)]] by blast
  next
    case (run_other W W' W'')
    then have ih: "count_list (runner_world.more W') q \<le> (if q < length (heap W') \<and> hasFinished (heap W' ! q) then 1 else 0)" for q
      by blast
    show ?case
    proof
      fix q show "count_list (runner_world.more W'') q \<le> (if q < length (heap W'') \<and> hasFinished (heap W'' ! q) then 1 else 0)"
        using ih [of q] run_other.hyps(2) by (auto simp: keeps_def fin_mono_def split: if_splits)
    qed
  qed simp
  then have "count_list (runner_world.more W') q \<le> (if q < length (heap W') \<and> hasFinished (heap W' ! q) then 1 else 0)"
    by blast
  then show ?thesis by (simp split: if_splits)
qed


section \<open>Every frame is played, on time\<close>

text \<open>
  A track is at position \<open>k\<close> of a playback that started at frame \<open>F\<close>: it has emitted its
  first \<open>k\<close> frames (all of them, if it has fewer) and, unless finished, waits for \<open>F + k * step\<close>.
\<close>

definition at_position :: "framenum_t \<Rightarrow> framenum_t \<Rightarrow> nat \<Rightarrow> track_state \<Rightarrow> bool" where
  "at_position F step k t \<longleftrightarrow> length (decodedFrames t) < 2 ^ 32 \<and>
     currentFrameIndex t = word_of_nat (min k (length (decodedFrames t))) \<and>
     (k < length (decodedFrames t) \<longrightarrow> nextDispatchFrame t = F + word_of_nat k * step)"

text \<open>The caches know where the track goes: no database access is needed.\<close>

definition warm :: "('t, 'a) runner_world_scheme \<Rightarrow> universe_t \<Rightarrow> track_state \<Rightarrow> universe_t \<times> u16 \<Rightarrow> bool" where
  "warm W u t tgt \<longleftrightarrow>
     (if isFixtureTrack t then
        (\<exists>fc fm fx v. fixtureCache W = Some fc \<and> fixtureUniverseMap W = Some fm \<and>
           cache_tryGet fc (fixtureId t) = Some fx \<and> cache_tryGet fm (fixtureId t) = Some v \<and>
           tgt = (v, fixture_channel_offset fx))
      else (\<exists>cc c. creatureCache W = Some cc \<and> cache_tryGet cc (creatureId t) = Some c \<and>
           tgt = (u, creature_channel_offset c)))"

lemma warm_resolve:
  "warm W u t tgt \<Longrightarrow> r_db env \<noteq> None \<Longrightarrow> resolve_target env u t W = Inr (Some tgt, W)"
  by (auto simp: warm_def resolve_target_def cache_fetch_def split: if_splits prod.splits)

lemma warm_cong:
  "fixtureCache W' = fixtureCache W \<Longrightarrow> fixtureUniverseMap W' = fixtureUniverseMap W \<Longrightarrow>
   creatureCache W' = creatureCache W \<Longrightarrow> fixtureId t' = fixtureId t \<Longrightarrow> creatureId t' = creatureId t \<Longrightarrow>
   warm W' u t' tgt = warm W u t tgt"
  by (simp add: warm_def isFixtureTrack_def)

definition frame_writes ::
  "(track_state \<Rightarrow> universe_t \<times> u16) \<Rightarrow> framenum_t \<Rightarrow> nat \<Rightarrow> track_state list \<Rightarrow> server_event event list"
where
  "frame_writes tgt frame k ts = map (\<lambda>t. (frame, DmxWrite \<lparr>dmx_universe = fst (tgt t),
     channelOffset = ucast (snd (tgt t)), dmx_data = decodedFrames t ! k\<rparr>))
     (filter (\<lambda>t. k < length (decodedFrames t)) ts)"

lemma at_position_finished:
  assumes "at_position F step k t"
  shows "track_isFinished t \<longleftrightarrow> length (decodedFrames t) \<le> k"
proof -
  have "unat (currentFrameIndex t) = min k (length (decodedFrames t))"
    using assms by (simp add: at_position_def unat_of_nat take_bit_nat_eq_self min_less_iff_disj)
  then show ?thesis by (auto simp: track_isFinished_def)
qed

lemma at_position_index:
  "at_position F step k t \<Longrightarrow> k < length (decodedFrames t) \<Longrightarrow> unat (currentFrameIndex t) = k"
  by (simp add: at_position_def unat_of_nat take_bit_nat_eq_self)

lemma at_position_advance:
  assumes "at_position F (frameStepForMs ms) k t" "k < length (decodedFrames t)"
  shows "at_position F (frameStepForMs ms) (Suc k) (advance_track (F + word_of_nat k * frameStepForMs ms) ms t)"
  using assms by (auto simp: at_position_def advance_track_def algebra_simps)

lemma at_position_stay:
  "at_position F step k t \<Longrightarrow> length (decodedFrames t) \<le> k \<Longrightarrow> at_position F step (Suc k) t"
  by (simp add: at_position_def min_absorb2)

definition play_track :: "framenum_t \<Rightarrow> u32 \<Rightarrow> nat \<Rightarrow> track_state \<Rightarrow> track_state" where
  "play_track frame ms k t = (if k < length (decodedFrames t) then advance_track frame ms t else t)"

lemma play_track_simps [simp]:
  "decodedFrames (play_track frame ms k t) = decodedFrames t"
  "fixtureId (play_track frame ms k t) = fixtureId t" "creatureId (play_track frame ms k t) = creatureId t"
  by (simp_all add: play_track_def advance_track_def)

lemma at_position_play_track:
  "at_position F (frameStepForMs ms) k t \<Longrightarrow> frame = F + word_of_nat k * frameStepForMs ms \<Longrightarrow>
   at_position F (frameStepForMs ms) (Suc k) (play_track frame ms k t)"
  by (simp add: play_track_def at_position_advance at_position_stay)

lemma emit_tracks_at:
  assumes "r_db env \<noteq> None" "frame = F + word_of_nat k * frameStepForMs ms"
    and "\<forall>t \<in> set ts. at_position F (frameStepForMs ms) k t \<and> warm W u t (tgt t)"
  shows "emit_tracks env u ms frame ts W =
    (None, map (play_track frame ms k) ts, W\<lparr>outbox := outbox W @ frame_writes tgt frame k ts\<rparr>)"
  using assms(3)
proof (induction ts arbitrary: W)
  case (Cons t ts)
  have t: "at_position F (frameStepForMs ms) k t" "warm W u t (tgt t)" using Cons.prems by auto
  show ?case
  proof (cases "k < length (decodedFrames t)")
    case False
    then show ?thesis
      using Cons t at_position_finished [OF t(1)]
      by (simp add: frame_writes_def play_track_def)
  next
    case True
    define W1 where "W1 = schedule_event frame (DmxWrite \<lparr>dmx_universe = fst (tgt t),
      channelOffset = ucast (snd (tgt t)), dmx_data = decodedFrames t ! k\<rparr>) W"
    have go: "\<not> track_isFinished t" "\<not> frame < nextDispatchFrame t"
      using at_position_finished [OF t(1)] True t(1) assms(2) by (auto simp: at_position_def)
    have "\<forall>x \<in> set ts. at_position F (frameStepForMs ms) k x \<and> warm W1 u x (tgt x)"
      using Cons.prems warm_cong [of W1 W] by (auto simp: W1_def)
    note ih = Cons.IH [OF this]
    have step: "emit_tracks env u ms frame (t # ts) W = (let (e, ts', W') = emit_tracks env u ms frame ts W1
        in (e, advance_track frame ms t # ts', W'))"
      using go at_position_index [OF t(1) True] warm_resolve [OF t(2) assms(1)]
      by (cases "tgt t") (simp add: W1_def)
    have "frame_writes tgt frame k (t # ts) = (frame, DmxWrite \<lparr>dmx_universe = fst (tgt t),
        channelOffset = ucast (snd (tgt t)), dmx_data = decodedFrames t ! k\<rparr>) # frame_writes tgt frame k ts"
      using True by (simp add: frame_writes_def)
    moreover have "play_track frame ms k t = advance_track frame ms t" using True by (simp add: play_track_def)
    ultimately show ?thesis
      unfolding step ih Let_def prod.case by (simp add: W1_def schedule_event_def)
  qed
qed (simp add: frame_writes_def)


lemma frame_as_nat: "(F :: framenum_t) + word_of_nat k * step = word_of_nat (unat F + k * unat step)"
  by simp

lemma frame_no_wrap:
  assumes "unat (F :: framenum_t) + Suc k * unat step < 2 ^ 64 - 1" "1 \<le> step"
  shows "F + word_of_nat k * step + 1 \<le> F + word_of_nat (Suc k) * step"
    "F + word_of_nat (Suc k) * step \<noteq> framenum_max"
proof -
  have s: "1 \<le> unat step" using assms(2) by (simp add: word_le_nat_alt)
  have u: "unat (word_of_nat n :: framenum_t) = n" if "n < 2 ^ 64" for n
    using that by (simp add: unat_of_nat take_bit_nat_eq_self)
  have a: "F + word_of_nat k * step + 1 = word_of_nat (unat F + k * unat step + 1)"
      "F + word_of_nat (Suc k) * step = word_of_nat (unat F + Suc k * unat step)"
    by (simp_all add: algebra_simps)
  have "unat F + k * unat step + 1 \<le> unat F + Suc k * unat step" using s by simp
  then show "F + word_of_nat k * step + 1 \<le> F + word_of_nat (Suc k) * step"
    unfolding a word_le_nat_alt using assms(1)
    by (subst (1 2) u) linarith+
  have "unat (framenum_max) = 2 ^ 64 - 1" by (simp add: framenum_max_def unsigned_minus_1_eq_mask mask_eq_exp_minus_1)
  moreover have "unat (F + word_of_nat (Suc k) * step) = unat F + Suc k * unat step"
    unfolding a(2) using assms(1) by (intro u) linarith
  ultimately show "F + word_of_nat (Suc k) * step \<noteq> framenum_max" using assms(1) by auto
qed

lemma at_position_next:
  "at_position F step k t \<Longrightarrow> \<not> track_isFinished t \<Longrightarrow> nextDispatchFrame t = F + word_of_nat k * step"
  using at_position_finished [of F step k t] by (auto simp: at_position_def)

lemma next_frame_fold:
  assumes "\<forall>t \<in> set ts. \<not> track_isFinished t \<longrightarrow> nextDispatchFrame t = n"
  shows "foldl (\<lambda>m t. if track_isFinished t then m else min m (nextDispatchFrame t)) a ts =
    (if list_all track_isFinished ts then a else min a n)"
  using assms by (induction ts arbitrary: a) (auto simp: min_def list_all_iff)

definition steady :: "('t, ('t, 'a) runner_world_scheme) runner_env \<Rightarrow> nat \<Rightarrow> ('t, 'a) runner_world_scheme \<Rightarrow> bool" where
  "steady env r W \<longleftrightarrow> eventLoop W \<noteq> None \<and> creatureCache W \<noteq> None \<and> r_db env \<noteq> None \<and> r < length (heap W) \<and>
     \<not> cancelled (heap W ! r) \<and> hasStarted (heap W ! r) \<and> audioTransport (heap W ! r) = None \<and>
     (activityReason (heap W ! r) = ReasonIdle \<longrightarrow> length (creatureIds (heap W ! r)) = 1)"

lemma one_le_frameStep: "1 \<le> frameStepForMs ms"
  by (simp add: frameStepForMs_def)

lemma executeImpl_plays:
  fixes W :: "('t, 'a) runner_world_scheme"
  assumes "steady env r W" and s: "s = heap W ! r" and step: "step = frameStepForMs (getMsPerFrame s)"
    and pos: "\<forall>t \<in> set (trackStates s). at_position F step k t \<and> warm W (s_universe s) t (tgt t)"
    and more: "\<exists>t \<in> set (trackStates s). Suc k < length (decodedFrames t)"
    and wrap: "unat F + Suc k * unat step < 2 ^ 64 - 1" and frame: "frame = F + word_of_nat k * step"
  shows "executeImpl env frame (Some r) W = (Inr frame, W\<lparr>
      heap := (heap W)[r := s\<lparr>trackStates := map (play_track frame (getMsPerFrame s) k) (trackStates s)\<rparr>],
      outbox := outbox W @ frame_writes tgt frame k (trackStates s) @ [(F + word_of_nat (Suc k) * step, RunnerEvent r)]\<rparr>)"
proof -
  let ?ms = "getMsPerFrame s" and ?ts = "map (play_track frame (getMsPerFrame s) k) (trackStates s)"
  have st: "eventLoop W \<noteq> None" "creatureCache W \<noteq> None" "r_db env \<noteq> None" "r < length (heap W)" "\<not> cancelled s"
      "hasStarted s" "audioTransport s = None" "activityReason s = ReasonIdle \<longrightarrow> length (creatureIds s) = 1"
    using assms(1) unfolding steady_def s by auto
  have g: "idle_guard r W = W" using st(5,8) by (auto simp: idle_guard_def Let_def s)
  have hs: "s\<lparr>hasStarted := True\<rparr> = s" using st(6) by (cases s) simp
  have ss: "start_session env r W = W"
    unfolding start_session_def invokeOnStart_def Let_def s [symmetric] prod.case hs
    using st(6) by (simp add: update_session_def) (simp add: s)
  have em: "emit_tracks env (s_universe s) ?ms frame (trackStates s) W =
      (None, ?ts, W\<lparr>outbox := outbox W @ frame_writes tgt frame k (trackStates s)\<rparr>)"
    using st(3) frame pos unfolding step by (intro emit_tracks_at) auto
  define W3 where "W3 = update_session r (\<lambda>s. s\<lparr>trackStates := ?ts\<rparr>)
      (W\<lparr>outbox := outbox W @ frame_writes tgt frame k (trackStates s)\<rparr>)"
  have e: "emitDmxFrames env frame r W = (Inr frame, W3)"
    using st by (simp add: emitDmxFrames_def s [symmetric] em Let_def W3_def del: not_None_eq)
  have s3: "heap W3 ! r = s\<lparr>trackStates := ?ts\<rparr>" using st(4) by (simp add: W3_def s)
  have d: "dispatch_audio env frame r W3 = (None, W3)" using st(7) by (simp add: dispatch_audio_def s3)
  have pos': "\<forall>t \<in> set ?ts. at_position F step (Suc k) t"
    using pos frame at_position_play_track unfolding step by auto
  then have nd: "\<forall>t \<in> set ?ts. \<not> track_isFinished t \<longrightarrow> nextDispatchFrame t = F + word_of_nat (Suc k) * step"
    using at_position_next by blast
  obtain t where t: "t \<in> set (trackStates s)" "Suc k < length (decodedFrames t)" using more by blast
  then have "play_track frame ?ms k t \<in> set ?ts" by simp
  then have "\<not> track_isFinished (play_track frame ?ms k t)" "play_track frame ?ms k t \<in> set ?ts"
    using pos' t(2) at_position_finished [of F step "Suc k" "play_track frame ?ms k t"] by auto
  then have un: "\<not> list_all track_isFinished ?ts" unfolding list_all_iff by blast
  have nw: "frame + 1 \<le> F + word_of_nat (Suc k) * step" "F + word_of_nat (Suc k) * step \<noteq> framenum_max"
    using frame_no_wrap [OF wrap] one_le_frameStep [of ?ms] unfolding frame step by auto
  have calc: "calculateNextFrameNumber (r_ops env) frame (s\<lparr>trackStates := ?ts\<rparr>) = F + word_of_nat (Suc k) * step"
    using next_frame_fold [OF nd, of framenum_max] un nw st(7)
    by (simp add: calculateNextFrameNumber_def max_absorb2 min_absorb2 del: of_nat_Suc set_map foldl_map)
  have "\<not> areAllTracksFinished (r_ops env) (s\<lparr>trackStates := ?ts\<rparr>)"
    using un by (auto simp: areAllTracksFinished_def)
  then have "finish_or_reschedule env frame r W3 =
      (Inr frame, schedule_event (F + word_of_nat (Suc k) * step) (RunnerEvent r) W3)"
    by (simp add: finish_or_reschedule_def s3 calc)
  then show ?thesis
    using st(1,5) by (simp add: executeImpl_def g s [symmetric] play_frame_def ss e d Let_def
        del: not_None_eq) (simp add: W3_def schedule_event_def update_session_def s)
qed


definition play_n ::
  "('t, ('t, 'a) runner_world_scheme) runner_env \<Rightarrow> nat \<Rightarrow> framenum_t \<Rightarrow> framenum_t \<Rightarrow> nat \<Rightarrow> ('t, 'a) runner_world_scheme \<Rightarrow> ('t, 'a) runner_world_scheme"
where
  "play_n env r F step n W = fold (\<lambda>k W. snd (executeImpl env (F + word_of_nat k * step) (Some r) W)) [0..<n] W"



section \<open>A failing runner unwinds its session\<close>

lemma fin_mono_keeps_finished:
  "fin_mono W W' \<Longrightarrow> r < length (heap W) \<Longrightarrow> hasFinished (heap W ! r) \<Longrightarrow> hasFinished (heap W' ! r)"
  by (simp add: fin_mono_def)

lemma completeCancelled_finishes:
  assumes "callbacks_ok env" "r < length (heap W)"
  shows "hasFinished (heap (completeCancelledSession env r W) ! r)"
proof (cases "hasFinished (heap W ! r)")
  case True
  then show ?thesis using assms(2) by (simp add: completeCancelledSession_def markFinished_def Let_def)
next
  case False
  define W1 where "W1 = update_session r (\<lambda>_. (heap W ! r)\<lparr>hasFinished := True\<rparr>) W"
  define W3 where "W3 = r_on_finish env r (performTeardown env r W1)"
  define W4 where "W4 = (if \<not> cancellationNotified (heap W3 ! r)
      then W3\<lparr>services := snd (setActivityState (r_service_env env) (creatureIds (heap W3 ! r))
             \<lparr>w_animation = anim_id (s_animation (heap W3 ! r)), w_reason = Cancelled, w_state = Stopped,
              w_session = sessionId (heap W3 ! r), w_generation = activityGeneration (heap W3 ! r)\<rparr> (services W3))\<rparr>
      else W3)"
  have "completeCancelledSession env r W = fold (\<lambda>c W. if \<not> hasActiveSessionForCreature W (s_universe (heap W3 ! r)) c
      then r_start_idle env c W else W) (creatureIds (heap W3 ! r)) W4"
    using False by (simp add: completeCancelledSession_def markFinished_def Let_def W1_def W3_def W4_def)
  moreover have "keeps W4 (fold (\<lambda>c W. if \<not> hasActiveSessionForCreature W (s_universe (heap W3 ! r)) c
      then r_start_idle env c W else W) (creatureIds (heap W3 ! r)) W4)"
    by (rule keeps_fold) (use assms(1) in \<open>simp add: callbacks_ok_def\<close>)
  moreover have "keeps W3 W4" by (simp add: W4_def keeps_services)
  moreover have "fin_mono (performTeardown env r W1) W3" using assms(1) by (simp add: W3_def callbacks_ok_def)
  moreover have "keeps W1 (performTeardown env r W1)" by (rule keeps_performTeardown)
  ultimately have "fin_mono W1 (completeCancelledSession env r W)"
    by (metis fin_mono_trans keeps_def)
  then show ?thesis by (rule fin_mono_keeps_finished) (use assms(2) in \<open>simp_all add: W1_def\<close>)
qed

text \<open>
  C34: a runner that fails never leaves its session running (issues 79 and 97). Whenever the
  runner returns an error for a session while the event loop exists (frames that cannot be
  emitted, audio that failed terminally), the session has been completed.
\<close>

theorem runner_error_completes_session:
  assumes "callbacks_ok env" "r < length (heap W)" "eventLoop W \<noteq> None"
    and "executeImpl env frame (Some r) W = (Inl e, W')"
  shows "hasFinished (heap W' ! r)"
proof -
  let ?W0 = "idle_guard r W"
  have "keeps W ?W0" by (rule keeps_idle_guard)
  moreover have k1: "keeps ?W0 (start_session env r ?W0)" using assms(1) by (rule keeps_start_session)
  moreover obtain dmx W3 where em: "emitDmxFrames env frame r (start_session env r ?W0) = (dmx, W3)" by fastforce
  moreover have "keeps (start_session env r ?W0) W3"
    using keeps_emitDmxFrames [of "start_session env r ?W0" env frame r] em by simp
  moreover obtain ae W4 where au: "dispatch_audio env frame r W3 = (ae, W4)" by fastforce
  moreover have "keeps W3 W4" using keeps_dispatch_audio [of W3 env frame r] au by simp
  ultimately have len: "r < length (heap W3)" "r < length (heap W4)"
    using assms(2) by (auto simp: keeps_def fin_mono_def)
  have cc: "hasFinished (heap (cancel_and_complete env r V) ! r)" if "r < length (heap V)" for V
    unfolding cancel_and_complete_def using that by (intro completeCancelled_finishes [OF assms(1)]) simp
  show ?thesis
    using assms(3,4) em au cc [OF len(1)] cc [OF len(2)]
    by (auto simp: executeImpl_def play_frame_def Let_def finish_or_reschedule_def internal_error_def
        markFinished_def split: if_splits sum.splits option.splits)
qed


section \<open>Frames go where the database says\<close>

definition caches_coherent ::
  "('t, ('t, 'a) runner_world_scheme) runner_env \<Rightarrow> ('t, 'a) runner_world_scheme \<Rightarrow> bool"
where
  "caches_coherent env W \<longleftrightarrow> (\<forall>db_creature db_fixture. r_db env = Some (db_creature, db_fixture) \<longrightarrow>
     (\<forall>cc. creatureCache W = Some cc \<longrightarrow> object_cache.coherent db_creature cc) \<and>
     (\<forall>fc. fixtureCache W = Some fc \<longrightarrow> object_cache.coherent db_fixture fc))"

text \<open>
  cache coherence. As long as the creature and fixture caches hold only what the database
  would return, resolving a track keeps them so, and yields the channel offset the database
  records: on the session's universe for a creature, on the fixture's own assigned universe
  for a fixture.
\<close>

theorem resolved_target_matches_database:
  assumes "caches_coherent env W" "r_db env = Some (db_creature, db_fixture)"
    and "resolve_target env u t W = Inr (tgt, W')"
  shows "caches_coherent env W' \<and>
    (if isFixtureTrack t
     then \<exists>fx fm. db_fixture (fixtureId t) = Inr fx \<and> fixtureUniverseMap W = Some fm \<and>
        tgt = map_option (\<lambda>v. (v, fixture_channel_offset fx)) (cache_tryGet fm (fixtureId t))
     else \<exists>c. db_creature (creatureId t) = Inr c \<and> tgt = Some (u, creature_channel_offset c))"
proof (cases "isFixtureTrack t")
  case True
  then obtain fc fm fx fc' where f: "fixtureCache W = Some fc" "fixtureUniverseMap W = Some fm"
      "cache_fetch db_fixture fc (fixtureId t) = Inr (fx, fc')" "W' = W\<lparr>fixtureCache := Some fc'\<rparr>"
      "tgt = map_option (\<lambda>v. (v, fixture_channel_offset fx)) (cache_tryGet fm (fixtureId t))"
    using assms(2,3) by (auto simp: resolve_target_def internal_error_def split: option.splits sum.splits)
  moreover have "object_cache.coherent db_fixture fc" using assms(1,2) f(1) by (simp add: caches_coherent_def)
  ultimately show ?thesis
    using True assms(1,2) cache_fetch_laws(1,2) [of db_fixture fc "fixtureId t" fx fc']
    by (auto simp: caches_coherent_def)
next
  case False
  then obtain cc c cc' where f: "creatureCache W = Some cc"
      "cache_fetch db_creature cc (creatureId t) = Inr (c, cc')" "W' = W\<lparr>creatureCache := Some cc'\<rparr>"
      "tgt = Some (u, creature_channel_offset c)"
    using assms(2,3) by (auto simp: resolve_target_def internal_error_def split: option.splits sum.splits)
  moreover have "object_cache.coherent db_creature cc" using assms(1,2) f(1) by (simp add: caches_coherent_def)
  ultimately show ?thesis
    using False assms(1,2) cache_fetch_laws(1,2) [of db_creature cc "creatureId t" c cc']
    by (auto simp: caches_coherent_def)
qed

section \<open>Concrete playbacks\<close>

definition demo_runner_env :: "(unit, (unit, nat list) runner_world_scheme) runner_env" where
  "demo_runner_env = \<lparr>r_service_env = demo_env,
     r_ops = \<lparr>needsPerFrameDispatch = (\<lambda>_. False), dispatchNextChunk = (\<lambda>f t. (Inr f, t)),
       hasTerminalFailure = (\<lambda>_. False), transport_isFinished = (\<lambda>_. True),
       getNextDispatchFrame = (\<lambda>_. None), transport_stop = (\<lambda>t. t)\<rparr>,
     r_on_start = (\<lambda>r W. W), r_on_finish = (\<lambda>r W. W\<lparr>runner_world.more := runner_world.more W @ [r]\<rparr>),
     r_start_idle = (\<lambda>c W. W),
     r_db = Some (\<lambda>c. Inr \<lparr>creature_name = c, creature_channel_offset = 5, idle_animation_ids = []\<rparr>,
                  \<lambda>f. Inl (ServerError NotFound ''no fixture''))\<rparr>"

definition demo_playing :: "(unit, nat list) runner_world_scheme" where
  "demo_playing = \<lparr>heap = [(new_session (\<lambda>f. Some [1, 2]) ''s'' (demo_animation [''x'', ''y'', ''z'']) 3 100)
       \<lparr>hasStarted := True\<rparr>],
     universeStates = [], nextActivityGeneration = 2, services = new_service, eventLoop = Some 100, outbox = [],
     creatureCache = Some [(''beaky'', Some \<lparr>creature_name = ''Beaky'', creature_channel_offset = 5, idle_animation_ids = []\<rparr>)],
     fixtureCache = None, fixtureUniverseMap = None, \<dots> = []\<rparr>"

lemma demo_callbacks_ok: "callbacks_ok demo_runner_env"
  by (simp add: callbacks_ok_def demo_runner_env_def fin_mono_def)

theorem completion_runs_once_witness:
  "count_list (runner_world.more (snd (executeImpl demo_runner_env 102 (Some 0)
     (snd (executeImpl demo_runner_env 101 (Some 0) (update_session 0 cancel demo_playing)))))) 0 \<le> 1"
proof (rule completion_runs_once [OF _ demo_callbacks_ok])
  let ?W = "update_session 0 cancel demo_playing"
  have l: "0 < length (heap ?W)" "0 < length (heap (snd (executeImpl demo_runner_env 101 (Some 0) ?W)))"
    by code_simp+
  show "playback_run demo_runner_env ?W (snd (executeImpl demo_runner_env 102 (Some 0)
     (snd (executeImpl demo_runner_env 101 (Some 0) ?W))))"
    using run_runner [OF run_runner [OF run_refl l(1)] l(2)] .
  show "runner_world.more ?W = []" by (simp add: demo_playing_def)
qed


theorem runner_error_completes_session_witness:
  "hasFinished (heap (snd (executeImpl demo_runner_env 100 (Some 0) (demo_playing\<lparr>creatureCache := None\<rparr>))) ! 0)"
proof -
  let ?W = "demo_playing\<lparr>creatureCache := None\<rparr>"
  have "\<not> isSuccess (fst (executeImpl demo_runner_env 100 (Some 0) ?W))" by code_simp
  then obtain e where "executeImpl demo_runner_env 100 (Some 0) ?W =
      (Inl e, snd (executeImpl demo_runner_env 100 (Some 0) ?W))"
    by (cases "executeImpl demo_runner_env 100 (Some 0) ?W"; cases "fst (executeImpl demo_runner_env 100 (Some 0) ?W)") auto
  then show ?thesis
    by (rule runner_error_completes_session [OF demo_callbacks_ok, rotated 2])
      (simp_all add: demo_playing_def)
qed


theorem resolved_target_matches_database_witness:
  "caches_coherent demo_runner_env (demo_playing\<lparr>creatureCache := Some (cache_put ''beaky''
     \<lparr>creature_name = ''beaky'', creature_channel_offset = 5, idle_animation_ids = []\<rparr> [])\<rparr>)"
proof -
  let ?W = "demo_playing\<lparr>creatureCache := Some []\<rparr>"
  let ?t = "\<lparr>creatureId = ''beaky'', fixtureId = [], decodedFrames = [[1]], currentFrameIndex = 0,
    nextDispatchFrame = 0\<rparr>"
  have "caches_coherent demo_runner_env ?W"
    by (simp add: caches_coherent_def object_cache.coherent_def cache_tryGet_def demo_playing_def)
  moreover have "resolve_target demo_runner_env 3 ?t ?W = Inr (Some (3, 5), ?W\<lparr>creatureCache :=
      Some (cache_put ''beaky'' \<lparr>creature_name = ''beaky'', creature_channel_offset = 5, idle_animation_ids = []\<rparr> [])\<rparr>)"
    by (simp add: resolve_target_def isFixtureTrack_def demo_runner_env_def demo_playing_def cache_fetch_def
        cache_tryGet_def)
  moreover have "r_db demo_runner_env = Some (\<lambda>c. Inr \<lparr>creature_name = c, creature_channel_offset = 5, idle_animation_ids = []\<rparr>,
                  \<lambda>f. Inl (ServerError NotFound ''no fixture''))"
    by (simp add: demo_runner_env_def)
  ultimately show ?thesis using resolved_target_matches_database by fastforce
qed

end
