(* ===== verification/Fixture_Dispatch.thy ===== *)
theory Fixture_Dispatch
  imports Fixture_Lifecycle Playback_Runner
begin

text \<open>
  What drives the fixture runner: the tick event (src/src/server/fixture/FixturePatternTickEvent.cpp),
  the dispatcher that turns creature activity into patterns (FixtureBindingDispatcher.h and .cpp),
  and the triggering handlers of src/src/server/ws/service/DmxFixtureService.cpp. They share the
  server's globals: the world of Playback_Runner with the runner and the dispatcher's memory.
\<close>

section \<open>State\<close>

record 't fixture_world = "'t runner_world" +
  fixturePatternRunner :: "fixture_runner option"
  lastSeen :: "(creatureId_t \<times> activity_reason \<times> activity_state) list"

definition with_runner :: "fixture_runner \<Rightarrow> ('t, 'a) fixture_world_scheme \<Rightarrow> ('t, 'a) fixture_world_scheme" where
  "with_runner R W = W\<lparr>fixturePatternRunner := Some R\<rparr>"

section \<open>The tick event\<close>

definition tick_executeImpl ::
  "framenum_t \<Rightarrow> ('t, 'a) fixture_world_scheme \<Rightarrow> framenum_t result \<times> ('t, 'a) fixture_world_scheme"
where
  "tick_executeImpl frame W = (case fixturePatternRunner W of
     None \<Rightarrow> (Inr frame, W)
   | Some R \<Rightarrow>
      (let ((stillActive, events), R1) = runner_tick (eventLoop W \<noteq> None) frame (disarm R);
           W1 = with_runner R1 (W\<lparr>outbox := outbox W @ events\<rparr>)
       in if stillActive \<and> eventLoop W \<noteq> None then
            (case tryArm R1 of
               (True, R2) \<Rightarrow> (Inr frame,
                 schedule_event (frame + FIXTURE_PATTERN_TICK_INTERVAL_FRAMES) FixtureTick (with_runner R2 W1))
             | (False, _) \<Rightarrow> (Inr frame, W1))
          else (Inr frame, W1)))"

definition armTickIfNeeded :: "('t, 'a) fixture_world_scheme \<Rightarrow> ('t, 'a) fixture_world_scheme" where
  "armTickIfNeeded W = (case (fixturePatternRunner W, eventLoop W) of
     (Some R, Some cur) \<Rightarrow> (case tryArm R of
         (False, _) \<Rightarrow> W
       | (True, R') \<Rightarrow> schedule_event (cur + 1) FixtureTick (with_runner R' W))
   | _ \<Rightarrow> W)"

section \<open>The dispatcher\<close>

definition matches ::
  "string option \<Rightarrow> string option \<Rightarrow> activity_reason \<Rightarrow> activity_state \<Rightarrow> bool"
where
  "matches filterReason filterState r s =
     (if filterReason \<noteq> None \<and> filterReason \<noteq> Some (reason_toString r) then False
      else if filterState \<noteq> None \<and> filterState \<noteq> Some (state_toString s) then False
      else True)"

text \<open>One binding: what it does to the runner and to the \<open>startedAny\<close> flag.\<close>

definition dispatch_binding ::
  "(fixtureId_t, universe_t) object_cache option \<Rightarrow> fixtureId_t \<Rightarrow> dmx_fixture \<Rightarrow> creatureId_t \<Rightarrow>
   (activity_reason \<times> activity_state) option \<Rightarrow> activity_reason \<Rightarrow> activity_state \<Rightarrow> framenum_t \<Rightarrow> span_ids \<Rightarrow>
   fixture_binding \<Rightarrow> bool \<times> fixture_runner \<Rightarrow> bool \<times> fixture_runner"
where
  "dispatch_binding umap fid fx c prev r s cur sp b acc = (case acc of (started, R) \<Rightarrow>
     if bind_creature_id b \<noteq> c then acc
     else
      (let nowMatches = matches (on_reason b) (on_state b) r s;
           prevMatched = (case prev of None \<Rightarrow> False
                          | Some (pr, ps) \<Rightarrow> matches (on_reason b) (on_state b) pr ps)
       in if nowMatches \<and> \<not> prevMatched then
            (case findPatternById fx (bind_pattern_id b) of
               None \<Rightarrow> acc
             | Some p \<Rightarrow> (case Option.bind umap (\<lambda>m. cache_tryGet m fid) of
                  None \<Rightarrow> acc
                | Some u \<Rightarrow> (case start_pattern fx p u c cur sp R of
                     (ok, R') \<Rightarrow> (started \<or> ok, R'))))
          else if \<not> nowMatches \<and> prevMatched then (True, stop_pattern fid cur R)
          else acc))"

definition dispatch_fixture ::
  "(fixtureId_t, dmx_fixture) object_cache \<Rightarrow> (fixtureId_t, universe_t) object_cache option \<Rightarrow> creatureId_t \<Rightarrow>
   (activity_reason \<times> activity_state) option \<Rightarrow> activity_reason \<Rightarrow> activity_state \<Rightarrow> framenum_t \<Rightarrow> span_ids \<Rightarrow>
   fixtureId_t \<Rightarrow> bool \<times> fixture_runner \<Rightarrow> bool \<times> fixture_runner"
where
  "dispatch_fixture fc umap c prev r s cur sp fid acc = (case cache_get fc fid of
     Out_of_range \<Rightarrow> acc
   | Got None \<Rightarrow> acc
   | Got (Some fx) \<Rightarrow> fold (dispatch_binding umap fid fx c prev r s cur sp) (bindings fx) acc)"

definition onCreatureActivity ::
  "creatureId_t \<Rightarrow> activity_reason \<Rightarrow> activity_state \<Rightarrow> span_ids \<Rightarrow>
   ('t, 'a) fixture_world_scheme \<Rightarrow> ('t, 'a) fixture_world_scheme"
where
  "onCreatureActivity c r s sp W = (case (fixtureCache W, fixturePatternRunner W) of
     (Some fc, Some R) \<Rightarrow>
       if c = [] then W
       else (let prev = map_of (lastSeen W) c in
         if prev = Some (r, s) then W
         else (let W1 = W\<lparr>lastSeen := AList.update c (r, s) (lastSeen W)\<rparr> in
           if cache_getAllKeys fc = [] then W1
           else (let cur = (case eventLoop W of None \<Rightarrow> 0 | Some k \<Rightarrow> k + 1);
                     (started, R') = fold (dispatch_fixture fc (fixtureUniverseMap W) c prev r s cur sp)
                        (cache_getAllKeys fc) (False, R);
                     W2 = with_runner R' W1
                 in if started then armTickIfNeeded W2 else W2)))
   | _ \<Rightarrow> W)"

section \<open>The triggering handlers\<close>

text \<open>
  A handler either fails with an HTTP status, or (a null fixture stored in the cache) by
  dereferencing null. \<open>db\<close> is the database lookup the cache miss falls back to.
\<close>

datatype handler_failure = Http int string | Null_dereference

type_synonym 'w handler_result = "(handler_failure + dmx_fixture_dto) \<times> 'w"

text \<open>\<open>AutoStopEvent\<close>: the runner pointer it holds is the one captured when it was made.\<close>

definition autoStop_executeImpl ::
  "fixtureId_t \<Rightarrow> framenum_t \<Rightarrow> ('t, 'a) fixture_world_scheme \<Rightarrow> framenum_t result \<times> ('t, 'a) fixture_world_scheme"
where
  "autoStop_executeImpl fid frame W = (Inr frame, (case fixturePatternRunner W of
     None \<Rightarrow> W
   | Some R \<Rightarrow> with_runner (stop_pattern fid frame R) W))"

definition require_fixture_services ::
  "('t, 'a) fixture_world_scheme \<Rightarrow>
   handler_failure + (fixture_runner \<times> (fixtureId_t, dmx_fixture) object_cache \<times> (fixtureId_t, universe_t) object_cache)"
where
  "require_fixture_services W = (case fixturePatternRunner W of
     None \<Rightarrow> Inl (Http 500 ''Fixture pattern runner unavailable'')
   | Some R \<Rightarrow> (case fixtureCache W of
        None \<Rightarrow> Inl (Http 500 ''Fixture cache unavailable'')
      | Some fc \<Rightarrow> (case fixtureUniverseMap W of
           None \<Rightarrow> Inl (Http 500 ''Fixture universe map unavailable'')
         | Some um \<Rightarrow> Inr (R, fc, um))))"

definition resolve_fixture ::
  "(fixtureId_t \<Rightarrow> dmx_fixture result) \<Rightarrow> fixtureId_t \<Rightarrow> (fixtureId_t, dmx_fixture) object_cache \<Rightarrow>
   handler_failure + (dmx_fixture \<times> (fixtureId_t, dmx_fixture) object_cache)"
where
  "resolve_fixture db fid fc = (case cache_get fc fid of
     Got (Some fx) \<Rightarrow> Inr (fx, fc)
   | Got None \<Rightarrow> Inl Null_dereference
   | Out_of_range \<Rightarrow> (case db fid of
        Inl e \<Rightarrow> Inl (Http 404 (getMessage e))
      | Inr fx \<Rightarrow> Inr (fx, cache_put_ptr fid (Some fx) fc)))"

text \<open>
  The end of all three handlers: arm a tick for \<open>currentFrame\<close> when none is pending (the flag
  is taken first, whether or not there is an event loop), then schedule the auto-stop.
\<close>

definition arm_and_schedule ::
  "framenum_t \<Rightarrow> fixtureId_t \<Rightarrow> u32 option \<Rightarrow> fixture_runner \<Rightarrow>
   ('t, 'a) fixture_world_scheme \<Rightarrow> ('t, 'a) fixture_world_scheme"
where
  "arm_and_schedule cur fid stopAfter R W =
     (let (armed, R') = tryArm R;
          W1 = with_runner R' W;
          W2 = (if armed \<and> eventLoop W \<noteq> None then schedule_event cur FixtureTick W1 else W1)
      in (case stopAfter of
            None \<Rightarrow> W2
          | Some ms \<Rightarrow> if eventLoop W \<noteq> None then schedule_event (cur + ucast ms) (AutoStop fid) W2 else W2))"

definition next_frame_or_0 :: "('t, 'a) fixture_world_scheme \<Rightarrow> framenum_t" where
  "next_frame_or_0 W = (case eventLoop W of None \<Rightarrow> 0 | Some k \<Rightarrow> k + 1)"

definition triggerPattern ::
  "(fixtureId_t \<Rightarrow> dmx_fixture result) \<Rightarrow> span_ids \<Rightarrow> fixtureId_t \<Rightarrow> string \<Rightarrow> u32 option \<Rightarrow>
   ('t, 'a) fixture_world_scheme \<Rightarrow> ('t, 'a) fixture_world_scheme handler_result"
where
  "triggerPattern db sp fid pid stopAfter W =
     (if fid = [] then (Inl (Http 400 ''fixtureId is required''), W)
      else if pid = [] then (Inl (Http 400 ''patternId is required''), W)
      else (case require_fixture_services W of Inl e \<Rightarrow> (Inl e, W) | Inr (R, fc, um) \<Rightarrow>
        (case resolve_fixture db fid fc of Inl e \<Rightarrow> (Inl e, W) | Inr (fx, fc') \<Rightarrow>
          (let W1 = W\<lparr>fixtureCache := Some fc'\<rparr> in
           case findPatternById fx pid of
             None \<Rightarrow> (Inl (Http 404 (''Fixture '' @ fid @ '' has no pattern with id '' @ [CHR 0x27] @ pid @ [CHR 0x27])), W1)
           | Some p \<Rightarrow> (case cache_tryGet um fid of
               None \<Rightarrow> (Inl (Http 400 (''Fixture '' @ fid @ '' has no assigned_universe; assign one before triggering'')), W1)
             | Some u \<Rightarrow>
                (let cur = next_frame_or_0 W in
                 case start_pattern fx p u [] cur sp R of
                   (False, _) \<Rightarrow> (Inl (Http 500 (''Failed to start pattern '' @ pid @ '' on fixture '' @ fid)), W1)
                 | (True, R') \<Rightarrow> (Inr (convertToDto fx), arm_and_schedule cur fid stopAfter R' W1)))))))"

definition preview_pattern :: "fixtureId_t \<Rightarrow> (string \<times> u8) list \<Rightarrow> u32 \<Rightarrow> u32 \<Rightarrow> u32 \<Rightarrow> fixture_pattern" where
  "preview_pattern fid vs fadeIn fadeOut hold = \<lparr>pat_id = ''preview:'' @ fid, pat_name = ''preview'',
     pat_values = map (\<lambda>(ch, v). \<lparr>pv_channel = ch, pv_value = v\<rparr>) vs,
     fade_in_ms = fadeIn, fade_out_ms = fadeOut, hold_ms = hold\<rparr>"

definition previewPattern ::
  "(fixtureId_t \<Rightarrow> dmx_fixture result) \<Rightarrow> span_ids \<Rightarrow> fixtureId_t \<Rightarrow> (string \<times> u8) list \<Rightarrow> u32 \<Rightarrow> u32 \<Rightarrow> u32 \<Rightarrow> u32 option \<Rightarrow>
   ('t, 'a) fixture_world_scheme \<Rightarrow> ('t, 'a) fixture_world_scheme handler_result"
where
  "previewPattern db sp fid vs fadeIn fadeOut hold stopAfter W =
     (if fid = [] then (Inl (Http 400 ''fixtureId is required''), W)
      else if vs = [] then (Inl (Http 400 ''values must contain at least one channel''), W)
      else (case require_fixture_services W of Inl e \<Rightarrow> (Inl e, W) | Inr (R, fc, um) \<Rightarrow>
        (case resolve_fixture db fid fc of Inl e \<Rightarrow> (Inl e, W) | Inr (fx, fc') \<Rightarrow>
          (let W1 = W\<lparr>fixtureCache := Some fc'\<rparr> in
           case find (\<lambda>v. findChannelByName fx (fst v) = None) vs of
             Some v \<Rightarrow> (Inl (Http 400 (''Fixture '' @ fid @ '' has no channel named '' @ [CHR 0x27] @ fst v @ [CHR 0x27])), W1)
           | None \<Rightarrow> (case cache_tryGet um fid of
               None \<Rightarrow> (Inl (Http 400 (''Fixture '' @ fid @ '' has no assigned_universe; assign one before previewing'')), W1)
             | Some u \<Rightarrow>
                (let cur = next_frame_or_0 W in
                 case start_pattern fx (preview_pattern fid vs fadeIn fadeOut hold) u [] cur sp R of
                   (False, _) \<Rightarrow> (Inl (Http 400 (''Failed to start preview pattern on fixture '' @ fid)), W1)
                 | (True, R') \<Rightarrow> (Inr (convertToDto fx), arm_and_schedule cur fid stopAfter R' W1)))))))"

definition MAX_LIVE_TIMEOUT_MS :: u32 where
  "MAX_LIVE_TIMEOUT_MS = 600000"

definition setFixtureLive ::
  "(fixtureId_t \<Rightarrow> dmx_fixture result) \<Rightarrow> span_ids \<Rightarrow> fixtureId_t \<Rightarrow> (string \<times> u8) list \<Rightarrow> u32 \<Rightarrow>
   ('t, 'a) fixture_world_scheme \<Rightarrow> ('t, 'a) fixture_world_scheme handler_result"
where
  "setFixtureLive db sp fid cvs timeoutMs W =
     (if fid = [] then (Inl (Http 400 ''fixtureId is required''), W)
      else if cvs = [] then (Inl (Http 400 ''values must contain at least one channel''), W)
      else if timeoutMs = 0 then (Inl (Http 400 ''timeout_ms is required and must be > 0''), W)
      else if MAX_LIVE_TIMEOUT_MS < timeoutMs then (Inl (Http 400 ''timeout_ms exceeds maximum of 600000ms''), W)
      else (case require_fixture_services W of Inl e \<Rightarrow> (Inl e, W) | Inr (R, fc, um) \<Rightarrow>
        (case resolve_fixture db fid fc of Inl e \<Rightarrow> (Inl e, W) | Inr (fx, fc') \<Rightarrow>
          (let W1 = W\<lparr>fixtureCache := Some fc'\<rparr> in
           case cache_tryGet um fid of
             None \<Rightarrow> (Inl (Http 400 (''Fixture '' @ fid @ '' has no assigned_universe; assign one before live control'')), W1)
           | Some u \<Rightarrow>
              (let cur = next_frame_or_0 W in
               case setLive fx cvs timeoutMs u cur sp R of
                 (False, _) \<Rightarrow> (Inl (Http 400 (''Failed to apply live control to fixture '' @ fid @ '' (see server logs)'')), W1)
               | (True, R') \<Rightarrow> (Inr (convertToDto fx), arm_and_schedule cur fid None R' W1))))))"

section \<open>No tick is lost, and none is doubled\<close>

text \<open>
  The arming protocol with every thread interleaved. A thread that has started a pattern,
  stopped one or applied live control still has to arm (\<open>callers\<close>); a thread whose \<open>tryArm\<close>
  succeeded still has to call \<open>scheduleEvent\<close> (\<open>arming\<close>); \<open>pending\<close> counts the tick events in
  the queue. The event loop runs one tick at a time, in the steps of \<open>tick_executeImpl\<close>.
\<close>

datatype ticker = Waiting | Popped | Disarmed | Ticked bool

record tick_state =
  ts_runner :: fixture_runner
  callers :: nat
  arming :: nat
  pending :: nat
  ts_ticker :: ticker

inductive tick_step :: "tick_state \<Rightarrow> tick_state \<Rightarrow> bool" where
  caller_start: "tick_step T (T\<lparr>ts_runner := start_install f p u c cur sp (ts_runner T), callers := callers T + 1\<rparr>)"
| caller_stop: "tick_step T (T\<lparr>ts_runner := stop_pattern fid cur (ts_runner T), callers := callers T + 1\<rparr>)"
| auto_stop: "tick_step T (T\<lparr>ts_runner := stop_pattern fid cur (ts_runner T)\<rparr>)"
| caller_live: "setLive f cvs t u cur sp (ts_runner T) = (True, R) \<Longrightarrow>
    tick_step T (T\<lparr>ts_runner := R, callers := callers T + 1\<rparr>)"
| arm_refused: "0 < callers T \<Longrightarrow> tryArm (ts_runner T) = (False, R) \<Longrightarrow>
    tick_step T (T\<lparr>callers := callers T - 1\<rparr>)"
| arm_taken: "0 < callers T \<Longrightarrow> tryArm (ts_runner T) = (True, R) \<Longrightarrow>
    tick_step T (T\<lparr>ts_runner := R, callers := callers T - 1, arming := arming T + 1\<rparr>)"
| scheduled: "0 < arming T \<Longrightarrow> tick_step T (T\<lparr>arming := arming T - 1, pending := pending T + 1\<rparr>)"
| tick_popped: "ts_ticker T = Waiting \<Longrightarrow> 0 < pending T \<Longrightarrow>
    tick_step T (T\<lparr>pending := pending T - 1, ts_ticker := Popped\<rparr>)"
| tick_disarm: "ts_ticker T = Popped \<Longrightarrow>
    tick_step T (T\<lparr>ts_runner := disarm (ts_runner T), ts_ticker := Disarmed\<rparr>)"
| tick_run: "ts_ticker T = Disarmed \<Longrightarrow> runner_tick True frame (ts_runner T) = ((still, ev), R) \<Longrightarrow>
    tick_step T (T\<lparr>ts_runner := R, ts_ticker := Ticked still\<rparr>)"
| tick_ends: "ts_ticker T = Ticked False \<Longrightarrow> tick_step T (T\<lparr>ts_ticker := Waiting\<rparr>)"
| tick_rearm_refused: "ts_ticker T = Ticked True \<Longrightarrow> tryArm (ts_runner T) = (False, R) \<Longrightarrow>
    tick_step T (T\<lparr>ts_ticker := Waiting\<rparr>)"
| tick_rearm: "ts_ticker T = Ticked True \<Longrightarrow> tryArm (ts_runner T) = (True, R) \<Longrightarrow>
    tick_step T (T\<lparr>ts_runner := R, arming := arming T + 1, ts_ticker := Waiting\<rparr>)"

inductive_cases tick_step_elim: "tick_step T T'"

definition has_work :: "fixture_runner \<Rightarrow> bool" where
  "has_work R \<longleftrightarrow> active R \<noteq> [] \<or> live R \<noteq> []"

definition tick_inv :: "tick_state \<Rightarrow> bool" where
  "tick_inv T \<longleftrightarrow>
     pending T + arming T + (if ts_ticker T = Popped then 1 else 0) = (if tickArmed (ts_runner T) then 1 else 0) \<and>
     (has_work (ts_runner T) \<longrightarrow> tickArmed (ts_runner T) \<or> 0 < callers T \<or> ts_ticker T = Disarmed \<or> ts_ticker T = Ticked True)"

definition new_tick_state :: tick_state where
  "new_tick_state = \<lparr>ts_runner = new_fixture_runner, callers = 0, arming = 0, pending = 0, ts_ticker = Waiting\<rparr>"

lemma tickArmed_start [simp]: "tickArmed (start_install f p u c cur sp R) = tickArmed R"
  by (simp add: start_install_def Let_def)

lemma tickArmed_stop [simp]: "tickArmed (stop_pattern fid cur R) = tickArmed R"
  by (simp add: stop_pattern_def split: option.splits)

lemma update_not_Nil: "AList.update k v m \<noteq> []"
  by (cases m) auto

lemma has_work_stop [simp]: "has_work (stop_pattern fid cur R) = has_work R"
  by (auto simp: stop_pattern_def has_work_def update_not_Nil split: option.splits)

lemma tickArmed_setLive: "setLive f cvs t u cur sp R = (b, R') \<Longrightarrow> tickArmed R' = tickArmed R"
  by (erule setLive_cases) simp_all

lemma tick_result: "runner_tick l frame R = ((still, ev), R') \<Longrightarrow> still = has_work R' \<and> tickArmed R' = tickArmed R"
  by (auto simp: runner_tick_def Let_def has_work_def)

lemma tryArm_result:
  "tryArm R = (False, R') \<Longrightarrow> tickArmed R"
  "tryArm R = (True, R') \<Longrightarrow> \<not> tickArmed R \<and> R' = R\<lparr>tickArmed := True\<rparr>"
  by (auto simp: tryArm_def split: if_splits)

lemma tick_inv_step: "tick_step T T' \<Longrightarrow> tick_inv T \<Longrightarrow> tick_inv T'"
proof (induction rule: tick_step.induct)
  case (caller_live f cvs t u cur sp T R)
  then show ?case using tickArmed_setLive by (fastforce simp: tick_inv_def)
next
  case (auto_stop T fid cur)
  then show ?case by (simp add: tick_inv_def)
next
  case (tick_run T frame still ev R)
  then show ?case using tick_result [OF tick_run.hyps(2)] by (auto simp: tick_inv_def)
qed (auto simp: tick_inv_def disarm_def has_work_def dest!: tryArm_result split: if_splits)

lemma tick_inv_reachable: "tick_step\<^sup>*\<^sup>* T T' \<Longrightarrow> tick_inv T \<Longrightarrow> tick_inv T'"
  by (induction rule: rtranclp_induct) (auto intro: tick_inv_step)

text \<open>
  C23: no tick is lost and none is doubled. In every interleaving of the threads that start,
  stop or drive fixtures with the event loop's tick, at most one tick event is ever queued;
  and when every thread has finished its call and no tick is executing, a runner with
  anything active has exactly one tick in the queue.
\<close>

theorem no_tick_lost:
  assumes "tick_step\<^sup>*\<^sup>* new_tick_state T"
  shows "pending T \<le> 1 \<and>
    (callers T = 0 \<and> arming T = 0 \<and> ts_ticker T = Waiting \<longrightarrow>
     active (ts_runner T) \<noteq> [] \<or> live (ts_runner T) \<noteq> [] \<longrightarrow> pending T = 1)"
proof -
  have "tick_inv new_tick_state"
    by (simp add: tick_inv_def new_tick_state_def new_fixture_runner_def has_work_def)
  from tick_inv_reachable [OF assms this] show ?thesis
    by (auto simp: tick_inv_def has_work_def split: if_splits)
qed

text \<open>The event body is one uninterrupted run of the ticker's steps.\<close>

lemma tick_executeImpl_steps:
  assumes "fixturePatternRunner W = Some (ts_runner T)" "eventLoop W \<noteq> None"
    and "ts_ticker T = Waiting" "0 < pending T"
  shows "\<exists>T'. tick_step\<^sup>*\<^sup>* T T' \<and> ts_ticker T' = Waiting \<and>
    fixturePatternRunner (snd (tick_executeImpl frame W)) = Some (ts_runner T')"
proof -
  obtain still ev R1 where t: "runner_tick True frame (disarm (ts_runner T)) = ((still, ev), R1)"
    by (cases "runner_tick True frame (disarm (ts_runner T))" rule: prod.exhaust) auto
  let ?T1 = "T\<lparr>pending := pending T - 1, ts_ticker := Popped\<rparr>"
  let ?T2 = "?T1\<lparr>ts_runner := disarm (ts_runner T), ts_ticker := Disarmed\<rparr>"
  let ?T3 = "?T2\<lparr>ts_runner := R1, ts_ticker := Ticked still\<rparr>"
  have "tick_step T ?T1" using assms by (intro tick_popped)
  moreover have "tick_step ?T1 ?T2" using tick_disarm [of ?T1] by simp
  moreover have "tick_step ?T2 ?T3" using tick_run [of ?T2 frame still ev R1] t by simp
  ultimately have steps: "tick_step\<^sup>*\<^sup>* T ?T3"
    by (rule converse_rtranclp_into_rtranclp
          [OF _ converse_rtranclp_into_rtranclp [OF _ r_into_rtranclp]])
  have not_armed: "tickArmed R1 = False" using tick_result [OF t] by (simp add: disarm_def)
  show ?thesis
  proof (cases still)
    case True
    then have r: "fixturePatternRunner (snd (tick_executeImpl frame W)) = Some (R1\<lparr>tickArmed := True\<rparr>)"
      using assms t not_armed
      by (simp add: tick_executeImpl_def tryArm_def with_runner_def schedule_event_def)
    let ?T4 = "?T3\<lparr>ts_runner := R1\<lparr>tickArmed := True\<rparr>, arming := arming ?T3 + 1, ts_ticker := Waiting\<rparr>"
    have "tick_step ?T3 ?T4"
      using True not_armed by (intro tick_rearm) (simp_all add: tryArm_def)
    with steps have "tick_step\<^sup>*\<^sup>* T ?T4" by (rule rtranclp.rtrancl_into_rtrancl)
    then show ?thesis using r by (intro exI [of _ ?T4]) simp
  next
    case False
    then have r: "fixturePatternRunner (snd (tick_executeImpl frame W)) = Some R1"
      using assms t by (simp add: tick_executeImpl_def with_runner_def)
    let ?T4 = "?T3\<lparr>ts_ticker := Waiting\<rparr>"
    have "tick_step ?T3 ?T4" using False by (intro tick_ends) simp
    with steps have "tick_step\<^sup>*\<^sup>* T ?T4" by (rule rtranclp.rtrancl_into_rtrancl)
    then show ?thesis using r by (intro exI [of _ ?T4]) simp
  qed
qed

section \<open>Patterns follow the creature's activity\<close>

text \<open>Every cached fixture is stored under its own id, as the server's upserts and hydration do.\<close>

definition cache_ids_ok :: "(fixtureId_t, dmx_fixture) object_cache \<Rightarrow> bool" where
  "cache_ids_ok fc \<longleftrightarrow> keys_ok fc \<and> (\<forall>fid fx. map_of fc fid = Some (Some fx) \<longrightarrow> fx_id fx = fid)"

lemma start_elsewhere:
  "fx_id fx \<noteq> fid \<Longrightarrow> map_of (active (snd (start_pattern fx p u c cur sp R))) fid = map_of (active R) fid"
  "live (snd (start_pattern fx p u c cur sp R)) = live R"
  by (simp_all add: start_pattern_def start_install_eq)

lemma stop_elsewhere:
  "fid' \<noteq> fid \<Longrightarrow> map_of (active (stop_pattern fid' cur R)) fid = map_of (active R) fid"
  "live (stop_pattern fid' cur R) = live R"
  by (simp_all add: stop_pattern_def split: option.splits)

lemma dispatch_binding_elsewhere:
  assumes "fx_id fx \<noteq> fid" "fid' \<noteq> fid"
  shows "map_of (active (snd (dispatch_binding um fid' fx c prev r s cur sp b acc))) fid = map_of (active (snd acc)) fid"
proof -
  obtain st R where acc: "acc = (st, R)" by fastforce
  show ?thesis
    using start_elsewhere(1) [OF assms(1)] stop_elsewhere(1) [OF assms(2)]
    by (auto simp: acc dispatch_binding_def Let_def split: option.splits prod.splits) (metis snd_conv)+
qed

lemma dispatch_binding_live [simp]:
  "live (snd (dispatch_binding um fid' fx c prev r s cur sp b acc)) = live (snd acc)"
proof -
  obtain st R where acc: "acc = (st, R)" by fastforce
  show ?thesis
    using start_elsewhere(2) stop_elsewhere(2)
    by (auto simp: acc dispatch_binding_def Let_def split: option.splits prod.splits) (metis snd_conv)+
qed

lemma dispatch_fixture_elsewhere:
  assumes "cache_ids_ok fc" "fid \<noteq> fid'"
  shows "map_of (active (snd (dispatch_fixture fc um c prev r s cur sp fid' acc))) fid = map_of (active (snd acc)) fid"
proof (cases "map_of fc fid'")
  case (Some x)
  show ?thesis
  proof (cases x)
    case inner: (Some fx)
    have "fx_id fx \<noteq> fid" using assms Some inner by (auto simp: cache_ids_ok_def)
    then have "map_of (active (snd (fold (dispatch_binding um fid' fx c prev r s cur sp) bs acc))) fid =
        map_of (active (snd acc)) fid" for bs
      by (induction bs arbitrary: acc) (use assms(2) in \<open>simp_all add: dispatch_binding_elsewhere\<close>)
    then show ?thesis by (simp add: dispatch_fixture_def cache_get_def Some inner)
  qed (simp add: dispatch_fixture_def cache_get_def Some)
qed (simp add: dispatch_fixture_def cache_get_def)

lemma dispatch_fixture_live [simp]:
  "live (snd (dispatch_fixture fc um c prev r s cur sp fid acc)) = live (snd acc)"
proof -
  have "live (snd (fold (dispatch_binding um fid fx c prev r s cur sp) bs acc)) = live (snd acc)" for fx bs
    by (induction bs arbitrary: acc) simp_all
  then show ?thesis by (simp add: dispatch_fixture_def split: or_out_of_range.splits option.splits)
qed

lemma dispatch_others:
  assumes "cache_ids_ok fc" "fid \<notin> set ids"
  shows "map_of (active (snd (fold (dispatch_fixture fc um c prev r s cur sp) ids acc))) fid = map_of (active (snd acc)) fid"
    and "live (snd (fold (dispatch_fixture fc um c prev r s cur sp) ids acc)) = live (snd acc)"
  using assms(2) by (induction ids arbitrary: acc) (simp_all add: dispatch_fixture_elsewhere [OF assms(1)])

lemma dispatch_one_binding:
  assumes "filter (\<lambda>b. bind_creature_id b = c) bs = [b]"
  shows "fold (dispatch_binding um fid fx c prev r s cur sp) bs acc = dispatch_binding um fid fx c prev r s cur sp b acc"
proof -
  have skip: "fold (dispatch_binding um fid fx c prev r s cur sp) bs acc = acc"
    if "filter (\<lambda>b. bind_creature_id b = c) bs = []" for bs acc
    using that by (induction bs) (auto simp: dispatch_binding_def split: if_splits prod.splits)
  show ?thesis
    using assms
  proof (induction bs arbitrary: acc)
    case (Cons a bs)
    show ?case
    proof (cases "bind_creature_id a = c")
      case True
      then show ?thesis using Cons.prems by (simp add: skip)
    next
      case False
      then have "dispatch_binding um fid fx c prev r s cur sp a acc = acc"
        by (simp add: dispatch_binding_def split: prod.splits)
      then show ?thesis using Cons False by simp
    qed
  qed simp
qed

text \<open>What the whole scan does to one fixture that has one binding for the creature.\<close>

lemma scan_one_fixture:
  assumes "cache_ids_ok fc" "map_of fc fid = Some (Some fx)"
    and "filter (\<lambda>b. bind_creature_id b = c) (bindings fx) = [b]"
    and "fold (dispatch_fixture fc um c prev r s cur sp) (cache_getAllKeys fc) (False, R) = (st, R')"
  shows "\<exists>acc. map_of (active (snd acc)) fid = map_of (active R) fid \<and> live (snd acc) = live R \<and>
    map_of (active R') fid = map_of (active (snd (dispatch_binding um fid fx c prev r s cur sp b acc))) fid"
proof -
  have "fid \<in> set (cache_getAllKeys fc)"
    using assms(2) by (simp add: cache_getAllKeys_contains cache_contains_def)
  then obtain xs ys where ids: "cache_getAllKeys fc = xs @ fid # ys" by (meson split_list)
  have "distinct (cache_getAllKeys fc)"
    using assms(1) by (simp add: cache_ids_ok_def cache_getAllKeys_def keys_ok_def)
  then have no: "fid \<notin> set xs" "fid \<notin> set ys" using ids by simp_all
  let ?d = "dispatch_fixture fc um c prev r s cur sp"
  let ?acc = "fold ?d xs (False, R)"
  have "?d fid ?acc = dispatch_binding um fid fx c prev r s cur sp b ?acc"
    using assms(2) by (simp add: dispatch_fixture_def cache_get_def dispatch_one_binding [OF assms(3)])
  moreover have "map_of (active R') fid = map_of (active (snd (?d fid ?acc))) fid"
    using assms(4) dispatch_others(1) [OF assms(1) no(2), of um c prev r s cur sp "?d fid ?acc"]
    by (simp add: ids)
  ultimately show ?thesis
    using dispatch_others [OF assms(1) no(1), of um c prev r s cur sp "(False, R)"]
    by (intro exI [of _ ?acc]) simp
qed

lemma arm_keeps_runner:
  "fixturePatternRunner W = Some R \<Longrightarrow>
   \<exists>R'. fixturePatternRunner (armTickIfNeeded W) = Some R' \<and> active R' = active R \<and> live R' = live R"
  by (auto simp: armTickIfNeeded_def tryArm_def with_runner_def schedule_event_def split: option.splits)

lemma onCreatureActivity_runner:
  assumes "c \<noteq> []" "fixtureCache W = Some fc" "fixturePatternRunner W = Some R"
    and "map_of (lastSeen W) c \<noteq> Some (r, s)" "map_of fc fid = Some (Some fx)"
  obtains st R' R'' where
    "fold (dispatch_fixture fc (fixtureUniverseMap W) c (map_of (lastSeen W) c) r s (next_frame_or_0 W) sp)
       (cache_getAllKeys fc) (False, R) = (st, R')"
    "fixturePatternRunner (onCreatureActivity c r s sp W) = Some R''" "active R'' = active R'" "live R'' = live R'"
proof -
  obtain st R' where f: "fold (dispatch_fixture fc (fixtureUniverseMap W) c (map_of (lastSeen W) c) r s (next_frame_or_0 W) sp)
       (cache_getAllKeys fc) (False, R) = (st, R')" by fastforce
  have ne: "cache_getAllKeys fc \<noteq> []" using assms(5) by (auto simp: cache_getAllKeys_def)
  let ?W2 = "with_runner R' (W\<lparr>lastSeen := AList.update c (r, s) (lastSeen W)\<rparr>)"
  have "onCreatureActivity c r s sp W = (if st then armTickIfNeeded ?W2 else ?W2)"
    using assms f ne by (simp add: onCreatureActivity_def Let_def next_frame_or_0_def)
  moreover have "fixturePatternRunner ?W2 = Some R'" by (simp add: with_runner_def)
  ultimately show ?thesis
    using that [OF f] arm_keeps_runner [of ?W2 R'] by (cases st) auto
qed


section \<open>Concrete transitions\<close>

definition demo_binding :: "string option \<Rightarrow> string option \<Rightarrow> string \<Rightarrow> fixture_binding" where
  "demo_binding r s p = \<lparr>bind_creature_id = ''beaky'', on_reason = r, on_state = s, bind_pattern_id = p\<rparr>"

definition demo_fixture_world :: "fixture_binding list \<Rightarrow> (unit, unit) fixture_world_scheme" where
  "demo_fixture_world bs = \<lparr>heap = [], universeStates = [], nextActivityGeneration = 1, services = new_service,
     eventLoop = Some 99, outbox = [], creatureCache = None,
     fixtureCache = Some [(''fog'', Some (demo_fixture\<lparr>patterns := [demo_pattern, demo_pattern\<lparr>pat_id := ''q''\<rparr>],
        bindings := bs\<rparr>))],
     fixtureUniverseMap = Some [(''fog'', Some 2)],
     fixturePatternRunner = Some new_fixture_runner, lastSeen = [], \<dots> = ()\<rparr>"


text \<open>
  Bindings are processed in list order, starts and stops alike: when the binding that stops
  matching comes after the one that starts, it fades out the pattern just started.
\<close>

lemma later_binding_stops_new_pattern:
  "map_option (\<lambda>R. map_option (\<lambda>e. (ap_patternId e, phase e)) (map_of (active R) ''fog''))
     (fixturePatternRunner (onCreatureActivity ''beaky'' Play Running None
       (onCreatureActivity ''beaky'' ReasonIdle Idle None (demo_fixture_world
         [demo_binding None (Some ''running'') ''p'', demo_binding None (Some ''idle'') ''q'']))))
   = Some (Some (''p'', FadeOut))"
  "map_option (\<lambda>R. map_option (\<lambda>e. (ap_patternId e, phase e)) (map_of (active R) ''fog''))
     (fixturePatternRunner (onCreatureActivity ''beaky'' Play Running None
       (onCreatureActivity ''beaky'' ReasonIdle Idle None (demo_fixture_world
         [demo_binding None (Some ''idle'') ''q'', demo_binding None (Some ''running'') ''p'']))))
   = Some (Some (''p'', FadeIn))"
  by code_simp+

theorem no_tick_lost_witness:
  "pending (new_tick_state\<lparr>ts_runner := demo_active\<lparr>tickArmed := True\<rparr>, callers := 0, arming := 0, pending := 1\<rparr>) \<le> 1"
proof -
  let ?T1 = "new_tick_state\<lparr>ts_runner := demo_active, callers := 1\<rparr>"
  let ?R = "demo_active\<lparr>tickArmed := True\<rparr>"
  let ?T2 = "?T1\<lparr>ts_runner := ?R, callers := 0, arming := 1\<rparr>"
  let ?T3 = "?T2\<lparr>arming := 0, pending := 1\<rparr>"
  have a: "tickArmed demo_active = False" by (simp add: demo_active_def new_fixture_runner_def)
  have "tick_step new_tick_state ?T1"
    using caller_start [of new_tick_state demo_fixture demo_pattern 2 "''x''" 100 None]
    by (simp add: new_tick_state_def demo_active_def)
  moreover have "tick_step ?T1 ?T2"
    using arm_taken [of ?T1 ?R] a by (simp add: tryArm_def new_tick_state_def)
  moreover have "tick_step ?T2 ?T3" using scheduled [of ?T2] by (simp add: new_tick_state_def)
  ultimately have "tick_step\<^sup>*\<^sup>* new_tick_state ?T3"
    by (rule converse_rtranclp_into_rtranclp
          [OF _ converse_rtranclp_into_rtranclp [OF _ r_into_rtranclp]])
  from no_tick_lost [OF this] show ?thesis by simp
qed

end
