(* ===== verification/Fixture_Json.thy ===== *)
theory Fixture_Json
  imports Fixture_Model Animation_Data
begin

text \<open>
  \<open>Database::fixtureFromJson\<close> (src/src/server/fixture/helpers.cpp): the validation of a fixture
  document. The JSON library is an argument: what the code asks of a value is the record
  \<open>json_ops\<close>, over an arbitrary type of values, and a member that throws returns \<open>Inl\<close> of the
  exception's text. Nothing is assumed of it. (An array is iterated and counted through the
  list of its elements.)
\<close>

section \<open>The JSON library's interface\<close>

record 'j json_ops =
  j_contains :: "'j \<Rightarrow> string \<Rightarrow> bool"
  j_at :: "'j \<Rightarrow> string \<Rightarrow> 'j"
  j_is_null :: "'j \<Rightarrow> bool"
  j_is_string :: "'j \<Rightarrow> bool"
  j_is_number :: "'j \<Rightarrow> bool"
  j_is_array :: "'j \<Rightarrow> bool"
  j_string :: "'j \<Rightarrow> string + string"
  j_int64 :: "'j \<Rightarrow> string + int"
  j_value_u32 :: "'j \<Rightarrow> string \<Rightarrow> u32 \<Rightarrow> string + u32"
  j_elements :: "'j \<Rightarrow> 'j list"

definition invalidData :: "string \<Rightarrow> 'a result" where
  "invalidData message = Inl (ServerError InvalidData message)"

text \<open>A library call that throws leaves the \<open>try\<close> block for its handler.\<close>

definition json_call :: "string + 'a \<Rightarrow> 'a result" where
  "json_call r = (case r of
     Inl what \<Rightarrow> Inl (ServerError InvalidData (''Error while converting JSON to DmxFixture: '' @ what))
   | Inr v \<Rightarrow> Inr v)"

lemma invalidData_iff [result_iff]: "invalidData m \<noteq> Inr y" "(invalidData m = Inr y) = False"
  by (simp_all add: invalidData_def)

lemma if_invalidData_iff [result_iff]: "(if b then invalidData m else r) = Inr y \<longleftrightarrow> \<not> b \<and> r = Inr y"
  by (simp add: invalidData_def)

lemma json_call_iff [result_iff]: "json_call r = Inr v \<longleftrightarrow> r = Inr v"
  by (cases r) (simp_all add: json_call_def)

definition MAX_CHANNELS_PER_FIXTURE :: nat where "MAX_CHANNELS_PER_FIXTURE = 64"
definition MAX_PATTERNS_PER_FIXTURE :: nat where "MAX_PATTERNS_PER_FIXTURE = 256"
definition MAX_VALUES_PER_PATTERN :: nat where "MAX_VALUES_PER_PATTERN = 64"
definition MAX_BINDINGS_PER_FIXTURE :: nat where "MAX_BINDINGS_PER_FIXTURE = 256"

section \<open>The sections of the document\<close>

text \<open>
  A member that must be present and a string, and one that may be absent or null. \<open>missing\<close> is
  the message of the section that asks.
\<close>

definition required_string :: "'j json_ops \<Rightarrow> 'j \<Rightarrow> string \<Rightarrow> string \<Rightarrow> string result" where
  "required_string ops j field missing =
     (if \<not> j_contains ops j field \<or> \<not> j_is_string ops (j_at ops j field) then invalidData missing
      else json_call (j_string ops (j_at ops j field)))"

definition present :: "'j json_ops \<Rightarrow> 'j \<Rightarrow> string \<Rightarrow> bool" where
  "present ops j field \<longleftrightarrow> j_contains ops j field \<and> \<not> j_is_null ops (j_at ops j field)"

text \<open>One turn of the channel loop; its state is the names seen, the largest offset, the channels.\<close>

definition parse_channel ::
  "'j json_ops \<Rightarrow> string \<Rightarrow> 'j \<Rightarrow> string list \<times> u16 \<times> fixture_channel list \<Rightarrow>
   (string list \<times> u16 \<times> fixture_channel list) result"
where
  "parse_channel ops fid j st = (case st of (seen, maxOffset, chs) \<Rightarrow>
     if \<not> j_contains ops j ''offset'' \<or> \<not> j_is_number ops (j_at ops j ''offset'') then
       invalidData (''Channel missing required field '' @ quoted ''offset'' @ '' (uint16)'')
     else if \<not> j_contains ops j ''name'' \<or> \<not> j_is_string ops (j_at ops j ''name'') then
       invalidData (''Channel missing required field '' @ quoted ''name'' @ '' (string)'')
     else bind_result (json_call (j_int64 ops (j_at ops j ''offset''))) (\<lambda>rawOffset.
     if rawOffset < 0 \<or> 511 < rawOffset then
       invalidData (''Channel '' @ quoted ''offset'' @ '' must be in [0, 511]; got '' @ dec_int rawOffset)
     else bind_result (json_call (j_string ops (j_at ops j ''name''))) (\<lambda>name.
     if name = [] then invalidData (''Channel '' @ quoted ''name'' @ '' is empty'')
     else if name \<in> set seen then
       invalidData (''Duplicate channel name '' @ quoted name @ '' on fixture '' @ fid)
     else bind_result
       (if present ops j ''kind'' then
          (if \<not> j_is_string ops (j_at ops j ''kind'') then
             invalidData (''Channel '' @ quoted ''kind'' @ '' must be a string'')
           else json_call (j_string ops (j_at ops j ''kind'')))
        else Inr ''generic'') (\<lambda>kind.
     Inr (name # seen, max maxOffset (word_of_int rawOffset),
          chs @ [\<lparr>ch_offset = word_of_int rawOffset, ch_name = name, ch_kind = kind\<rparr>])))))"

definition parse_value ::
  "'j json_ops \<Rightarrow> string list \<Rightarrow> string \<Rightarrow> 'j \<Rightarrow> fixture_pattern_value list \<Rightarrow> fixture_pattern_value list result"
where
  "parse_value ops channelNames pid j vs =
     (if \<not> j_contains ops j ''channel'' \<or> \<not> j_is_string ops (j_at ops j ''channel'') then
        invalidData (''Pattern value missing '' @ quoted ''channel'' @ '' (string)'')
      else if \<not> j_contains ops j ''value'' \<or> \<not> j_is_number ops (j_at ops j ''value'') then
        invalidData (''Pattern value missing '' @ quoted ''value'' @ '' (uint8)'')
      else bind_result (json_call (j_string ops (j_at ops j ''channel''))) (\<lambda>channel.
      bind_result (json_call (j_int64 ops (j_at ops j ''value''))) (\<lambda>rawValue.
      if rawValue < 0 \<or> 255 < rawValue then
        invalidData (''Pattern value must be in [0, 255]; got '' @ dec_int rawValue)
      else if channel \<notin> set channelNames then
        invalidData (''Pattern '' @ quoted pid @ '' references unknown channel '' @ quoted channel)
      else Inr (vs @ [\<lparr>pv_channel = channel, pv_value = word_of_int rawValue\<rparr>]))))"

definition parse_pattern ::
  "'j json_ops \<Rightarrow> string \<Rightarrow> string list \<Rightarrow> 'j \<Rightarrow> string list \<times> fixture_pattern list \<Rightarrow>
   (string list \<times> fixture_pattern list) result"
where
  "parse_pattern ops fid channelNames j st = (case st of (seen, ps) \<Rightarrow>
     bind_result (required_string ops j ''id'' (''Pattern missing required field '' @ quoted ''id'')) (\<lambda>pid.
     if pid = [] then invalidData (''Pattern '' @ quoted ''id'' @ '' is empty'')
     else if pid \<in> set seen then
       invalidData (''Duplicate pattern id '' @ quoted pid @ '' on fixture '' @ fid)
     else bind_result (required_string ops j ''name'' (''Pattern missing required field '' @ quoted ''name'')) (\<lambda>name.
     bind_result (json_call (j_value_u32 ops j ''fade_in_ms'' 0)) (\<lambda>fadeIn.
     bind_result (json_call (j_value_u32 ops j ''fade_out_ms'' 0)) (\<lambda>fadeOut.
     bind_result (json_call (j_value_u32 ops j ''hold_ms'' 0)) (\<lambda>hold.
     if \<not> j_contains ops j ''values'' \<or> \<not> j_is_array ops (j_at ops j ''values'') then
       invalidData (''Pattern '' @ quoted pid @ '' missing required '' @ quoted ''values'' @ '' array'')
     else if MAX_VALUES_PER_PATTERN < length (j_elements ops (j_at ops j ''values'')) then
       invalidData (''Pattern '' @ quoted pid @ '' has '' @ dec (length (j_elements ops (j_at ops j ''values''))) @
         '' values, exceeds max '' @ dec MAX_VALUES_PER_PATTERN)
     else bind_result
       (fold_result (parse_value ops channelNames pid) (j_elements ops (j_at ops j ''values'')) []) (\<lambda>vs.
     Inr (pid # seen, ps @ [\<lparr>pat_id = pid, pat_name = name, pat_values = vs, fade_in_ms = fadeIn,
            fade_out_ms = fadeOut, hold_ms = hold\<rparr>]))))))))"

definition validReasons :: "string list" where
  "validReasons = [''play'', ''playlist'', ''ad_hoc'', ''idle'', ''disabled'', ''cancelled'', ''streaming'']"

definition validStates :: "string list" where
  "validStates = [''running'', ''idle'', ''disabled'', ''stopped'']"

text \<open>An optional filter of a binding: absent or null, or one of the known names.\<close>

definition parse_filter :: "'j json_ops \<Rightarrow> 'j \<Rightarrow> string \<Rightarrow> string list \<Rightarrow> string \<Rightarrow> string option result" where
  "parse_filter ops j field known what =
     (if present ops j field then
        (if \<not> j_is_string ops (j_at ops j field) then
           invalidData (''Binding '' @ quoted field @ '' must be a string or null'')
         else bind_result (json_call (j_string ops (j_at ops j field))) (\<lambda>v.
         if v \<notin> set known then
           invalidData (''Binding '' @ quoted field @ '' '' @ quoted v @ '' is not a known activity '' @ what)
         else Inr (Some v)))
      else Inr None)"

definition parse_binding ::
  "'j json_ops \<Rightarrow> string \<Rightarrow> string list \<Rightarrow> 'j \<Rightarrow> fixture_binding list \<Rightarrow> fixture_binding list result"
where
  "parse_binding ops fid patternIds j bs =
     bind_result (required_string ops j ''creature_id'' (''Binding missing required field '' @ quoted ''creature_id'')) (\<lambda>c.
     if c = [] then invalidData (''Binding '' @ quoted ''creature_id'' @ '' is empty'')
     else bind_result (required_string ops j ''pattern_id'' (''Binding missing required field '' @ quoted ''pattern_id'')) (\<lambda>p.
     if p \<notin> set patternIds then
       invalidData (''Binding references unknown pattern_id '' @ quoted p @ '' on fixture '' @ fid)
     else bind_result (parse_filter ops j ''on_reason'' validReasons ''reason'') (\<lambda>r.
     bind_result (parse_filter ops j ''on_state'' validStates ''state'') (\<lambda>s.
     Inr (bs @ [\<lparr>bind_creature_id = c, on_reason = r, on_state = s, bind_pattern_id = p\<rparr>])))))"

text \<open>An optional bounded array: absent or null is empty.\<close>

definition optional_array :: "'j json_ops \<Rightarrow> 'j \<Rightarrow> string \<Rightarrow> nat \<Rightarrow> 'j list result" where
  "optional_array ops j field cap =
     (if present ops j field then
        (if \<not> j_is_array ops (j_at ops j field) then
           invalidData (''Fixture '' @ quoted field @ '' must be an array'')
         else if cap < length (j_elements ops (j_at ops j field)) then
           invalidData (''Fixture '' @ quoted field @ '' must have at most '' @ dec cap @ '' entries; got '' @
             dec (length (j_elements ops (j_at ops j field))))
         else Inr (j_elements ops (j_at ops j field)))
      else Inr [])"

section \<open>The document\<close>

text \<open>A required top-level string: present, not null, a string, not empty.\<close>

definition top_string :: "'j json_ops \<Rightarrow> 'j \<Rightarrow> string \<Rightarrow> string result" where
  "top_string ops j field =
     (if \<not> j_contains ops j field \<or> j_is_null ops (j_at ops j field) \<or> \<not> j_is_string ops (j_at ops j field) then
        invalidData (''Missing or invalid field '' @ quoted field @ '' in fixture JSON'')
      else json_call (j_string ops (j_at ops j field)))"

definition parse_universe :: "'j json_ops \<Rightarrow> 'j \<Rightarrow> universe_t option result" where
  "parse_universe ops j =
     (if present ops j ''assigned_universe'' then
        bind_result (json_call (j_int64 ops (j_at ops j ''assigned_universe''))) (\<lambda>raw.
        if raw < 1 \<or> 63999 < raw then
          invalidData (''Fixture '' @ quoted ''assigned_universe'' @ '' must be in [1, 63999]; got '' @ dec_int raw)
        else Inr (Some (word_of_int raw)))
      else Inr None)"

definition fixtureFromJson :: "'j json_ops \<Rightarrow> 'j \<Rightarrow> dmx_fixture result" where
  "fixtureFromJson ops j =
     bind_result (top_string ops j ''id'') (\<lambda>fid.
     if fid = [] then invalidData (''Fixture '' @ quoted ''id'' @ '' is empty'')
     else bind_result (top_string ops j ''name'') (\<lambda>name.
     if name = [] then invalidData (''Fixture '' @ quoted ''name'' @ '' is empty'')
     else bind_result (top_string ops j ''type'') (\<lambda>type.
     if \<not> present ops j ''channel_offset'' then
       invalidData (''Missing or null field '' @ quoted ''channel_offset'' @ '' in fixture JSON'')
     else bind_result (json_call (j_int64 ops (j_at ops j ''channel_offset''))) (\<lambda>channelOffset.
     if channelOffset < 0 \<or> 511 < channelOffset then
       invalidData (''Fixture '' @ quoted ''channel_offset'' @ '' must be in [0, 511]; got '' @ dec_int channelOffset)
     else bind_result (parse_universe ops j) (\<lambda>universe.
     if \<not> j_contains ops j ''channels'' \<or> \<not> j_is_array ops (j_at ops j ''channels'') then
       invalidData (''Missing or non-array field '' @ quoted ''channels'' @ '' in fixture JSON'')
     else if j_elements ops (j_at ops j ''channels'') = [] then
       invalidData (''Fixture '' @ quoted ''channels'' @ '' must be non-empty'')
     else if MAX_CHANNELS_PER_FIXTURE < length (j_elements ops (j_at ops j ''channels'')) then
       invalidData (''Fixture '' @ quoted ''channels'' @ '' must have at most '' @ dec MAX_CHANNELS_PER_FIXTURE @
         '' entries; got '' @ dec (length (j_elements ops (j_at ops j ''channels''))))
     else bind_result
       (fold_result (parse_channel ops fid) (j_elements ops (j_at ops j ''channels'')) ([], 0, []))
       (\<lambda>(channelNames, maxOffset, chs).
     if 511 < nat channelOffset + unat maxOffset then
       invalidData (''Fixture '' @ fid @ '' does not fit in a universe: channel_offset '' @ dec_int channelOffset @
         '' + max channel offset '' @ dec (unat maxOffset) @ '' > 511'')
     else bind_result (optional_array ops j ''patterns'' MAX_PATTERNS_PER_FIXTURE) (\<lambda>pjs.
     bind_result (fold_result (parse_pattern ops fid channelNames) pjs ([], [])) (\<lambda>(patternIds, ps).
     bind_result (optional_array ops j ''bindings'' MAX_BINDINGS_PER_FIXTURE) (\<lambda>bjs.
     bind_result (fold_result (parse_binding ops fid patternIds) bjs []) (\<lambda>bs.
     Inr \<lparr>fx_id = fid, fixture_name = name, fixture_kind = fixtureTypeFromString type,
        fixture_channel_offset = word_of_int channelOffset, assigned_universe = universe,
        channels = chs, patterns = ps, bindings = bs\<rparr>))))))))))"

section \<open>What an accepted document guarantees\<close>

definition universe_valid :: "universe_t option \<Rightarrow> bool" where
  "universe_valid u = (case u of None \<Rightarrow> True | Some u \<Rightarrow> 1 \<le> u \<and> u \<le> 63999)"

definition channels_valid :: "u16 \<Rightarrow> fixture_channel list \<Rightarrow> bool" where
  "channels_valid base chs \<longleftrightarrow> chs \<noteq> [] \<and> length chs \<le> MAX_CHANNELS_PER_FIXTURE \<and> distinct (map ch_name chs) \<and>
     (\<forall>ch \<in> set chs. ch_name ch \<noteq> [] \<and> unat base + unat (ch_offset ch) \<le> 511)"

definition pattern_valid :: "string set \<Rightarrow> fixture_pattern \<Rightarrow> bool" where
  "pattern_valid names p \<longleftrightarrow> pat_id p \<noteq> [] \<and> length (pat_values p) \<le> MAX_VALUES_PER_PATTERN \<and>
     (\<forall>v \<in> set (pat_values p). pv_channel v \<in> names)"

definition binding_valid :: "string set \<Rightarrow> fixture_binding \<Rightarrow> bool" where
  "binding_valid ids b \<longleftrightarrow> bind_creature_id b \<noteq> [] \<and> bind_pattern_id b \<in> ids \<and>
     (\<forall>r. on_reason b = Some r \<longrightarrow> r \<in> range reason_toString) \<and>
     (\<forall>s. on_state b = Some s \<longrightarrow> s \<in> range state_toString)"

definition fixture_valid :: "dmx_fixture \<Rightarrow> bool" where
  "fixture_valid f \<longleftrightarrow> fx_id f \<noteq> [] \<and> fixture_name f \<noteq> [] \<and> unat (fixture_channel_offset f) \<le> 511 \<and>
     universe_valid (assigned_universe f) \<and> channels_valid (fixture_channel_offset f) (channels f) \<and>
     length (patterns f) \<le> MAX_PATTERNS_PER_FIXTURE \<and> distinct (map pat_id (patterns f)) \<and>
     (\<forall>p \<in> set (patterns f). pattern_valid (ch_name ` set (channels f)) p) \<and>
     length (bindings f) \<le> MAX_BINDINGS_PER_FIXTURE \<and>
     (\<forall>b \<in> set (bindings f). binding_valid (pat_id ` set (patterns f)) b)"

lemma unat_small_int: "0 \<le> i \<Longrightarrow> i \<le> 511 \<Longrightarrow> unat (word_of_int i :: u16) = nat i"
  by (simp add: unsigned_of_int take_bit_int_eq_self nat_take_bit_eq take_bit_nat_eq_self)

lemma set_validReasons: "set validReasons = range reason_toString"
proof -
  have "range reason_toString = reason_toString ` {Play, Playlist, AdHoc, ReasonIdle, ReasonDisabled, Cancelled, Streaming}"
    by (rule arg_cong [where f = "image reason_toString"]) (use activity_reason.exhaust in auto)
  then show ?thesis by (auto simp: validReasons_def reason_toString_def)
qed

lemma set_validStates: "set validStates = range state_toString"
proof -
  have "range state_toString = state_toString ` {Running, Idle, Disabled, Stopped}"
    by (rule arg_cong [where f = "image state_toString"]) (use activity_state.exhaust in auto)
  then show ?thesis by (auto simp: validStates_def state_toString_def)
qed

text \<open>The channel loop.\<close>

definition channel_loop_inv :: "string list \<times> u16 \<times> fixture_channel list \<Rightarrow> bool" where
  "channel_loop_inv st = (case st of (seen, m, chs) \<Rightarrow>
     set seen = ch_name ` set chs \<and> distinct (map ch_name chs) \<and>
     (\<forall>ch \<in> set chs. ch_name ch \<noteq> [] \<and> ch_offset ch \<le> m))"

lemma parse_channel_step:
  "parse_channel ops fid j st = Inr st' \<Longrightarrow> channel_loop_inv st \<Longrightarrow>
   channel_loop_inv st' \<and> length (snd (snd st')) = Suc (length (snd (snd st)))"
  by (auto simp: parse_channel_def channel_loop_inv_def result_iff le_max_iff_disj split: prod.splits)

lemma parse_channel_count: "parse_channel ops fid j st = Inr st' \<Longrightarrow> length (snd (snd st')) = Suc (length (snd (snd st)))"
  by (auto simp: parse_channel_def result_iff split: prod.splits)

lemma channel_loop:
  assumes "fold_result (parse_channel ops fid) js ([], 0, []) = Inr (seen, m, chs)"
  shows "set seen = ch_name ` set chs" "distinct (map ch_name chs)"
    "\<forall>ch \<in> set chs. ch_name ch \<noteq> [] \<and> ch_offset ch \<le> m" "length chs = length js"
proof -
  have "channel_loop_inv (seen, m, chs)"
    by (rule fold_result_invariant [OF assms]) (auto simp: channel_loop_inv_def dest: parse_channel_step)
  then show "set seen = ch_name ` set chs" "distinct (map ch_name chs)"
    "\<forall>ch \<in> set chs. ch_name ch \<noteq> [] \<and> ch_offset ch \<le> m"
    by (simp_all add: channel_loop_inv_def)
  show "length chs = length js"
    using fold_result_count [OF assms, where m = "\<lambda>st. length (snd (snd st))", OF parse_channel_count] by simp
qed

text \<open>The pattern loop, with the loop over a pattern's values.\<close>

lemma value_loop:
  assumes "fold_result (parse_value ops names pid) js [] = Inr vs"
  shows "\<forall>v \<in> set vs. pv_channel v \<in> set names" "length vs = length js"
proof -
  show "\<forall>v \<in> set vs. pv_channel v \<in> set names"
    by (rule fold_result_invariant [OF assms]) (auto simp: parse_value_def result_iff)
  have "length vs = length ([] :: fixture_pattern_value list) + length js"
    by (rule fold_result_count [OF assms, where m = length]) (auto simp: parse_value_def result_iff)
  then show "length vs = length js" by simp
qed

lemma parse_pattern_step:
  assumes "parse_pattern ops fid names j st = Inr st'"
  shows "\<exists>p. snd st' = snd st @ [p] \<and> fst st' = pat_id p # fst st \<and> pat_id p \<notin> set (fst st) \<and> pattern_valid (set names) p"
proof -
  obtain seen ps where st: "st = (seen, ps)" by fastforce
  obtain pid name fi fo h vs where v:
    "pid \<noteq> []" "pid \<notin> set seen" "length (j_elements ops (j_at ops j ''values'')) \<le> MAX_VALUES_PER_PATTERN"
    "fold_result (parse_value ops names pid) (j_elements ops (j_at ops j ''values'')) [] = Inr vs"
    "st' = (pid # seen, ps @ [\<lparr>pat_id = pid, pat_name = name, pat_values = vs, fade_in_ms = fi, fade_out_ms = fo, hold_ms = h\<rparr>])"
    using assms unfolding st parse_pattern_def prod.case result_iff not_less by blast
  then show ?thesis
    using value_loop [OF v(4)] by (simp add: st pattern_valid_def)
qed

lemma pattern_loop:
  assumes "fold_result (parse_pattern ops fid names) js ([], []) = Inr (ids, ps)"
  shows "set ids = pat_id ` set ps" "distinct (map pat_id ps)" "\<forall>p \<in> set ps. pattern_valid (set names) p"
    "length ps = length js"
proof -
  let ?I = "\<lambda>(ids, ps). set ids = pat_id ` set ps \<and> distinct (map pat_id ps) \<and> (\<forall>p \<in> set ps. pattern_valid (set names) p)"
  have "?I (ids, ps)"
    by (rule fold_result_invariant [OF assms]) (auto dest!: parse_pattern_step)
  then show "set ids = pat_id ` set ps" "distinct (map pat_id ps)" "\<forall>p \<in> set ps. pattern_valid (set names) p"
    by simp_all
  have "length (snd (ids, ps)) = length (snd ([] :: string list, [] :: fixture_pattern list)) + length js"
    by (rule fold_result_count [OF assms, where m = "\<lambda>st. length (snd st)"]) (auto dest!: parse_pattern_step)
  then show "length ps = length js" by simp
qed

text \<open>The binding loop.\<close>

lemma parse_filter_known: "parse_filter ops j field known what = Inr (Some v) \<Longrightarrow> v \<in> set known"
  by (auto simp: parse_filter_def result_iff split: if_splits)

lemma parse_binding_step:
  "parse_binding ops fid ids j bs = Inr bs' \<Longrightarrow> \<exists>b. bs' = bs @ [b] \<and> binding_valid (set ids) b"
  by (auto simp: parse_binding_def binding_valid_def result_iff set_validReasons set_validStates
      dest!: parse_filter_known)

lemma binding_loop:
  assumes "fold_result (parse_binding ops fid ids) js [] = Inr bs"
  shows "\<forall>b \<in> set bs. binding_valid (set ids) b" "length bs = length js"
proof -
  show "\<forall>b \<in> set bs. binding_valid (set ids) b"
    by (rule fold_result_invariant [OF assms]) (auto dest!: parse_binding_step)
  have "length bs = length ([] :: fixture_binding list) + length js"
    by (rule fold_result_count [OF assms, where m = length]) (auto dest!: parse_binding_step)
  then show "length bs = length js" by simp
qed

lemma optional_array_length: "optional_array ops j field cap = Inr js \<Longrightarrow> length js \<le> cap"
  by (auto simp: optional_array_def result_iff not_less split: if_splits)

lemma parse_universe_valid: "parse_universe ops j = Inr u \<Longrightarrow> universe_valid u"
  by (auto simp: parse_universe_def universe_valid_def result_iff word_le_nat_alt unsigned_of_int
      take_bit_int_eq_self nat_take_bit_eq take_bit_nat_eq_self split: if_splits)

text \<open>
  C29: an accepted fixture document is well formed. Whatever the JSON library returns, when
  \<open>fixtureFromJson\<close> succeeds the fixture has a non-empty id and name, an offset of at most 511,
  a universe in [1, 63999] if any, between 1 and 64 uniquely and non-emptily named channels
  that all fit below slot 512, at most 256 uniquely named patterns of at most 64 values that
  only name existing channels, and at most 256 bindings that name an existing pattern and
  filter on activity names the dispatcher can produce.
\<close>

theorem accepted_fixture_valid:
  assumes "fixtureFromJson ops j = Inr f"
  shows "fixture_valid f"
proof -
  obtain fid name type off u names m chs pjs ids ps bjs bs where f:
    "fid \<noteq> []" "name \<noteq> []" "\<not> (off < 0 \<or> 511 < off)" "parse_universe ops j = Inr u"
    "j_elements ops (j_at ops j ''channels'') \<noteq> []"
    "length (j_elements ops (j_at ops j ''channels'')) \<le> MAX_CHANNELS_PER_FIXTURE"
    "fold_result (parse_channel ops fid) (j_elements ops (j_at ops j ''channels'')) ([], 0, []) = Inr (names, m, chs)"
    "nat off + unat m \<le> 511"
    "optional_array ops j ''patterns'' MAX_PATTERNS_PER_FIXTURE = Inr pjs"
    "fold_result (parse_pattern ops fid names) pjs ([], []) = Inr (ids, ps)"
    "optional_array ops j ''bindings'' MAX_BINDINGS_PER_FIXTURE = Inr bjs"
    "fold_result (parse_binding ops fid ids) bjs [] = Inr bs"
    "Inr \<lparr>fx_id = fid, fixture_name = name, fixture_kind = fixtureTypeFromString type,
        fixture_channel_offset = word_of_int off, assigned_universe = u,
        channels = chs, patterns = ps, bindings = bs\<rparr> = (Inr f :: dmx_fixture result)"
    using assms unfolding fixtureFromJson_def result_iff case_prod_iff not_less
    by (elim exE conjE) (hypsubst+, rule that, assumption+)
  have base: "unat (word_of_int off :: u16) = nat off" using f(3) by (intro unat_small_int) auto
  note ch = channel_loop [OF f(7)] and pt = pattern_loop [OF f(10)] and bd = binding_loop [OF f(12)]
  have "channels_valid (word_of_int off) chs"
    using ch f(5,6,8) by (fastforce simp: channels_valid_def base word_le_nat_alt)
  then show ?thesis
    using f(1,2,3) parse_universe_valid [OF f(4)] ch(1) pt bd optional_array_length [OF f(9)]
      optional_array_length [OF f(11)]
    by (auto simp: fixture_valid_def base simp flip: f(13) [unfolded sum.inject])
qed

section \<open>A concrete document\<close>

datatype demo_json = JNull | JString string | JNumber int | JArray "demo_json list" | JObject "(string \<times> demo_json) list"

definition demo_field :: "demo_json \<Rightarrow> string \<Rightarrow> demo_json option" where
  "demo_field j k = (case j of JObject m \<Rightarrow> map_of m k | _ \<Rightarrow> None)"

definition demo_json_ops :: "demo_json json_ops" where
  "demo_json_ops = \<lparr>
     j_contains = (\<lambda>j k. demo_field j k \<noteq> None),
     j_at = (\<lambda>j k. case demo_field j k of None \<Rightarrow> JNull | Some v \<Rightarrow> v),
     j_is_null = (\<lambda>j. case j of JNull \<Rightarrow> True | _ \<Rightarrow> False),
     j_is_string = (\<lambda>j. case j of JString _ \<Rightarrow> True | _ \<Rightarrow> False),
     j_is_number = (\<lambda>j. case j of JNumber _ \<Rightarrow> True | _ \<Rightarrow> False),
     j_is_array = (\<lambda>j. case j of JArray _ \<Rightarrow> True | _ \<Rightarrow> False),
     j_string = (\<lambda>j. case j of JString s \<Rightarrow> Inr s | _ \<Rightarrow> Inl ''type must be string''),
     j_int64 = (\<lambda>j. case j of JNumber i \<Rightarrow> Inr i | _ \<Rightarrow> Inl ''type must be number''),
     j_value_u32 = (\<lambda>j k d. case demo_field j k of None \<Rightarrow> Inr d
        | Some (JNumber i) \<Rightarrow> Inr (word_of_int i) | Some _ \<Rightarrow> Inl ''type must be number''),
     j_elements = (\<lambda>j. case j of JArray xs \<Rightarrow> xs | _ \<Rightarrow> [])\<rparr>"

definition demo_document :: "int \<Rightarrow> demo_json" where
  "demo_document off = JObject [(''id'', JString ''fog''), (''name'', JString ''Fog''), (''type'', JString ''fogger''),
     (''channel_offset'', JNumber off), (''assigned_universe'', JNumber 2),
     (''channels'', JArray [JObject [(''offset'', JNumber 0), (''name'', JString ''red'')],
        JObject [(''offset'', JNumber 1), (''name'', JString ''level''), (''kind'', JString ''dimmer'')]]),
     (''patterns'', JArray [JObject [(''id'', JString ''p''), (''name'', JString ''Glow''), (''fade_in_ms'', JNumber 40),
        (''values'', JArray [JObject [(''channel'', JString ''level''), (''value'', JNumber 200)]])]]),
     (''bindings'', JArray [JObject [(''creature_id'', JString ''beaky''), (''pattern_id'', JString ''p''),
        (''on_state'', JString ''running'')]])]"

definition demo_parsed :: "u16 \<Rightarrow> dmx_fixture" where
  "demo_parsed off = \<lparr>fx_id = ''fog'', fixture_name = ''Fog'', fixture_kind = Fogger, fixture_channel_offset = off,
     assigned_universe = Some 2,
     channels = [\<lparr>ch_offset = 0, ch_name = ''red'', ch_kind = ''generic''\<rparr>,
                 \<lparr>ch_offset = 1, ch_name = ''level'', ch_kind = ''dimmer''\<rparr>],
     patterns = [\<lparr>pat_id = ''p'', pat_name = ''Glow'', pat_values = [\<lparr>pv_channel = ''level'', pv_value = 200\<rparr>],
        fade_in_ms = 40, fade_out_ms = 0, hold_ms = 0\<rparr>],
     bindings = [\<lparr>bind_creature_id = ''beaky'', on_reason = None, on_state = Some ''running'', bind_pattern_id = ''p''\<rparr>]\<rparr>"

lemma demo_document_accepted: "fixtureFromJson demo_json_ops (demo_document 20) = Inr (demo_parsed 20)"
  by code_simp

theorem accepted_fixture_valid_witness: "fixture_valid (demo_parsed 20)"
  by (rule accepted_fixture_valid [OF demo_document_accepted])

text \<open>The error branches of the same document: an offset past the universe, an offset of 600.\<close>

lemma demo_document_rejected:
  "fixtureFromJson demo_json_ops (demo_document 511) = Inl (ServerError InvalidData
     ''Fixture fog does not fit in a universe: channel_offset 511 + max channel offset 1 > 511'')"
  "fixtureFromJson demo_json_ops (demo_document 600) = Inl (ServerError InvalidData
     (''Fixture '' @ quoted ''channel_offset'' @ '' must be in [0, 511]; got 600''))"
  by code_simp+

end
