(* ===== verification/Fixture_Output.thy ===== *)
theory Fixture_Output
  imports Fixture_Dispatch Fixture_Json
begin

text \<open>
  From a fixture document to the wire: the writes that the pattern runner schedules for an
  accepted fixture, executed by the DMX event, reach the channels of the fixture.
\<close>

lemma fixture_span_bound:
  assumes "\<forall>ch \<in> set chs. unat (ch_offset ch) \<le> n" "unat m \<le> n"
  shows "unat (fold (\<lambda>ch m. max m (ch_offset ch)) chs m) \<le> n"
  using assms by (induction chs arbitrary: m) (auto simp: max_def word_le_nat_alt)

lemma fixture_valid_span:
  assumes "fixture_valid f"
  shows "unat (fixture_channel_offset f) + unat (fixture_span f) \<le> 512" "0 < unat (fixture_span f)"
proof -
  let ?m = "fold (\<lambda>ch m. max m (ch_offset ch)) (channels f) 0"
  have "unat ?m \<le> 511 - unat (fixture_channel_offset f)"
    using assms by (intro fixture_span_bound) (auto simp: fixture_valid_def channels_valid_def)
  moreover have "unat (fixture_channel_offset f) \<le> 511" using assms by (simp add: fixture_valid_def)
  moreover have "unat (?m + 1) = unat ?m + 1" if "unat ?m \<le> 511"
    using that by (simp add: unat_word_ariths take_bit_nat_eq_self)
  ultimately show "unat (fixture_channel_offset f) + unat (fixture_span f) \<le> 512" "0 < unat (fixture_span f)"
    by (simp_all add: fixture_span_def)
qed

lemma fold_max_acc: "m \<le> fold (\<lambda>ch m. max m (ch_offset ch)) chs (m :: u16)"
proof (induction chs arbitrary: m)
  case (Cons a chs)
  have "m \<le> max m (ch_offset a)" by simp
  also have "\<dots> \<le> fold (\<lambda>ch m. max m (ch_offset ch)) chs (max m (ch_offset a))" by (rule Cons.IH)
  finally show ?case by simp
qed simp

lemma fold_max_mem: "ch \<in> set chs \<Longrightarrow> ch_offset ch \<le> fold (\<lambda>ch m. max m (ch_offset ch)) chs (m :: u16)"
proof (induction chs arbitrary: m)
  case (Cons a chs)
  show ?case
  proof (cases "ch = a")
    case True
    have "ch_offset a \<le> max m (ch_offset a)" by simp
    also have "\<dots> \<le> fold (\<lambda>ch m. max m (ch_offset ch)) chs (max m (ch_offset a))" by (rule fold_max_acc)
    finally show ?thesis using True by simp
  next
    case False
    then show ?thesis using Cons by simp
  qed
qed simp

text \<open>Every write of the target loop and of a live update is inside the vector.\<close>

lemma fixture_valid_offset:
  assumes "fixture_valid f" "ch \<in> set (channels f)"
  shows "ch_offset ch < fixture_span f"
proof -
  let ?m = "fold (\<lambda>ch m. max m (ch_offset ch)) (channels f) 0"
  have "ch_offset ch \<le> ?m" using assms(2) by (rule fold_max_mem)
  moreover have "unat ?m \<le> 511"
    using assms(1) by (intro fixture_span_bound) (auto simp: fixture_valid_def channels_valid_def)
  then have "unat (?m + 1) = unat ?m + 1" by (simp add: unat_word_ariths take_bit_nat_eq_self)
  ultimately show ?thesis by (simp add: fixture_span_def word_less_nat_alt word_le_nat_alt)
qed

lemma unat_ucast_up: "unat (ucast (x :: u16) :: u32) = unat x"
proof -
  have "unat x < 2 ^ 32" using unsigned_less [where 'a = nat, of x] by simp
  then show ?thesis by (simp add: unsigned_ucast_eq take_bit_nat_eq_self)
qed

lemma ucast_down_up: "ucast (ucast (x :: u16) :: u32) = x"
  by (simp add: ucast_down_ucast_id is_down)

lemma ucast_universe: "(u :: universe_t) \<le> 63999 \<Longrightarrow> 1 \<le> u \<Longrightarrow> (ucast u :: u16) \<noteq> 0 \<and> (ucast u :: u16) \<le> 63999"
proof -
  assume u: "u \<le> 63999" "1 \<le> u"
  then have "unat (ucast u :: u16) = unat u"
    by (simp add: unsigned_ucast_eq word_le_nat_alt take_bit_nat_eq_self)
  then show ?thesis using u by (auto simp: word_le_nat_alt unat_eq_0 [symmetric])
qed


text \<open>
  C17: what an accepted fixture plays reaches its channels. Take a fixture from an accepted
  document and any entry of the runner for it. If its channel offset is at least 1, executing
  the write of that entry stores every rendered byte at its slot (offset + channel) of the
  universe, none is dropped. If its channel offset is 0, which the validation also accepts,
  the write is rejected by the E1.31 layer and changes nothing: such a fixture stays dark.
\<close>

theorem accepted_fixture_reaches_wire:
  assumes "fixtureFromJson ops j = Inr f" "galaxy_ok g" "1 \<le> ap_universe e" "ap_universe e \<le> 63999"
    and "entry_ok k e" "channelSpan e = fixture_span f" "ap_channelOffset e = fixture_channel_offset f"
  shows "(fixture_channel_offset f \<noteq> 0 \<longrightarrow>
      (\<forall>i < unat (fixture_span f).
         state (galaxy_at (snd (dmx_executeImpl True frame (pattern_write e) g)) (ucast (ap_universe e)))
           ! (unat (fixture_channel_offset f) + i) = lastRenderedValues e ! i)) \<and>
    (fixture_channel_offset f = 0 \<longrightarrow> snd (dmx_executeImpl True frame (pattern_write e) g) = g)"
proof (intro conjI impI allI)
  note valid = accepted_fixture_valid [OF assms(1)]
  note sp = fixture_valid_span [OF valid]
  let ?off = "fixture_channel_offset f" and ?vs = "lastRenderedValues e" and ?u = "ucast (ap_universe e) :: u16"
  have vs: "length ?vs = unat (fixture_span f)" using assms(5,6) by (simp add: entry_ok_def)
  have ex: "snd (dmx_executeImpl True frame (pattern_write e) g) = setValues ?u ?off ?vs g"
    by (simp add: dmx_executeImpl_def pattern_write_def assms(7) ucast_down_up)
  {
    fix i assume off: "?off \<noteq> 0" and i: "i < unat (fixture_span f)"
    have "0 < unat ?off" using off by (simp add: unat_gt_0)
    moreover have "?off \<le> 512" using sp by (simp add: word_le_nat_alt)
    ultimately show "state (galaxy_at (snd (dmx_executeImpl True frame (pattern_write e) g)) ?u) ! (unat ?off + i) = ?vs ! i"
      using off i sp vs ucast_universe [OF assms(4,3)] galaxy_at_ok [OF assms(2), of ?u]
      by (simp add: ex galaxy_at_setValues state_setFragment_nth UNIVERSE_SLOT_COUNT_def)
  next
    assume "?off = 0"
    then show "snd (dmx_executeImpl True frame (pattern_write e) g) = g" by (simp add: ex setValues_def)
  }
qed

definition demo_entry :: active_pattern where
  "demo_entry = started_entry (demo_parsed 20) demo_pattern 2 [] 100 None [7, 9]"

theorem accepted_fixture_reaches_wire_witness:
  "state (galaxy_at (snd (dmx_executeImpl True 100 (pattern_write demo_entry) [])) (ucast (ap_universe demo_entry)))
     ! (unat (fixture_channel_offset (demo_parsed 20)) + 1) = 9"
proof -
  have ok: "entry_ok (fx_id (demo_parsed 20)) demo_entry"
    by (simp add: demo_entry_def started_entry_def entry_ok_started)
  have e: "1 \<le> ap_universe demo_entry" "ap_universe demo_entry \<le> 63999"
    "channelSpan demo_entry = fixture_span (demo_parsed 20)"
    "ap_channelOffset demo_entry = fixture_channel_offset (demo_parsed 20)"
    by (simp_all add: demo_entry_def started_entry_def pattern_entry_def Let_def)
  have g: "galaxy_ok []" by (simp add: galaxy_ok_def)
  have "lastRenderedValues demo_entry ! 1 = 9"
    by (simp add: demo_entry_def started_entry_def pattern_entry_def Let_def fixture_span_def demo_parsed_def resize_vec_def)
  moreover have "1 < unat (fixture_span (demo_parsed 20))" "fixture_channel_offset (demo_parsed 20) \<noteq> 0"
    by (simp_all add: fixture_span_def demo_parsed_def)
  ultimately show ?thesis
    using accepted_fixture_reaches_wire [OF demo_document_accepted g e(1,2) ok e(3,4), of 100] by metis
qed

end
