(* ===== verification/Server_Loop.thy ===== *)
theory Server_Loop
  imports Fixture_Output
begin

text \<open>
  The event loop running the server's own events: the playback runner, the fixture tick, the
  fixture auto-stop and the DMX write, each with its modelled body. The handlers schedule
  work for the frame they run at only as DMX writes, and everything else later, which is what
  makes a frame's inner loop end.
\<close>

section \<open>The fixture subsystem alone\<close>

record 't server_world = "'t fixture_world" +
  wire :: galaxy

text \<open>
  \<open>execute()\<close> of an event at frame \<open>f\<close> while the loop's frame is \<open>cur\<close>: what it schedules is
  its outbox. Playback events are left to \<open>server_exec\<close> below.
\<close>

definition fixture_exec :: "framenum_t \<Rightarrow> (server_event, 't server_world) executor" where
  "fixture_exec cur ev W = (case ev of (f, e) \<Rightarrow>
     let W0 = W\<lparr>outbox := [], eventLoop := Some cur\<rparr>;
         W1 = (case e of
             FixtureTick \<Rightarrow> snd (tick_executeImpl f W0)
           | AutoStop fid \<Rightarrow> snd (autoStop_executeImpl fid f W0)
           | DmxWrite d \<Rightarrow> W0\<lparr>wire := snd (dmx_executeImpl True f d (wire W0))\<rparr>
           | _ \<Rightarrow> W0)
     in (outbox W1, W1\<lparr>outbox := []\<rparr>))"

text \<open>Frames are 64-bit: the last frames before the counter wraps are excluded by clamping.\<close>

definition last_safe_frame :: framenum_t where
  "last_safe_frame = framenum_max - 100"

definition event_rank :: "framenum_t \<Rightarrow> server_event event \<Rightarrow> nat" where
  "event_rank cur e = (case snd e of
     RunnerEvent r \<Rightarrow> Suc (unat (cur - fst e))
   | FixtureTick \<Rightarrow> Suc (unat (cur - fst e))
   | _ \<Rightarrow> 0)"

lemma event_rank_later:
  assumes "f < f'" "f' \<le> cur"
  shows "unat (cur - f') < unat (cur - (f :: framenum_t))"
  using assms by (simp add: unat_sub word_less_nat_alt word_le_nat_alt)

lemma later_tick:
  assumes "f \<le> last_safe_frame" shows "f < f + FIXTURE_PATTERN_TICK_INTERVAL_FRAMES"
proof -
  have "unat last_safe_frame = 2 ^ 64 - 101" by (simp add: last_safe_frame_def framenum_max_def)
  then have "unat f + 20 < 2 ^ 64" using assms by (simp add: word_le_nat_alt)
  then show ?thesis by (simp add: word_less_nat_alt unat_next_tick)
qed

lemma runner_tick_events:
  "e \<in> set (snd (fst (runner_tick l frame R))) \<Longrightarrow> \<exists>d. e = (frame, DmxWrite d)"
  by (auto simp: runner_tick_def Let_def split: if_splits)

lemma tick_executeImpl_outbox:
  assumes "e \<in> set (outbox (snd (tick_executeImpl frame W)))"
  shows "e \<in> set (outbox W) \<or> (\<exists>d. e = (frame, DmxWrite d)) \<or>
    e = (frame + FIXTURE_PATTERN_TICK_INTERVAL_FRAMES, FixtureTick)"
proof (cases "fixturePatternRunner W")
  case None
  then show ?thesis using assms by (simp add: tick_executeImpl_def)
next
  case (Some R)
  obtain still evs R1 where t: "runner_tick (eventLoop W \<noteq> None) frame (disarm R) = ((still, evs), R1)"
    by (metis prod.collapse)
  have "\<exists>d. e = (frame, DmxWrite d)" if "e \<in> set evs"
    using runner_tick_events [of e "eventLoop W \<noteq> None" frame "disarm R"] t that by simp
  then show ?thesis
    using assms t Some
    by (auto simp: tick_executeImpl_def with_runner_def Let_def split: if_splits prod.splits bool.splits)
qed

interpretation fixture_loop:
  ranked_executor "fixture_exec (min cur last_safe_frame)" "min cur last_safe_frame" "event_rank (min cur last_safe_frame)"
  for cur
proof
  fix e :: "server_event event" and w w' :: "'t server_world" and new e'
  let ?c = "min cur last_safe_frame"
  assume ex: "fixture_exec ?c e w = (new, w')" and due: "fst e \<le> ?c" and e': "e' \<in> set new" "fst e' \<le> ?c"
  obtain f b where e: "e = (f, b)" by fastforce
  show "event_rank ?c e' < event_rank ?c e"
  proof (cases b)
    case FixtureTick
    then have "e' \<in> set (outbox (snd (tick_executeImpl f (w\<lparr>outbox := [], eventLoop := Some ?c\<rparr>))))"
      using ex e e'(1) by (auto simp: fixture_exec_def Let_def)
    then have "(\<exists>d. e' = (f, DmxWrite d)) \<or> e' = (f + FIXTURE_PATTERN_TICK_INTERVAL_FRAMES, FixtureTick)"
      by (auto dest: tick_executeImpl_outbox)
    moreover have "f < f + FIXTURE_PATTERN_TICK_INTERVAL_FRAMES"
      using due e by (intro later_tick) simp
    ultimately show ?thesis
      using FixtureTick e e'(2) event_rank_later by (auto simp: event_rank_def)
  qed (use ex e e'(1) in \<open>auto simp: fixture_exec_def autoStop_executeImpl_def with_runner_def Let_def split: option.splits\<close>)
qed

section \<open>The whole loop\<close>

text \<open>
  \<open>emits P W W'\<close>: getting from \<open>W\<close> to \<open>W'\<close> scheduled some events, all satisfying \<open>P\<close>, and left
  the loop's frame alone. A handler of frame \<open>f\<close> run while the loop is at \<open>cur\<close> may schedule
  DMX writes for any frame, its own kind for a later frame, and anything after \<open>cur\<close>.
\<close>

definition emits :: "(server_event event \<Rightarrow> bool) \<Rightarrow> ('t, 'a) world_scheme \<Rightarrow> ('t, 'b) world_scheme \<Rightarrow> bool" where
  "emits P W W' \<longleftrightarrow> (\<exists>new. outbox W' = outbox W @ new \<and> list_all P new) \<and> eventLoop W' = eventLoop W"

definition allowed :: "framenum_t \<Rightarrow> framenum_t \<Rightarrow> server_event event \<Rightarrow> bool" where
  "allowed cur f e \<longleftrightarrow> cur < fst e \<or> (\<exists>d. snd e = DmxWrite d) \<or> (f < fst e \<and> (\<exists>r. snd e = RunnerEvent r))"

definition callbacks_later :: "framenum_t \<Rightarrow> ('t, ('t, 'a) runner_world_scheme) runner_env \<Rightarrow> bool" where
  "callbacks_later cur env \<longleftrightarrow>
     (\<forall>r W. emits (\<lambda>e. cur < fst e) W (r_on_start env r W)) \<and>
     (\<forall>r W. emits (\<lambda>e. cur < fst e) W (r_on_finish env r W)) \<and>
     (\<forall>c W. emits (\<lambda>e. cur < fst e) W (r_start_idle env c W))"

lemma emits_same: "outbox W' = outbox W \<Longrightarrow> eventLoop W' = eventLoop W \<Longrightarrow> emits P W W'"
  by (simp add: emits_def)

lemma emits_trans: "emits P W W' \<Longrightarrow> emits P W' W'' \<Longrightarrow> emits P W W''"
  by (fastforce simp: emits_def)

lemma emits_mono: "emits P W W' \<Longrightarrow> (\<And>e. P e \<Longrightarrow> Q e) \<Longrightarrow> emits Q W W'"
  by (fastforce simp: emits_def list_all_iff)

lemma emits_schedule: "P (f, e) \<Longrightarrow> emits P W (schedule_event f e W)"
  by (simp add: emits_def)

lemma emits_update: "emits P W (update_session r g W)"
  by (rule emits_same) simp_all

lemma emits_services: "emits P W (W\<lparr>services := S\<rparr>)"
  by (rule emits_same) simp_all

lemma emits_fold: "(\<And>x W. emits P W (f x W)) \<Longrightarrow> emits P W (fold f xs W)"
  by (rule fold_preserves [where P = "emits P W"]) (auto intro: emits_trans emits_same)

lemmas emits_intros = emits_update emits_services emits_schedule

lemma callbacks_allowed:
  assumes "callbacks_later cur env"
  shows "emits (allowed cur f) W (r_on_start env r W)" "emits (allowed cur f) W (r_on_finish env r W)"
    "emits (allowed cur f) W (r_start_idle env c W)"
  using assms by (simp_all add: callbacks_later_def emits_mono [where P = "\<lambda>e. cur < fst e"] allowed_def)

lemma emit_tracks_emits:
  "emit_tracks env u ms frame ts W = (e, ts', W') \<Longrightarrow> emits (allowed cur f) W W'"
proof (induction ts arbitrary: W e ts' W')
  case Nil
  then show ?case by (simp add: emits_same)
next
  case (Cons t ts)
  show ?case
  proof (cases "track_isFinished t \<or> frame < nextDispatchFrame t")
    case True
    then show ?thesis using Cons by (auto split: prod.splits)
  next
    case False
    show ?thesis
    proof (cases "resolve_target env u t W")
      case (Inl err)
      then show ?thesis using Cons.prems False by (auto intro: emits_same)
    next
      case (Inr p)
      obtain tgt W1 where p: "p = (tgt, W1)" by fastforce
      have W1: "emits (allowed cur f) W W1"
        using Inr p by (auto simp: resolve_target_def internal_error_def intro!: emits_same
            split: option.splits prod.splits if_splits sum.splits)
      show ?thesis
      proof (cases tgt)
        case None
        then show ?thesis
          using Cons.prems False Inr p Cons.IH [of W1] by (auto intro: emits_trans [OF W1] split: prod.splits)
      next
        case (Some x)
        obtain target offset where x: "x = (target, offset)" by fastforce
        define W2 where "W2 = schedule_event frame (DmxWrite \<lparr>dmx_universe = target, channelOffset = ucast offset,
            dmx_data = decodedFrames t ! unat (currentFrameIndex t)\<rparr>) W1"
        have W2: "emits (allowed cur f) W W2"
          unfolding W2_def by (rule emits_trans [OF W1 emits_schedule]) (simp add: allowed_def)
        obtain e2 ts2 W3 where "emit_tracks env u ms frame ts W2 = (e2, ts2, W3)" by (rule prod_cases3)
        then show ?thesis
          using Cons.prems False Inr p Some x emits_trans [OF W2 Cons.IH [of W2 e2 ts2 W3]]
          by (auto simp: W2_def [symmetric])
      qed
    qed
  qed
qed

lemma emits_emitDmxFrames: "emits (allowed cur f) W (snd (emitDmxFrames env frame r W))"
proof -
  obtain e ts W1 where em: "emit_tracks env (s_universe (heap W ! r)) (getMsPerFrame (heap W ! r)) frame
      (trackStates (heap W ! r)) W = (e, ts, W1)" by (rule prod_cases3)
  show ?thesis
    by (auto simp: emitDmxFrames_def em Let_def intro: emits_same emits_trans [OF emit_tracks_emits [OF em] emits_update])
qed

lemma emits_dispatch_audio: "emits P W (snd (dispatch_audio env frame r W))"
  by (auto simp: dispatch_audio_def case_prod_unfold Let_def intro: emits_update emits_same split: option.splits sum.splits)

lemma emits_performTeardown:
  assumes "eventLoop W = Some cur" "cur \<noteq> framenum_max"
  shows "emits (allowed cur f) W (performTeardown env r W)"
proof -
  have "allowed cur f (cur + 1, AnimationLight False)"
    using word_succ_greater [of cur] assms(2) by (simp add: allowed_def framenum_max_def)
  then show ?thesis
    using assms(1) by (auto simp: performTeardown_def Let_def intro!: emits_trans [OF emits_schedule emits_update])
qed

lemma emits_completion:
  assumes "callbacks_later cur env" "eventLoop W = Some cur" "cur \<noteq> framenum_max"
  shows "emits (allowed cur f) W (completeCancelledSession env r W)"
    and "emits (allowed cur f) W (complete_naturally env r W)"
proof -
  have fin: "emits (allowed cur f) W (r_on_finish env r (performTeardown env r W))" if "eventLoop W = Some cur" for W
    by (rule emits_trans [OF emits_performTeardown [OF that assms(3)] callbacks_allowed(2) [OF assms(1)]])
  note idle = callbacks_allowed(3) [OF assms(1), where f = f]
  define W1 where "W1 = update_session r (\<lambda>_. snd (markFinished (heap W ! r))) W"
  define W3 where "W3 = r_on_finish env r (performTeardown env r W1)"
  have W1: "emits (allowed cur f) W W1" "eventLoop W1 = Some cur"
    using assms(2) by (simp_all add: W1_def emits_update)
  have W3: "emits (allowed cur f) W W3"
    unfolding W3_def by (rule emits_trans [OF W1(1) fin [OF W1(2)]])
  have tail: "emits (allowed cur f) W (fold (\<lambda>c W. if Q c W then r_start_idle env c W else W) cs V)"
    if "emits (allowed cur f) W V" for Q cs V
    by (rule emits_trans [OF that emits_fold]) (simp add: idle emits_same)
  show "emits (allowed cur f) W (completeCancelledSession env r W)"
    using W1(1) tail [OF W3] tail [OF emits_trans [OF W3 emits_services]]
    by (simp add: completeCancelledSession_def Let_def case_prod_unfold flip: W1_def W3_def)
  define V3 where "V3 = r_on_finish env r (performTeardown env r W)"
  have V3: "emits (allowed cur f) W V3" unfolding V3_def by (rule fin [OF assms(2)])
  have "emits (allowed cur f) W (fold (r_start_idle env) cs (V3\<lparr>services := S\<rparr>))"
    "emits (allowed cur f) W (V3\<lparr>services := S\<rparr>)" for cs S
    using emits_trans [OF V3 emits_services] idle by (auto intro: emits_trans [OF _ emits_fold])
  then show "emits (allowed cur f) W (complete_naturally env r W)"
    using V3 by (simp add: complete_naturally_def Let_def flip: V3_def)
qed

lemma emits_eventLoop: "emits P W W' \<Longrightarrow> eventLoop W' = eventLoop W"
  by (simp add: emits_def)

lemma emits_executeImpl:
  assumes "callbacks_later cur env" "eventLoop W = Some cur" "cur \<noteq> framenum_max" "f \<noteq> framenum_max"
  shows "emits (allowed cur f) W (snd (executeImpl env f (Some r) W))"
proof -
  let ?E = "emits (allowed cur f)"
  define W1 where "W1 = idle_guard r W"
  have W1: "?E W W1" by (auto simp: W1_def idle_guard_def Let_def intro: emits_update emits_same)
  define W2 where "W2 = start_session env r W1"
  have W2: "?E W W2"
    using callbacks_allowed(1) [OF assms(1), where f = f]
    by (auto simp: W2_def start_session_def case_prod_unfold Let_def
        intro: emits_trans [OF W1 emits_update] emits_trans [OF W1 emits_trans [OF emits_update]])
  obtain dmx W3 where em: "emitDmxFrames env f r W2 = (dmx, W3)" by fastforce
  have W3: "?E W W3" using emits_trans [OF W2 emits_emitDmxFrames [of cur f W2 env f r]] em by simp
  obtain ae W4 where au: "dispatch_audio env f r W3 = (ae, W4)" by fastforce
  have W4: "?E W W4" using emits_trans [OF W3 emits_dispatch_audio [of _ W3 env f r]] au by simp
  have complete: "?E W (completeCancelledSession env r V)" "?E W (complete_naturally env r V)" if "?E W V" for V
    using emits_trans [OF that emits_completion(1) [OF assms(1) _ assms(3), of V f r]]
      emits_trans [OF that emits_completion(2) [OF assms(1) _ assms(3), of V f r]]
      emits_eventLoop [OF that] assms(2) by simp_all
  have cancel: "?E W (cancel_and_complete env r V)" if "?E W V" for V
    unfolding cancel_and_complete_def by (rule complete(1)) (rule emits_trans [OF that emits_update])
  have nat: "?E W (let (claimed, s) = markFinished (heap V ! r); V1 = update_session r (\<lambda>_. s) V in
      if \<not> claimed then V1 else complete_naturally env r V1)" if "?E W V" for V
    using emits_trans [OF that emits_update] by (auto simp: case_prod_unfold Let_def intro: complete(2))
  have next_ev: "?E W (schedule_event (calculateNextFrameNumber (r_ops env) f s) (RunnerEvent r) V)" if "?E W V" for V s
    using calculateNextFrameNumber_later [OF assms(4), of "r_ops env" s]
    by (intro emits_trans [OF that emits_schedule]) (simp add: allowed_def)
  have "?E W (snd (finish_or_reschedule env f r W4))"
    using cancel [OF W4] nat [OF W4] next_ev [OF W4]
    by (auto simp: finish_or_reschedule_def case_prod_unfold Let_def split: option.splits)
  then have "?E W (snd (play_frame env f r W1))"
    using cancel [OF W3] cancel [OF W4]
    by (auto simp: play_frame_def W2_def [symmetric] em au split: sum.splits option.splits)
  then show ?thesis
    using complete(1) [OF W1] emits_same [of W W] by (auto simp: executeImpl_def W1_def [symmetric])
qed

section \<open>Every frame ends\<close>

definition server_exec ::
  "('t, 't server_world) runner_env \<Rightarrow> framenum_t \<Rightarrow> (server_event, 't server_world) executor"
where
  "server_exec env cur ev W = (case ev of (f, e) \<Rightarrow>
     (case e of
        RunnerEvent r \<Rightarrow>
          (let W1 = snd (executeImpl env f (Some r) (W\<lparr>outbox := [], eventLoop := Some cur\<rparr>))
           in (outbox W1, W1\<lparr>outbox := []\<rparr>))
      | _ \<Rightarrow> fixture_exec cur ev W))"

lemma server_exec_ranked:
  assumes "callbacks_later cur env" "cur \<le> last_safe_frame"
  shows "ranked_executor (server_exec env cur) cur (event_rank cur)"
proof
  fix e :: "server_event event" and w w' :: "'a server_world" and new e'
  assume ex: "server_exec env cur e w = (new, w')" and due: "fst e \<le> cur" and e': "e' \<in> set new" "fst e' \<le> cur"
  obtain f b where e: "e = (f, b)" by fastforce
  have max: "last_safe_frame < framenum_max" by (simp add: last_safe_frame_def framenum_max_def)
  have f: "f \<noteq> framenum_max" "cur \<noteq> framenum_max"
    using due e assms(2) max by (auto simp: leD)
  have c: "min cur last_safe_frame = cur" using assms(2) by (simp add: min_def)
  show "event_rank cur e' < event_rank cur e"
  proof (cases "\<exists>r. b = RunnerEvent r")
    case True
    then obtain r where r: "b = RunnerEvent r" by blast
    let ?W0 = "w\<lparr>outbox := [], eventLoop := Some cur\<rparr>"
    have "e' \<in> set (outbox (snd (executeImpl env f (Some r) ?W0)))"
      using ex e r e'(1) by (auto simp: server_exec_def Let_def)
    then have "allowed cur f e'"
      using emits_executeImpl [OF assms(1) _ f(2) f(1), of ?W0 r] by (auto simp: emits_def list_all_iff)
    then show ?thesis
      using e r e'(2) event_rank_later by (auto simp: allowed_def event_rank_def leD)
  next
    case False
    then have "server_exec env cur e w = fixture_exec cur e w"
      using e by (auto simp: server_exec_def split: server_event.splits)
    then show ?thesis
      using fixture_loop.rank_decreases [of cur e w new w' e'] ex due e' unfolding c by simp
  qed
qed

lemma drains_ends: "drains exec cur q w tr sch q' w' \<Longrightarrow> \<forall>e \<in> set q'. cur < fst e"
  by (induction rule: drains.induct) auto


definition demo_server_env :: "(unit, unit server_world) runner_env" where
  "demo_server_env = \<lparr>r_service_env = demo_env,
     r_ops = \<lparr>needsPerFrameDispatch = (\<lambda>_. False), dispatchNextChunk = (\<lambda>f t. (Inr f, t)),
       hasTerminalFailure = (\<lambda>_. False), transport_isFinished = (\<lambda>_. True),
       getNextDispatchFrame = (\<lambda>_. None), transport_stop = (\<lambda>t. t)\<rparr>,
     r_on_start = (\<lambda>r W. W), r_on_finish = (\<lambda>r W. W),
     r_start_idle = (\<lambda>c W. schedule_event framenum_max (AnimationLight True) W), r_db = None\<rparr>"

definition demo_server_world :: "unit server_world" where
  "demo_server_world = \<lparr>heap = [new_session (\<lambda>f. Some [1, 2]) ''s'' (demo_animation [''x'', ''y'', ''z'']) 3 100],
     universeStates = [], nextActivityGeneration = 2, services = new_service, eventLoop = Some 100, outbox = [],
     creatureCache = None, fixtureCache = None, fixtureUniverseMap = None,
     fixturePatternRunner = Some demo_active, lastSeen = [], wire = []\<rparr>"


end
