(* ===== verification/Rtp_Transport.thy ===== *)
theory Rtp_Transport
  imports Rtp_Server Playback_Runner "HOL-Library.Sublist"
begin

text \<open>
  The RTP audio transport of a playback session (src/src/server/audio/RtpAudioTransport.cpp) and
  the decoder-priming events (src/src/server/eventloop/events/rtp-encoder-reset.cpp): the clients
  of the RTP server that run on the event loop. The output worker and the other clients run
  between any two of their calls: \<open>te_others\<close> gives what they did to the server before the k-th
  call, and the theorems hold for every such environment that keeps the server ready.
  A null \<open>rtpServer_\<close> is \<open>None\<close>. Spans, logs, metrics and failed allocations are not modelled.
\<close>

section \<open>State\<close>

record rtp_transport =
  rt_lease :: rtp_lease
  rt_trace :: async_trace
  rt_session :: "string option"
  rt_frameIndex :: nat
  rt_totalFrames :: nat
  rt_nextDispatch :: framenum_t
  rt_drainTicks :: nat
  rt_started :: bool
  rt_stopped :: bool
  rt_finalQueued :: bool
  rt_terminal :: bool

definition no_lease :: rtp_lease where
  "no_lease = \<lparr>lease_generation = 0, lease_ownerId = []\<rparr>"

definition new_rtp_transport :: rtp_transport where
  "new_rtp_transport = \<lparr>rt_lease = no_lease, rt_trace = no_trace, rt_session = None, rt_frameIndex = 0,
     rt_totalFrames = 0, rt_nextDispatch = 0, rt_drainTicks = 0, rt_started = False, rt_stopped = False,
     rt_finalQueued = False, rt_terminal = False\<rparr>"

record thread_env =
  te_others :: "nat \<Rightarrow> rtp_server \<Rightarrow> rtp_server"
  te_got_lock :: bool

definition MAX_FINAL_DRAIN_TICKS :: nat where "MAX_FINAL_DRAIN_TICKS = 2000"
definition RTP_FRAME_MS :: nat where "RTP_FRAME_MS = 10"

text \<open>\<open>RTP_FRAME_MS / EVENT_LOOP_PERIOD_MS\<close>: event-loop frames per packet.\<close>

definition dispatchStep :: nat where
  "dispatchStep = RTP_FRAME_MS div unat EVENT_LOOP_PERIOD_MS"

definition setOutputLease :: "rtp_lease \<Rightarrow> async_trace \<Rightarrow> rtp_transport \<Rightarrow> rtp_transport" where
  "setOutputLease l tr T = T\<lparr>rt_lease := l, rt_trace := tr\<rparr>"

definition markTerminalFailure ::
  "rtp_server \<Rightarrow> rtp_transport \<Rightarrow> server_error \<times> rtp_transport"
where
  "markTerminalFailure S T =
     (ServerError InternalError (''RTP playback failed for session '' @
        (case rt_session T of None \<Rightarrow> ''unknown'' | Some sid \<Rightarrow> sid) @ '': '' @
        terminalFailureMessage (lease_generation (rt_lease T)) S),
      T\<lparr>rt_stopped := True, rt_terminal := True\<rparr>)"

section \<open>\<open>start\<close> and \<open>stop\<close>\<close>

text \<open>The session handed to \<open>start\<close>: its id, its starting frame and its audio buffer.\<close>

definition start_rtp ::
  "thread_env \<Rightarrow> (string \<times> framenum_t \<times> audio_stream_buffer option) option \<Rightarrow> rtp_server option \<Rightarrow>
   rtp_transport \<Rightarrow> unit result \<times> rtp_server option \<times> rtp_transport"
where
  "start_rtp E session server T =
     (let T0 = T\<lparr>rt_session := map_option fst session, rt_stopped := True\<rparr> in
      case session of
        None \<Rightarrow> (Inl (ServerError InvalidData ''No playback session provided''), server, T0)
      | Some (sid, startFrame, buffer) \<Rightarrow> (case server of
          None \<Rightarrow> (internal_error ''RTP server not ready - cannot stream audio'', server, T0)
        | Some S0 \<Rightarrow>
            if \<not> isServerReady S0 then (internal_error ''RTP server not ready - cannot stream audio'', server, T0)
            else (let g = lease_generation (rt_lease T); S1 = te_others E 0 S0 in
              if isGenerationTripped g S1 then
                (let (e, T1) = markTerminalFailure S1 (T0\<lparr>rt_started := True\<rparr>) in (Inl e, Some S1, T1))
              else (let S2 = te_others E 1 S1 in
                if \<not> isCurrentOutput (rt_lease T) S2 then
                  (let S3 = te_others E 2 S2; T1 = T0\<lparr>rt_started := True\<rparr> in
                   if isGenerationTripped g S3 then
                     (let (e, T2) = markTerminalFailure S3 T1 in (Inl e, Some S3, T2))
                   else (Inr (), Some S3, T1))
                else (case buffer of
                    None \<Rightarrow> (internal_error ''No audio buffer in session'', Some S2, T0)
                  | Some B \<Rightarrow> (Inr (), Some S2, T0\<lparr>rt_totalFrames := getFrameCount B, rt_frameIndex := 0,
                      rt_nextDispatch := startFrame, rt_started := True, rt_stopped := False\<rparr>))))))"

definition stop_rtp :: "thread_env \<Rightarrow> rtp_server option \<Rightarrow> rtp_transport \<Rightarrow> rtp_server option \<times> rtp_transport" where
  "stop_rtp E server T =
     (if lease_valid (rt_lease T) \<and> \<not> rt_finalQueued T
      then map_option (releaseOutput (te_got_lock E) (rt_lease T)) server else server,
      T\<lparr>rt_stopped := True\<rparr>)"

section \<open>\<open>dispatchNextChunk\<close>\<close>

text \<open>
  The catch-up rule: how many packets are skipped at \<open>frame\<close>, given that \<open>frame\<close> has reached
  the next dispatch and some packet is left.
\<close>

definition frames_to_skip :: "framenum_t \<Rightarrow> rtp_transport \<Rightarrow> nat" where
  "frames_to_skip frame T =
     (if rt_nextDispatch T < frame
      then min (unat (frame - rt_nextDispatch T) div dispatchStep) (rt_totalFrames T - rt_frameIndex T)
      else 0)"

definition skip_late :: "framenum_t \<Rightarrow> rtp_transport \<Rightarrow> rtp_transport" where
  "skip_late frame T = T\<lparr>rt_frameIndex := rt_frameIndex T + frames_to_skip frame T,
     rt_nextDispatch := rt_nextDispatch T + of_nat (frames_to_skip frame T * dispatchStep)\<rparr>"

definition enqueue_code :: "enqueue_result \<Rightarrow> nat" where
  "enqueue_code r = (case r of Accepted \<Rightarrow> 0 | StaleLease \<Rightarrow> 1 | QueueFull \<Rightarrow> 2 | ServerNotReady \<Rightarrow> 3 | InvalidBuffer \<Rightarrow> 4)"

text \<open>
  The tail of the function, from the skip on. The first component is the packet the server
  accepted, as its index and the skip it carries.
\<close>

definition dispatch_frame ::
  "thread_env \<Rightarrow> framenum_t \<Rightarrow> audio_stream_buffer option \<Rightarrow> rtp_server \<Rightarrow> rtp_transport \<Rightarrow>
   (nat \<times> nat) option \<times> framenum_t result \<times> rtp_server \<times> rtp_transport"
where
  "dispatch_frame E frame buffer S T =
     (let skip = frames_to_skip frame T; T1 = skip_late frame T; k = rt_frameIndex T1 in
      if rt_totalFrames T1 \<le> k then (None, Inr frame, S, T1)
      else
        (let isFinal = (rt_totalFrames T1 \<le> k + 1);
             (res, S1) = enqueueAudioFrame (rt_lease T1) buffer k (of_nat skip) isFinal
                           ((rt_trace T1)\<lparr>tr_enqueueFrame := frame\<rparr>) (te_others E 2 S)
         in case res of
              StaleLease \<Rightarrow> (None, Inr frame, S1, T1\<lparr>rt_stopped := True\<rparr>)
            | Accepted \<Rightarrow>
                (let T2 = T1\<lparr>rt_frameIndex := k + 1, rt_finalQueued := isFinal,
                       rt_nextDispatch := rt_nextDispatch T1 + of_nat dispatchStep\<rparr>
                 in (Some (k, skip), Inr (rt_nextDispatch T2), S1, T2))
            | _ \<Rightarrow> (None, internal_error (''RTP output queue rejected audio frame '' @ dec k @ '' for session '' @
                      the (rt_session T1) @ '' (result '' @ dec (enqueue_code res) @ '')''),
                    releaseOutput (te_got_lock E) (rt_lease T1) S1, T1\<lparr>rt_stopped := True\<rparr>)))"

definition drain_tick ::
  "thread_env \<Rightarrow> framenum_t \<Rightarrow> rtp_server \<Rightarrow> rtp_transport \<Rightarrow> framenum_t result \<times> rtp_server \<times> rtp_transport"
where
  "drain_tick E frame S T =
     (if \<not> rt_stopped T \<and> rt_finalQueued T then
        (let T1 = T\<lparr>rt_drainTicks := rt_drainTicks T + 1\<rparr> in
         if MAX_FINAL_DRAIN_TICKS < rt_drainTicks T1
         then (internal_error (''RTP output worker did not acknowledge the final frame set within '' @
                 dec MAX_FINAL_DRAIN_TICKS @ '' ticks for session '' @ the (rt_session T1) @
                 ''; treating playback as failed''),
               releaseOutput (te_got_lock E) (rt_lease T1) S, T1\<lparr>rt_stopped := True, rt_terminal := True\<rparr>)
         else (Inr frame, S, T1))
      else (Inr frame, S, T))"

text \<open>Once the generation is neither tripped nor superseded.\<close>

definition dispatch_current ::
  "thread_env \<Rightarrow> framenum_t \<Rightarrow> audio_stream_buffer option \<Rightarrow> rtp_server \<Rightarrow> rtp_transport \<Rightarrow>
   (nat \<times> nat) option \<times> framenum_t result \<times> rtp_server \<times> rtp_transport"
where
  "dispatch_current E frame buffer S T =
     (if frame < rt_nextDispatch T then (None, Inr (rt_nextDispatch T), S, T)
      else if rt_stopped T \<or> rt_totalFrames T \<le> rt_frameIndex T then (None, drain_tick E frame S T)
      else if buffer = None then (None, internal_error ''Audio buffer disappeared'', S, T)
      else dispatch_frame E frame buffer S T)"

definition dispatch_rtp ::
  "thread_env \<Rightarrow> framenum_t \<Rightarrow> audio_stream_buffer option \<Rightarrow> rtp_server option \<Rightarrow> rtp_transport \<Rightarrow>
   (nat \<times> nat) option \<times> framenum_t result \<times> rtp_server option \<times> rtp_transport"
where
  "dispatch_rtp E frame buffer server T =
     (if rt_session T = None then (None, internal_error ''Missing playback session'', server, T)
      else (case server of
          None \<Rightarrow> (None, internal_error ''RTP server unavailable'', server, T)
        | Some S0 \<Rightarrow>
            if \<not> isServerReady S0 then (None, internal_error ''RTP server unavailable'', server, T)
            else (let g = lease_generation (rt_lease T); S1 = te_others E 0 S0 in
              if isGenerationTripped g S1
              then (let (e, T1) = markTerminalFailure S1 T in (None, Inl e, Some S1, T1))
              else (let S2 = te_others E 1 S1 in
                if \<not> isCurrentOutput (rt_lease T) S2 then
                  (let S3 = te_others E 2 S2 in
                   if isGenerationTripped g S3
                   then (let (e, T1) = markTerminalFailure S3 T in (None, Inl e, Some S3, T1))
                   else (None, Inr frame, Some S3, T\<lparr>rt_stopped := True\<rparr>))
                else (let (p, r, S3, T1) = dispatch_current E frame buffer S2 T in (p, r, Some S3, T1))))))"

definition next_dispatch_rtp :: "rtp_transport \<Rightarrow> framenum_t option" where
  "next_dispatch_rtp T =
     (if \<not> rt_started T \<or> rt_stopped T \<or> rt_totalFrames T \<le> rt_frameIndex T then None
      else Some (rt_nextDispatch T))"

definition finished_rtp :: "rtp_transport \<Rightarrow> bool" where
  "finished_rtp T =
     (if rt_stopped T then True
      else if \<not> rt_started T \<or> rt_frameIndex T < rt_totalFrames T then False
      else \<not> rt_finalQueued T)"

section \<open>Packets on time\<close>

lemma dispatchStep_10 [simp]: "dispatchStep = 10"
  by (simp add: dispatchStep_def RTP_FRAME_MS_def EVENT_LOOP_PERIOD_MS_def)

text \<open>The transport's position against a session that started at \<open>start\<close>.\<close>

definition in_step :: "framenum_t \<Rightarrow> rtp_transport \<Rightarrow> bool" where
  "in_step start T \<longleftrightarrow> unat (rt_nextDispatch T) = unat start + 10 * rt_frameIndex T \<and>
     rt_frameIndex T \<le> rt_totalFrames T \<and> unat start + 10 * (rt_totalFrames T + 1) < 2 ^ 64"

definition on_time :: "framenum_t \<Rightarrow> nat \<Rightarrow> framenum_t \<Rightarrow> bool" where
  "on_time start k frame \<longleftrightarrow> unat start + 10 * k \<le> unat frame \<and> unat frame < unat start + 10 * (k + 1)"

text \<open>No packet will follow.\<close>

definition no_more :: "rtp_transport \<Rightarrow> bool" where
  "no_more T \<longleftrightarrow> rt_stopped T \<or> rt_totalFrames T \<le> rt_frameIndex T"

lemma unat_of_nat_small: "n < 2 ^ 64 \<Longrightarrow> unat (of_nat n :: u64) = n"
  by (simp add: unat_of_nat take_bit_nat_eq_self)

lemma unat_add_small: "unat (a :: u64) + n < 2 ^ 64 \<Longrightarrow> unat (a + of_nat n) = unat a + n"
  by (simp add: unat_word_ariths unat_of_nat_small take_bit_nat_eq_self)

lemma skip_late_in_step:
  assumes s: "in_step start T" and f: "rt_nextDispatch T \<le> frame" and m: "rt_frameIndex T < rt_totalFrames T"
  shows "in_step start (skip_late frame T) \<and>
    (rt_frameIndex (skip_late frame T) < rt_totalFrames T \<longrightarrow> on_time start (rt_frameIndex (skip_late frame T)) frame)"
proof -
  define n where "n = frames_to_skip frame T"
  define d where "d = unat frame - unat (rt_nextDispatch T)"
  have d: "unat (frame - rt_nextDispatch T) = d" using f by (simp add: d_def unat_sub)
  have dd: "unat frame = unat (rt_nextDispatch T) + d" using f by (simp add: d_def word_le_nat_alt)
  have n: "n = min (d div 10) (rt_totalFrames T - rt_frameIndex T)"
  proof (cases "rt_nextDispatch T < frame")
    case True
    then show ?thesis by (simp add: n_def frames_to_skip_def d)
  next
    case False
    then have "frame = rt_nextDispatch T" using f by simp
    then show ?thesis using False by (simp add: n_def frames_to_skip_def d_def)
  qed
  have le: "n \<le> rt_totalFrames T - rt_frameIndex T" "n \<le> d div 10" using n by simp_all
  have pos: "unat (rt_nextDispatch T) = unat start + 10 * rt_frameIndex T" "unat start + 10 * (rt_totalFrames T + 1) < 2 ^ 64"
    using s by (simp_all add: in_step_def)
  then have "unat (rt_nextDispatch T) + n * 10 < 2 ^ 64" using le m by simp
  then have nd: "unat (rt_nextDispatch T + of_nat (n * 10)) = unat (rt_nextDispatch T) + n * 10"
    by (rule unat_add_small)
  have "on_time start (rt_frameIndex T + n) frame" if "rt_frameIndex T + n < rt_totalFrames T"
  proof -
    have "n = d div 10" using n that by (auto simp: min_def split: if_splits)
    then show ?thesis using dd pos by (auto simp: on_time_def)
  qed
  then show ?thesis
    using nd pos le m by (simp add: skip_late_def in_step_def flip: n_def)
qed

lemma skip_late_frame [simp]:
  "rt_totalFrames (skip_late frame T) = rt_totalFrames T" "rt_stopped (skip_late frame T) = rt_stopped T"
  "rt_finalQueued (skip_late frame T) = rt_finalQueued T" "rt_session (skip_late frame T) = rt_session T"
  "rt_drainTicks (skip_late frame T) = rt_drainTicks T" "rt_started (skip_late frame T) = rt_started T"
  "rt_frameIndex (skip_late frame T) = rt_frameIndex T + frames_to_skip frame T"
  by (simp_all add: skip_late_def)

text \<open>One call: the invariant, and where the accepted packet stands.\<close>

definition step_ok :: "framenum_t \<Rightarrow> framenum_t \<Rightarrow> rtp_transport \<Rightarrow> (nat \<times> nat) option \<Rightarrow> rtp_transport \<Rightarrow> bool" where
  "step_ok start frame T p T' \<longleftrightarrow> in_step start T' \<and> rt_totalFrames T' = rt_totalFrames T \<and>
     (case p of
        None \<Rightarrow> no_more T' \<or> rt_frameIndex T' = rt_frameIndex T
      | Some (k, skip) \<Rightarrow> \<not> no_more T \<and> k = rt_frameIndex T + skip \<and> rt_frameIndex T' = k + 1 \<and>
          on_time start k frame) \<and> (no_more T \<longrightarrow> no_more T')"

lemma step_ok_refl: "in_step start T \<Longrightarrow> step_ok start frame T None T"
  by (simp add: step_ok_def)

lemma step_ok_stop: "in_step start T \<Longrightarrow> step_ok start frame T None (T\<lparr>rt_stopped := True\<rparr>)"
  by (simp add: step_ok_def in_step_def no_more_def)

lemma step_ok_dispatch_frame:
  assumes s: "in_step start T" and f: "rt_nextDispatch T \<le> frame" and m: "\<not> no_more T"
    and r: "dispatch_frame E frame buffer S T = (p, r, S', T')"
  shows "step_ok start frame T p T'"
proof -
  define T1 where "T1 = skip_late frame T"
  define k where "k = rt_frameIndex T1"
  have lt: "rt_frameIndex T < rt_totalFrames T" using m by (simp add: no_more_def)
  note sk = skip_late_in_step [OF s f lt]
  have T1: "in_step start T1" "rt_totalFrames T1 = rt_totalFrames T" "k = rt_frameIndex T + frames_to_skip frame T"
    using sk by (simp_all add: T1_def k_def)
  show ?thesis
  proof (cases "rt_totalFrames T \<le> k")
    case True
    then have "p = None \<and> T' = T1"
      using r by (auto simp: dispatch_frame_def Let_def T1_def [symmetric] k_def [symmetric] T1(2))
    then show ?thesis
      using T1 True lt by (simp add: step_ok_def no_more_def k_def)
  next
    case False
    have F: "\<not> rt_totalFrames T1 \<le> k" using False T1(2) by simp
    consider b where "p = Some (k, frames_to_skip frame T)" "T' = T1\<lparr>rt_frameIndex := k + 1, rt_finalQueued := b,
        rt_nextDispatch := rt_nextDispatch T1 + of_nat dispatchStep\<rparr>"
      | "p = None" "T' = T1\<lparr>rt_stopped := True\<rparr>"
      using r F unfolding dispatch_frame_def Let_def T1_def [symmetric] k_def [symmetric]
      by (auto split: prod.splits enqueue_result.splits)
    then show ?thesis
    proof cases
      case 1
      have "unat (rt_nextDispatch T1) + 10 < 2 ^ 64" using T1 False by (simp add: in_step_def k_def)
      then have "unat (rt_nextDispatch T1 + 10) = unat (rt_nextDispatch T1) + 10"
        using unat_add_small [of "rt_nextDispatch T1" 10] by simp
      moreover have "on_time start k frame" using sk False by (simp add: k_def T1_def)
      ultimately show ?thesis
        using 1 T1 False m by (simp add: step_ok_def in_step_def k_def)
    next
      case 2
      then show ?thesis using T1 by (simp add: step_ok_def in_step_def no_more_def)
    qed
  qed
qed

lemma drain_tick_frame:
  assumes "drain_tick E frame S T = (r, S', T')"
  shows "rt_frameIndex T' = rt_frameIndex T \<and> rt_totalFrames T' = rt_totalFrames T \<and>
    rt_nextDispatch T' = rt_nextDispatch T \<and> (rt_stopped T \<longrightarrow> rt_stopped T')"
  using assms by (auto simp: drain_tick_def Let_def split: if_splits)

lemma step_ok_dispatch:
  assumes s: "in_step start T" and r: "dispatch_rtp E frame buffer server T = (p, r, server', T')"
  shows "step_ok start frame T p T'"
proof -
  have cur: "step_ok start frame T p T1" if c: "dispatch_current E frame buffer S T = (p, q, S', T1)" for p q S S' T1
  proof -
    consider "p = None" "T1 = T" | q' S'' where "p = None" "drain_tick E frame S T = (q', S'', T1)"
      | "rt_nextDispatch T \<le> frame" "\<not> no_more T" "dispatch_frame E frame buffer S T = (p, q, S', T1)"
      using c by (auto simp: dispatch_current_def no_more_def not_less split: if_splits)
    then show ?thesis
    proof cases
      case 1
      then show ?thesis using step_ok_refl [OF s] by simp
    next
      case 2
      then show ?thesis using drain_tick_frame [OF 2(2)] s by (simp add: step_ok_def in_step_def no_more_def)
    next
      case 3
      then show ?thesis using step_ok_dispatch_frame [OF s] by blast
    qed
  qed
  have "step_ok start frame T None (T\<lparr>rt_stopped := True, rt_terminal := b\<rparr>)" for b
    using s by (simp add: step_ok_def in_step_def no_more_def)
  then show ?thesis
    using r step_ok_refl [OF s, of frame] step_ok_stop [OF s, of frame] cur
    by (auto simp: dispatch_rtp_def Let_def markTerminalFailure_def split: if_splits option.splits prod.splits)
qed


section \<open>A whole playback\<close>

text \<open>
  The runner's calls on one transport: each with the frame it runs at, what the other threads did
  and the session's audio buffer. The log lists the packets the server accepted.
\<close>

fun dispatch_all ::
  "(thread_env \<times> framenum_t \<times> audio_stream_buffer option) list \<Rightarrow> rtp_server option \<Rightarrow> rtp_transport \<Rightarrow>
   (framenum_t \<times> nat \<times> nat) list \<times> rtp_server option \<times> rtp_transport"
where
  "dispatch_all [] server T = ([], server, T)"
| "dispatch_all ((E, frame, buffer) # cs) server T =
     (let (p, r, server1, T1) = dispatch_rtp E frame buffer server T;
          (log, server2, T2) = dispatch_all cs server1 T1
      in ((case p of None \<Rightarrow> log | Some (k, skip) \<Rightarrow> (frame, k, skip) # log), server2, T2))"

text \<open>Packets from position \<open>n\<close> on: each in its own time slot, each carrying exactly the skip to it.\<close>

fun in_schedule :: "framenum_t \<Rightarrow> nat \<Rightarrow> (framenum_t \<times> nat \<times> nat) list \<Rightarrow> bool" where
  "in_schedule start n [] = True"
| "in_schedule start n ((frame, k, skip) # log) =
     (k = n + skip \<and> on_time start k frame \<and> in_schedule start (k + 1) log)"

lemma dispatch_all_in_schedule:
  assumes "in_step start T" "dispatch_all cs server T = (log, server', T')"
  shows "in_schedule start (rt_frameIndex T) log \<and> in_step start T' \<and> (no_more T \<longrightarrow> log = [])"
  using assms
proof (induction cs arbitrary: server T log server' T')
  case (Cons c cs)
  obtain E frame buffer where c: "c = (E, frame, buffer)" by (rule prod_cases3)
  obtain p r server1 T1 where d: "dispatch_rtp E frame buffer server T = (p, r, server1, T1)" by (rule prod_cases4)
  obtain log1 server2 T2 where a: "dispatch_all cs server1 T1 = (log1, server2, T2)" by (rule prod_cases3)
  note ok = step_ok_dispatch [OF Cons.prems(1) d]
  then have IH: "in_schedule start (rt_frameIndex T1) log1" "in_step start T2" "no_more T1 \<longrightarrow> log1 = []"
    using Cons.IH [OF _ a] by (simp_all add: step_ok_def)
  show ?case
  proof (cases p)
    case None
    then have "log = log1 \<and> T' = T2" using Cons.prems(2) c d a by simp
    then show ?thesis using ok IH None by (auto simp: step_ok_def)
  next
    case (Some q)
    obtain k skip where "q = (k, skip)" by fastforce
    then have "log = (frame, k, skip) # log1 \<and> T' = T2" using Cons.prems(2) c d a Some by simp
    then show ?thesis using ok IH Some \<open>q = (k, skip)\<close> by (auto simp: step_ok_def)
  qed
qed simp


section \<open>The final frame\<close>

definition keeps_ready :: "thread_env \<Rightarrow> bool" where
  "keeps_ready E \<longleftrightarrow> (\<forall>k S. isServerReady S \<longrightarrow> isServerReady (te_others E k S))"

definition draining :: "nat \<Rightarrow> rtp_transport \<Rightarrow> bool" where
  "draining n T \<longleftrightarrow> rt_session T \<noteq> None \<and> rt_started T \<and> rt_finalQueued T \<and> rt_totalFrames T \<le> rt_frameIndex T \<and>
     (rt_stopped T \<or> rt_drainTicks T \<le> MAX_FINAL_DRAIN_TICKS \<and> MAX_FINAL_DRAIN_TICKS < rt_drainTicks T + n)"

lemma releaseOutput_ready [simp]: "isServerReady (releaseOutput b l S) = isServerReady S"
  by (simp add: releaseOutput_def purge_generation_def releaseGeneration_def unready_def end_rtcp_def release_lease_def)

lemma draining_step:
  assumes D: "draining (Suc n) T" and E: "keeps_ready E" and f: "rt_nextDispatch T \<le> frame" and S: "isServerReady S"
    and r: "dispatch_rtp E frame buffer (Some S) T = (p, q, server', T')"
  shows "p = None \<and> draining n T' \<and> rt_nextDispatch T' = rt_nextDispatch T \<and> (\<exists>S'. server' = Some S' \<and> isServerReady S')"
proof -
  have R: "isServerReady (te_others E k S)" if "isServerReady S" for k S using E that by (simp add: keeps_ready_def)
  have cur: "dispatch_current E frame buffer S T = (None, drain_tick E frame S T)" for S
    using D leD [OF f] by (simp add: dispatch_current_def draining_def)
  have dt: "draining n T1 \<and> rt_nextDispatch T1 = rt_nextDispatch T \<and> isServerReady S1 = isServerReady S"
    if "drain_tick E frame S T = (q, S1, T1)" for q S S1 T1
    using D that by (auto simp: drain_tick_def draining_def Let_def split: if_splits)
  have st: "draining n (T\<lparr>rt_stopped := True, rt_terminal := b\<rparr>)" "draining n (T\<lparr>rt_stopped := True\<rparr>)" for b
    using D by (simp_all add: draining_def)
  show ?thesis
    using r D S R st dt
    by (auto simp: dispatch_rtp_def Let_def markTerminalFailure_def draining_def cur split: if_splits option.splits prod.splits)
qed


lemma dispatch_all_draining:
  assumes "draining n T" "isServerReady S" "length cs = n"
    and "list_all (\<lambda>(E, frame, buffer). keeps_ready E \<and> rt_nextDispatch T \<le> frame) cs"
    and "dispatch_all cs (Some S) T = (log, server', T')"
  shows "log = [] \<and> draining 0 T'"
  using assms
proof (induction cs arbitrary: n S T log server' T')
  case (Cons c cs)
  obtain E frame buffer where c: "c = (E, frame, buffer)" by (rule prod_cases3)
  obtain p r server1 T1 where d: "dispatch_rtp E frame buffer (Some S) T = (p, r, server1, T1)" by (rule prod_cases4)
  obtain log1 server2 T2 where a: "dispatch_all cs server1 T1 = (log1, server2, T2)" by (rule prod_cases3)
  obtain m where m: "n = Suc m" "length cs = m" using Cons.prems(3) by auto
  have D: "draining (Suc m) T" and E: "keeps_ready E" and f: "rt_nextDispatch T \<le> frame"
    using Cons.prems(1,4) m c by simp_all
  obtain S1 where S1: "p = None" "draining m T1" "rt_nextDispatch T1 = rt_nextDispatch T" "server1 = Some S1" "isServerReady S1"
    using draining_step [OF D E f Cons.prems(2) d] by blast
  have "list_all (\<lambda>(E, frame, buffer). keeps_ready E \<and> rt_nextDispatch T1 \<le> frame) cs"
    using Cons.prems(4) S1(3) by simp
  then have "log1 = [] \<and> draining 0 T2"
    using Cons.IH [OF S1(2) S1(5) m(2)] a S1(4) by blast
  then show ?case using Cons.prems(5) c d a S1(1) by simp
qed simp


section \<open>The decoder-priming events\<close>

text \<open>
  \<open>RtpEncoderResetEvent\<close> and \<open>RtpSilentFrameEvent\<close>: the result, the events they schedule and the
  server. \<open>loop_up\<close> says that \<open>eventLoop\<close> is not null.
\<close>

definition reset_executeImpl ::
  "bool \<Rightarrow> bool \<Rightarrow> framenum_t \<Rightarrow> rtp_lease \<Rightarrow> async_trace \<Rightarrow> rtp_server option \<Rightarrow>
   framenum_t result \<times> server_event event list \<times> rtp_server option"
where
  "reset_executeImpl got_lock loop_up f l tr server = (case server of
     None \<Rightarrow> (internal_error ''RTP server not available for encoder reset'', [], None)
   | Some S \<Rightarrow>
       if \<not> isServerReady S then (internal_error ''RTP server not available for encoder reset'', [], Some S)
       else (let tr1 = tr\<lparr>tr_enqueueFrame := f\<rparr>; (res, S1) = enqueueReset l tr1 S in
         if res = StaleLease then (Inr f, [], Some S1)
         else if res \<noteq> Accepted
         then (internal_error (''RTP reset enqueue failed with result '' @ dec (enqueue_code res)), [],
               Some (releaseOutput got_lock l S1))
         else if \<not> loop_up
         then (internal_error ''Event loop unavailable for RTP decoder priming'', [], Some (releaseOutput got_lock l S1))
         else (Inr f, [(f, RtpSilent l (of_nat RTP_PRIMING_FRAMES) tr1)], Some S1)))"

definition silent_executeImpl ::
  "bool \<Rightarrow> bool \<Rightarrow> framenum_t \<Rightarrow> rtp_lease \<Rightarrow> u8 \<Rightarrow> async_trace \<Rightarrow> rtp_server option \<Rightarrow>
   framenum_t result \<times> server_event event list \<times> rtp_server option"
where
  "silent_executeImpl got_lock loop_up f l remaining tr server =
     (if remaining = 0 then (Inr f, [], server)
      else (case server of
          None \<Rightarrow> (internal_error ''RTP server unavailable during decoder priming'', [], None)
        | Some S \<Rightarrow>
            if \<not> isServerReady S then (internal_error ''RTP server unavailable during decoder priming'', [], Some S)
            else (let tr1 = tr\<lparr>tr_enqueueFrame := f\<rparr>;
                      (res, S1) = enqueueSilentFrame l (unat (of_nat RTP_PRIMING_FRAMES - remaining)) tr1 S in
              if res = StaleLease then (Inr f, [], Some S1)
              else if res \<noteq> Accepted
              then (internal_error (''RTP silent frame enqueue failed with result '' @ dec (enqueue_code res)), [],
                    Some (releaseOutput got_lock l S1))
              else if 1 < remaining
              then (if \<not> loop_up then (internal_error ''Event loop unavailable during decoder priming'', [], Some S1)
                    else (Inr f, [(f + of_nat dispatchStep, RtpSilent l (remaining - 1) tr1)], Some S1))
              else (Inr f, [], Some S1))))"

text \<open>
  The chain of priming events from the reset event on, the server as it is when each one runs.
\<close>

fun priming_chain ::
  "(nat \<Rightarrow> rtp_server \<Rightarrow> rtp_server) \<Rightarrow> nat \<Rightarrow> server_event event list \<Rightarrow> rtp_server option \<Rightarrow>
   (framenum_t \<times> nat) list \<times> rtp_server option"
where
  "priming_chain others (Suc n) [(f, RtpSilent l remaining tr)] (Some S) =
     (let S0 = others n S;
          (r, es, server) = silent_executeImpl True True f l remaining tr (Some S0);
          (log, server') = priming_chain others n es server
      in (if fst (enqueueSilentFrame l (unat (of_nat RTP_PRIMING_FRAMES - remaining)) (tr\<lparr>tr_enqueueFrame := f\<rparr>) S0) = Accepted
          then ((f, unat (of_nat RTP_PRIMING_FRAMES - remaining)) # log, server') else (log, server')))"
| "priming_chain others n es server = ([], server)"


lemma silent_event_next:
  assumes "silent_executeImpl b up f l w tr server = (r, es, server')"
  shows "es = [] \<or> 1 < w \<and> es = [(f + 10, RtpSilent l (w - 1) (tr\<lparr>tr_enqueueFrame := f\<rparr>))]"
  using assms by (auto simp: silent_executeImpl_def Let_def split: if_splits option.splits prod.splits)

lemma silent_event_accepted:
  assumes "silent_executeImpl b up f l w tr (Some S) = (r, es, server')" "w \<noteq> 0" "es \<noteq> []"
  shows "fst (enqueueSilentFrame l (unat (of_nat RTP_PRIMING_FRAMES - w)) (tr\<lparr>tr_enqueueFrame := f\<rparr>) S) = Accepted"
  using assms by (auto simp: silent_executeImpl_def Let_def split: if_splits prod.splits)

definition priming_plan :: "nat \<Rightarrow> framenum_t \<Rightarrow> (framenum_t \<times> nat) list" where
  "priming_plan m f = map (\<lambda>i. (f + of_nat (10 * i), 4 - m + i)) [0 ..< m]"

lemma priming_plan_Suc:
  assumes "Suc m \<le> 4" shows "priming_plan (Suc m) f = (f, 4 - Suc m) # priming_plan m (f + 10)"
proof -
  have "[0 ..< Suc m] = 0 # map Suc [0 ..< m]" by (simp add: map_Suc_upt upt_conv_Cons)
  then show ?thesis using assms by (simp add: priming_plan_def algebra_simps Suc_diff_Suc)
qed

lemma priming_chain_prefix:
  assumes "unat w = m" "m \<le> 4"
  shows "prefix (fst (priming_chain others n [(f, RtpSilent l w tr)] server)) (priming_plan m f)"
  using assms
proof (induction m arbitrary: w f tr n server)
  case 0
  then have w: "w = 0" by (simp add: unat_eq_0)
  show ?case
  proof (cases n)
    case (Suc n')
    then show ?thesis
    proof (cases server)
      case (Some S)
      have "priming_chain others n' [] server' = ([], server')" for server' by (cases n') simp_all
      then show ?thesis using Suc Some w
        by (simp add: silent_executeImpl_def priming_plan_def enqueueSilentFrame_def RTP_PRIMING_FRAMES_def Let_def)
    qed simp
  qed simp
next
  case (Suc m)
  show ?case
  proof (cases "n = 0 \<or> server = None")
    case True
    then show ?thesis by (cases n; cases server) simp_all
  next
    case False
    then obtain n' S where n: "n = Suc n'" "server = Some S" by (cases n) auto
    have w: "w \<noteq> 0" "unat (4 - w) = 4 - Suc m" "unat (w - 1) = m"
      using Suc.prems unat_sub [of w "4 :: u8"] unat_sub [of "1 :: u8" w]
      by (auto simp: word_le_nat_alt unat_eq_0)
    obtain r es server1 where e: "silent_executeImpl True True f l w tr (Some (others n' S)) = (r, es, server1)"
      by (rule prod_cases3)
    obtain log server2 where c: "priming_chain others n' es server1 = (log, server2)" by fastforce
    have k: "unat (of_nat RTP_PRIMING_FRAMES - w) = 4 - Suc m" using w by (simp add: RTP_PRIMING_FRAMES_def)
    show ?thesis
    proof (cases "es = []")
      case True
      then have "log = []" using c by (cases n') auto
      then show ?thesis using n e c k Suc.prems(2) by (simp add: priming_plan_Suc Let_def)
    next
      case False
      have acc: "fst (enqueueSilentFrame l (4 - Suc m) (tr\<lparr>tr_enqueueFrame := f\<rparr>) (others n' S)) = Accepted"
        using silent_event_accepted [OF e w(1) False] k by simp
      have "es = [(f + 10, RtpSilent l (w - 1) (tr\<lparr>tr_enqueueFrame := f\<rparr>))]"
        using silent_event_next [OF e] False by blast
      then have "prefix log (priming_plan m (f + 10))"
        using Suc.IH [OF w(3), of n' "f + 10" "tr\<lparr>tr_enqueueFrame := f\<rparr>" server1] c Suc.prems(2) by simp
      then show ?thesis using n e c k acc Suc.prems(2) by (simp add: priming_plan_Suc Let_def)
    qed
  qed
qed

text \<open>
  The decoders are primed only before the sound: the silent frames queued after a reset at frame
  \<open>f\<close> are the first ones of (f, 0), (f + 10, 1), (f + 20, 2), (f + 30, 3), in this order and
  without repetition, whatever happens to the server in between; the scheduler starts the sound at
  \<open>f + 40\<close>.
\<close>

theorem priming_precedes_audio:
  assumes "reset_executeImpl b True f l tr (Some S) = (r, es, server)"
  shows "prefix (fst (priming_chain others n es server)) [(f, 0), (f + 10, 1), (f + 20, 2), (f + 30, 3)]"
proof -
  have "es = [] \<or> es = [(f, RtpSilent l 4 (tr\<lparr>tr_enqueueFrame := f\<rparr>))]"
    using assms by (auto simp: reset_executeImpl_def RTP_PRIMING_FRAMES_def Let_def split: if_splits prod.splits)
  moreover have "priming_plan 4 f = [(f, 0), (f + 10, 1), (f + 20, 2), (f + 30, 3)]"
    by (simp add: priming_plan_def upt_rec)
  moreover have "fst (priming_chain others n [] server) = []" by (cases n; cases server) simp_all
  ultimately show ?thesis
    using priming_chain_prefix [of "4 :: u8" 4 others n f l "tr\<lparr>tr_enqueueFrame := f\<rparr>" server] by auto
qed


section \<open>Witnesses\<close>

definition demo_output :: rtp_server where
  "demo_output = snd (acquireOutput ''show'' (new_rtp_server default_breaker_config
     (case new_rtcp_sender 1 None True of Inr s \<Rightarrow> s) (replicate 17 0) 0 (replicate 17 [[1], [2], [3], [4]])))"

definition demo_sound :: audio_stream_buffer where
  "demo_sound = \<lparr>numberOfFramesPerChannel = 3, encodedOpusFrames = replicate 17 [[1], [2], [3]]\<rparr>"

definition demo_alone :: thread_env where
  "demo_alone = \<lparr>te_others = (\<lambda>_ S. S), te_got_lock = True\<rparr>"

definition demo_transport :: rtp_transport where
  "demo_transport = snd (snd (start_rtp demo_alone (Some (''s'', 100, Some demo_sound)) (Some demo_output)
     (setOutputLease \<lparr>lease_generation = 1, lease_ownerId = ''show''\<rparr> no_trace new_rtp_transport)))"

definition demo_calls :: "(thread_env \<times> framenum_t \<times> audio_stream_buffer option) list" where
  "demo_calls = [(demo_alone, 100, Some demo_sound), (demo_alone, 105, Some demo_sound), (demo_alone, 121, Some demo_sound)]"


definition demo_waiting :: rtp_transport where
  "demo_waiting = snd (snd (dispatch_all demo_calls (Some demo_output) demo_transport))"


end
