(* ===== verification/Audio_Loader.thy ===== *)
theory Audio_Loader
  imports Prelude
begin

text \<open>
  \<open>AudioLoadExecutor\<close> (src/src/server/rtp/AudioLoadExecutor.h and .cpp): the bounded pool that
  reads and encodes sound files. A job is a bundle of closures; the variables they captured are
  the value \<open>captured\<close>, a closure that may be empty is a flag, and what a closure answers when it
  is called is an argument (\<open>None\<close>: it threw). Every critical section of the queue mutex is one
  function; \<open>loader_step\<close> interleaves them. Telemetry is not modelled beyond its counters.
\<close>

section \<open>State\<close>

datatype submit_result = SubmitAccepted | SubmitQueueFull | SubmitShuttingDown
datatype cancellation_reason = SessionCancelled | LoaderShutdown

record 'p load_job =
  lj_id :: string
  captured :: 'p
  hasIsCancelled :: bool
  hasRun :: bool
  hasOnFailure :: bool
  hasOnCancelled :: bool

record 'p cancellation_notification =
  cn_id :: string
  cn_reason :: cancellation_reason
  cn_captured :: 'p

record 'p audio_loader =
  workerCount :: u64
  queueCapacity :: u64
  loadQueue :: "'p load_job list"
  cancellationNotifications :: "'p cancellation_notification list"
  accepting :: bool
  shuttingDown :: bool
  reservations :: u64
  inFlight :: u64
  load_active :: u64
  load_queued :: u64
  load_reserved :: u64
  stopRequested :: bool
  load_accepted :: u64
  load_completed :: u64
  load_rejected :: u64
  load_cancelled :: u64
  load_failed :: u64

text \<open>The constructor, \<open>None\<close> when it throws \<open>invalid_argument\<close>.\<close>

definition new_audio_loader :: "u64 \<Rightarrow> u64 \<Rightarrow> 'p audio_loader option" where
  "new_audio_loader workers capacity =
     (if workers = 0 \<or> capacity = 0 then None
      else Some \<lparr>workerCount = workers, queueCapacity = capacity, loadQueue = [],
        cancellationNotifications = [], accepting = True, shuttingDown = False, reservations = 0,
        inFlight = 0, load_active = 0, load_queued = 0, load_reserved = 0, stopRequested = False,
        load_accepted = 0, load_completed = 0, load_rejected = 0, load_cancelled = 0, load_failed = 0\<rparr>)"

section \<open>Admission\<close>

definition MAX_CANCELLATION_CHECKS_PER_ADMISSION :: nat where
  "MAX_CANCELLATION_CHECKS_PER_ADMISSION = 64"

text \<open>A predicate that throws while the queue is pruned leaves its job queued.\<close>

definition job_cancelled :: "('p \<Rightarrow> bool option) \<Rightarrow> 'p load_job \<Rightarrow> bool" where
  "job_cancelled probe j \<longleftrightarrow> hasIsCancelled j \<and> probe (captured j) = Some True"

fun take_cancelled :: "('p \<Rightarrow> bool option) \<Rightarrow> nat \<Rightarrow> 'p load_job list \<Rightarrow> 'p load_job list \<times> 'p load_job list" where
  "take_cancelled probe 0 q = ([], q)"
| "take_cancelled probe (Suc n) [] = ([], [])"
| "take_cancelled probe (Suc n) (j # q) =
     (let (discarded, kept) = take_cancelled probe n q
      in if job_cancelled probe j then (j # discarded, kept) else (discarded, j # kept))"

fun enqueue_notifications ::
  "nat \<Rightarrow> cancellation_reason \<Rightarrow> 'p load_job list \<Rightarrow> 'p cancellation_notification list \<Rightarrow>
   'p cancellation_notification list"
where
  "enqueue_notifications cap reason [] N = N"
| "enqueue_notifications cap reason (j # js) N =
     (if \<not> hasOnCancelled j then enqueue_notifications cap reason js N
      else if length N \<ge> cap then N
      else enqueue_notifications cap reason js
             (N @ [\<lparr>cn_id = lj_id j, cn_reason = reason, cn_captured = captured j\<rparr>]))"

definition prune_cancelled :: "('p \<Rightarrow> bool option) \<Rightarrow> 'p audio_loader \<Rightarrow> 'p audio_loader" where
  "prune_cancelled probe L =
     (let (discarded, kept) = take_cancelled probe MAX_CANCELLATION_CHECKS_PER_ADMISSION (loadQueue L)
      in L\<lparr>loadQueue := kept, load_cancelled := load_cancelled L + of_nat (length discarded),
           inFlight := inFlight L - of_nat (length discarded),
           cancellationNotifications := enqueue_notifications (unat (queueCapacity L)) SessionCancelled
             discarded (cancellationNotifications L)\<rparr>)"

definition tryReserve :: "('p \<Rightarrow> bool option) \<Rightarrow> 'p audio_loader \<Rightarrow> submit_result \<times> 'p audio_loader" where
  "tryReserve probe L =
     (if stopRequested L \<or> \<not> accepting L
      then (SubmitShuttingDown, L\<lparr>load_rejected := load_rejected L + 1\<rparr>)
      else (let L1 = prune_cancelled probe L;
                L2 = L1\<lparr>load_queued := of_nat (length (loadQueue L1))\<rparr>
            in if workerCount L2 + queueCapacity L2 \<le> inFlight L2
               then (SubmitQueueFull, L2\<lparr>load_rejected := load_rejected L2 + 1\<rparr>)
               else (SubmitAccepted, L2\<lparr>inFlight := inFlight L2 + 1, reservations := reservations L2 + 1,
                       load_reserved := reservations L2 + 1\<rparr>)))"

text \<open>
  \<open>submit(Reservation, Job)\<close>: \<open>valid\<close> says the token is this executor's and not yet consumed;
  otherwise the call throws (\<open>None\<close>).
\<close>

definition submit_reserved ::
  "bool \<Rightarrow> 'p load_job \<Rightarrow> 'p audio_loader \<Rightarrow> submit_result option \<times> 'p audio_loader"
where
  "submit_reserved valid j L =
     (if \<not> valid then (None, L)
      else if shuttingDown L
      then (Some SubmitShuttingDown, L\<lparr>reservations := reservations L - 1, inFlight := inFlight L - 1,
              load_reserved := reservations L - 1, load_rejected := load_rejected L + 1\<rparr>)
      else (Some SubmitAccepted, L\<lparr>loadQueue := loadQueue L @ [j], reservations := reservations L - 1,
              load_reserved := reservations L - 1, load_accepted := load_accepted L + 1,
              load_queued := of_nat (length (loadQueue L @ [j]))\<rparr>))"

definition submit_job ::
  "('p \<Rightarrow> bool option) \<Rightarrow> 'p load_job \<Rightarrow> 'p audio_loader \<Rightarrow> submit_result option \<times> 'p audio_loader"
where
  "submit_job probe j L = (case tryReserve probe L of
     (SubmitAccepted, L1) \<Rightarrow> submit_reserved True j L1
   | (r, L1) \<Rightarrow> (Some r, L1))"

definition releaseReservation :: "'p audio_loader \<Rightarrow> 'p audio_loader" where
  "releaseReservation L =
     (if reservations L = 0 \<or> inFlight L = 0 then L
      else L\<lparr>reservations := reservations L - 1, inFlight := inFlight L - 1,
             load_reserved := reservations L - 1\<rparr>)"

section \<open>Shutdown\<close>

text \<open>
  The store before the lock, the entry of the critical section, and the rest of it once the
  condition variable has seen no reservation (\<open>None\<close>: still waiting).
\<close>

definition request_stop :: "'p audio_loader \<Rightarrow> 'p audio_loader" where
  "request_stop L = L\<lparr>stopRequested := True\<rparr>"

definition close_admission :: "'p audio_loader \<Rightarrow> 'p audio_loader" where
  "close_admission L = (if shuttingDown L then L else L\<lparr>accepting := False\<rparr>)"

definition finish_shutdown :: "'p audio_loader \<Rightarrow> ('p load_job list \<times> 'p audio_loader) option" where
  "finish_shutdown L =
     (if reservations L \<noteq> 0 then None
      else Some (loadQueue L, L\<lparr>shuttingDown := True, loadQueue := [],
             inFlight := inFlight L - of_nat (length (loadQueue L)), load_queued := 0,
             load_cancelled := load_cancelled L + of_nat (length (loadQueue L))\<rparr>))"

section \<open>Workers\<close>

datatype 'p worker = Waiting | Notifying "'p cancellation_notification" | Holding "'p load_job" | Settling | Exited

text \<open>The first critical section of the loop, \<open>None\<close> while the condition variable waits.\<close>

definition worker_take :: "'p audio_loader \<Rightarrow> ('p worker \<times> 'p audio_loader) option" where
  "worker_take L = (case cancellationNotifications L of
     n # N \<Rightarrow> Some (Notifying n, L\<lparr>cancellationNotifications := N\<rparr>)
   | [] \<Rightarrow>
       if shuttingDown L then Some (Exited, L)
       else (case loadQueue L of
          j # q \<Rightarrow> Some (Holding j, L\<lparr>loadQueue := q, load_queued := of_nat (length q),
                    load_active := load_active L + 1\<rparr>)
        | [] \<Rightarrow> None))"

datatype load_outcome = LoadCompleted | LoadFailed | LoadCancelled

text \<open>The try block: \<open>run_ok\<close> says that \<open>run\<close> returned.\<close>

definition load_outcome_of :: "('p \<Rightarrow> bool option) \<Rightarrow> bool \<Rightarrow> 'p load_job \<Rightarrow> load_outcome" where
  "load_outcome_of probe run_ok j =
     (let run = (if hasRun j \<and> run_ok then LoadCompleted else LoadFailed) in
      if \<not> hasIsCancelled j then run
      else (case probe (captured j) of
          None \<Rightarrow> LoadFailed
        | Some True \<Rightarrow> LoadCancelled
        | Some False \<Rightarrow> run))"

definition settle_job :: "load_outcome \<Rightarrow> 'p audio_loader \<Rightarrow> 'p audio_loader" where
  "settle_job out L = (case out of
     LoadCompleted \<Rightarrow> L\<lparr>load_completed := load_completed L + 1\<rparr>
   | LoadFailed \<Rightarrow> L\<lparr>load_failed := load_failed L + 1\<rparr>
   | LoadCancelled \<Rightarrow> L\<lparr>load_cancelled := load_cancelled L + 1\<rparr>)"

definition release_slot :: "'p audio_loader \<Rightarrow> 'p audio_loader" where
  "release_slot L =
     (let L1 = L\<lparr>load_active := load_active L - 1\<rparr>
      in if inFlight L1 = 0 then L1 else L1\<lparr>inFlight := inFlight L1 - 1\<rparr>)"

section \<open>The concurrent system\<close>

text \<open>\<open>tokens\<close> counts the \<open>Reservation\<close> objects alive in the callers.\<close>

record 'p loader_system =
  loader :: "'p audio_loader"
  tokens :: nat
  workers :: "'p worker list"

inductive loader_step :: "'p loader_system \<Rightarrow> 'p loader_system \<Rightarrow> bool" where
  reserve: "tryReserve probe (loader S) = (r, L) \<Longrightarrow>
    loader_step S (S\<lparr>loader := L, tokens := tokens S + (if r = SubmitAccepted then 1 else 0)\<rparr>)"
| commit: "0 < tokens S \<Longrightarrow>
    loader_step S (S\<lparr>loader := snd (submit_reserved True j (loader S)), tokens := tokens S - 1\<rparr>)"
| discard: "0 < tokens S \<Longrightarrow>
    loader_step S (S\<lparr>loader := releaseReservation (loader S), tokens := tokens S - 1\<rparr>)"
| stop: "loader_step S (S\<lparr>loader := request_stop (loader S)\<rparr>)"
| close: "stopRequested (loader S) \<Longrightarrow> loader_step S (S\<lparr>loader := close_admission (loader S)\<rparr>)"
| finish: "\<not> accepting (loader S) \<Longrightarrow> finish_shutdown (loader S) = Some (js, L) \<Longrightarrow>
    loader_step S (S\<lparr>loader := L\<rparr>)"
| take: "i < length (workers S) \<Longrightarrow> workers S ! i = Waiting \<Longrightarrow> worker_take (loader S) = Some (w, L) \<Longrightarrow>
    loader_step S (S\<lparr>loader := L, workers := (workers S)[i := w]\<rparr>)"
| notified: "i < length (workers S) \<Longrightarrow> workers S ! i = Notifying n \<Longrightarrow>
    loader_step S (S\<lparr>workers := (workers S)[i := Waiting]\<rparr>)"
| settle: "i < length (workers S) \<Longrightarrow> workers S ! i = Holding j \<Longrightarrow>
    loader_step S (S\<lparr>loader := settle_job (load_outcome_of probe run_ok j) (loader S),
      workers := (workers S)[i := Settling]\<rparr>)"
| release: "i < length (workers S) \<Longrightarrow> workers S ! i = Settling \<Longrightarrow>
    loader_step S (S\<lparr>loader := release_slot (loader S), workers := (workers S)[i := Waiting]\<rparr>)"

definition start_loader :: "'p audio_loader \<Rightarrow> 'p loader_system" where
  "start_loader L = \<lparr>loader = L, tokens = 0, workers = replicate (unat (workerCount L)) Waiting\<rparr>"

section \<open>Accounting\<close>

fun is_busy :: "'p worker \<Rightarrow> bool" where
  "is_busy (Holding j) = True" | "is_busy Settling = True" | "is_busy w = False"

fun is_holding :: "'p worker \<Rightarrow> bool" where
  "is_holding (Holding j) = True" | "is_holding w = False"

definition busy :: "'p loader_system \<Rightarrow> nat" where
  "busy S = length (filter is_busy (workers S))"

definition holding_jobs :: "'p loader_system \<Rightarrow> nat" where
  "holding_jobs S = length (filter is_holding (workers S))"

lemma length_filter_update:
  assumes "i < length xs"
  shows "length (filter P (xs[i := x])) + of_bool (P (xs ! i)) = length (filter P xs) + of_bool (P x)"
proof -
  have "filter P xs = filter P (take i xs) @ filter P [xs ! i] @ filter P (drop (Suc i) xs)"
    using arg_cong [OF id_take_nth_drop [OF assms], of "filter P"] by simp
  then show ?thesis using assms by (simp add: upd_conv_take_nth_drop)
qed

text \<open>
  The slot accounting: every in-flight slot is a token, a queued job or a busy worker; they never
  exceed the pool and the queue together; every accepted job is completed, cancelled, failed,
  queued or held; and once the executor has shut down it holds no token and no queued job.
\<close>

definition slots_ok :: "'p loader_system \<Rightarrow> bool" where
  "slots_ok S \<longleftrightarrow> (let L = loader S in
     unat (workerCount L) + unat (queueCapacity L) < 2 ^ 64 \<and>
     length (workers S) = unat (workerCount L) \<and>
     unat (reservations L) = tokens S \<and>
     unat (inFlight L) = tokens S + length (loadQueue L) + busy S \<and>
     unat (inFlight L) \<le> unat (workerCount L) + unat (queueCapacity L))"

definition gauges_ok :: "'p loader_system \<Rightarrow> bool" where
  "gauges_ok S \<longleftrightarrow> (let L = loader S in
     load_active L = of_nat (busy S) \<and> load_queued L = of_nat (length (loadQueue L)) \<and>
     load_reserved L = reservations L \<and>
     length (cancellationNotifications L) \<le> unat (queueCapacity L) \<and>
     load_accepted L = load_completed L + load_cancelled L + load_failed L
       + of_nat (length (loadQueue L) + holding_jobs S))"

definition shutdown_ok :: "'p loader_system \<Rightarrow> bool" where
  "shutdown_ok S \<longleftrightarrow> (let L = loader S in
     (shuttingDown L \<longrightarrow> \<not> accepting L \<and> tokens S = 0 \<and> loadQueue L = []) \<and>
     (\<not> accepting L \<longrightarrow> stopRequested L))"

lemma take_cancelled_split:
  assumes "take_cancelled probe n q = (d, k)"
  shows "d = filter (job_cancelled probe) (take n q) \<and>
    k = filter (\<lambda>j. \<not> job_cancelled probe j) (take n q) @ drop n q"
  using assms
  by (induction probe n q arbitrary: d k rule: take_cancelled.induct) (auto split: prod.splits if_splits)

lemma length_filter_split: "length (filter P xs) + length (filter (\<lambda>x. \<not> P x) xs) = length xs"
  by (induction xs) auto

lemma take_cancelled_length: "take_cancelled probe n q = (d, k) \<Longrightarrow> length d + length k = length q"
  using take_cancelled_split [of probe n q d k] length_filter_split [of "job_cancelled probe" "take n q"]
  by auto

lemma enqueue_notifications_bound:
  "length N \<le> cap \<Longrightarrow> length (enqueue_notifications cap reason js N) \<le> cap"
  by (induction cap reason js N rule: enqueue_notifications.induct) auto

lemma unat_minus_of_nat: "n \<le> unat (w :: u64) \<Longrightarrow> unat (w - of_nat n) = unat w - n"
  using le_unat_uoi [of n w] by (simp add: unat_sub word_le_nat_alt)


lemma unat_pred: "w \<noteq> 0 \<Longrightarrow> unat (w - 1 :: u64) = unat w - 1"
  using unat_minus_of_nat [of 1 w] by (simp add: Suc_leI unat_gt_0)

lemma unat_succ: "unat w < n \<Longrightarrow> n < 2 ^ 64 \<Longrightarrow> unat (w + 1 :: u64) = unat w + 1"
  by (simp add: unat_word_ariths)

lemma prune_slots:
  assumes "slots_ok S" shows "slots_ok (S\<lparr>loader := prune_cancelled probe (loader S)\<rparr>)"
proof -
  obtain d k where tc: "take_cancelled probe MAX_CANCELLATION_CHECKS_PER_ADMISSION (loadQueue (loader S)) = (d, k)"
    by fastforce
  note len = take_cancelled_length [OF tc]
  then have "unat (inFlight (loader S) - of_nat (length d)) = unat (inFlight (loader S)) - length d"
    using assms by (intro unat_minus_of_nat) (simp add: slots_ok_def Let_def)
  then show ?thesis using assms len by (auto simp: slots_ok_def prune_cancelled_def tc Let_def busy_def)
qed

lemma prune_gauges:
  assumes "gauges_ok S"
  shows "gauges_ok (S\<lparr>loader := (let L = prune_cancelled probe (loader S) in
    L\<lparr>load_queued := of_nat (length (loadQueue L))\<rparr>)\<rparr>)"
proof -
  obtain d k where tc: "take_cancelled probe MAX_CANCELLATION_CHECKS_PER_ADMISSION (loadQueue (loader S)) = (d, k)"
    by fastforce
  have "length (loadQueue (loader S)) = length d + length k" using take_cancelled_length [OF tc] by simp
  then show ?thesis
    using assms enqueue_notifications_bound [of "cancellationNotifications (loader S)" "unat (queueCapacity (loader S))"]
    by (simp add: gauges_ok_def prune_cancelled_def tc Let_def busy_def holding_jobs_def algebra_simps)
qed

text \<open>The parts of the loader a pruning does not touch.\<close>

lemma prune_frame [simp]:
  "workerCount (prune_cancelled probe L) = workerCount L"
  "queueCapacity (prune_cancelled probe L) = queueCapacity L"
  "accepting (prune_cancelled probe L) = accepting L"
  "shuttingDown (prune_cancelled probe L) = shuttingDown L"
  "stopRequested (prune_cancelled probe L) = stopRequested L"
  "reservations (prune_cancelled probe L) = reservations L"
  "load_accepted (prune_cancelled probe L) = load_accepted L"
  by (simp_all add: prune_cancelled_def Let_def split: prod.splits)

lemma slots_cong:
  "loader S' = loader S\<lparr>load_queued := q, load_rejected := r\<rparr> \<Longrightarrow> tokens S' = tokens S \<Longrightarrow> workers S' = workers S \<Longrightarrow>
   slots_ok S' = slots_ok S"
  by (simp add: slots_ok_def Let_def busy_def)

lemma capacity_word: "slots_ok S \<Longrightarrow> unat (workerCount (loader S) + queueCapacity (loader S)) =
    unat (workerCount (loader S)) + unat (queueCapacity (loader S))"
  by (simp add: slots_ok_def Let_def unat_word_ariths)

lemma reserve_slots:
  assumes S: "slots_ok S" and r: "tryReserve probe (loader S) = (r, L)"
  shows "slots_ok (S\<lparr>loader := L, tokens := tokens S + (if r = SubmitAccepted then 1 else 0)\<rparr>)"
proof (cases "stopRequested (loader S) \<or> \<not> accepting (loader S)")
  case True
  then show ?thesis using S r by (auto simp: tryReserve_def slots_ok_def Let_def busy_def)
next
  case False
  define L1 where "L1 = prune_cancelled probe (loader S)"
  have P: "slots_ok (S\<lparr>loader := L1\<rparr>)" using prune_slots [OF S] by (simp add: L1_def)
  have C: "unat (workerCount L1 + queueCapacity L1) = unat (workerCount L1) + unat (queueCapacity L1)"
    using capacity_word [OF P] by simp
  show ?thesis
  proof (cases "workerCount L1 + queueCapacity L1 \<le> inFlight L1")
    case True
    then show ?thesis using False r P by (auto simp: tryReserve_def L1_def [symmetric] slots_ok_def Let_def busy_def)
  next
    case sat: False
    then have lt: "unat (inFlight L1) < unat (workerCount L1) + unat (queueCapacity L1)"
      using C by (simp add: word_le_nat_alt)
    have bound: "unat (workerCount L1) + unat (queueCapacity L1) < 2 ^ 64"
      and res: "unat (reservations L1) \<le> unat (inFlight L1)"
      using P by (simp_all add: slots_ok_def Let_def)
    have "unat (inFlight L1 + 1) = unat (inFlight L1) + 1" "unat (reservations L1 + 1) = unat (reservations L1) + 1"
      using unat_succ [OF lt bound] unat_succ [OF le_less_trans [OF res lt] bound] by simp_all
    then show ?thesis
      using False sat r P lt by (auto simp: tryReserve_def L1_def [symmetric] slots_ok_def Let_def busy_def)
  qed
qed

lemma reserve_gauges:
  assumes "gauges_ok S" "tryReserve probe (loader S) = (r, L)"
  shows "gauges_ok (S\<lparr>loader := L, tokens := t\<rparr>)"
  using assms prune_gauges [OF assms(1), of probe]
  by (auto simp: tryReserve_def Let_def gauges_ok_def busy_def holding_jobs_def split: if_splits)

lemma reserve_shutdown:
  assumes "shutdown_ok S" "tryReserve probe (loader S) = (r, L)"
  shows "shutdown_ok (S\<lparr>loader := L, tokens := tokens S + (if r = SubmitAccepted then 1 else 0)\<rparr>)"
  using assms by (auto simp: tryReserve_def Let_def shutdown_ok_def split: if_splits)


definition loader_ok :: "'p loader_system \<Rightarrow> bool" where
  "loader_ok S \<longleftrightarrow> slots_ok S \<and> gauges_ok S \<and> shutdown_ok S"

lemmas loader_ok_defs = loader_ok_def slots_ok_def gauges_ok_def shutdown_ok_def Let_def busy_def holding_jobs_def

lemma token_is_live:
  "loader_ok S \<Longrightarrow> 0 < tokens S \<Longrightarrow> \<not> shuttingDown (loader S) \<and> reservations (loader S) \<noteq> 0 \<and> inFlight (loader S) \<noteq> 0"
  by (auto simp: loader_ok_defs)

lemma ok_commit:
  assumes S: "loader_ok S" and t: "0 < tokens S"
  shows "loader_ok (S\<lparr>loader := snd (submit_reserved True j (loader S)), tokens := tokens S - 1\<rparr>)"
proof -
  have n: "\<not> shuttingDown (loader S)" "reservations (loader S) \<noteq> 0" using token_is_live [OF S t] by simp_all
  show ?thesis
    using S t n(1) unat_pred [OF n(2)] by (auto simp: submit_reserved_def loader_ok_defs)
qed

lemma ok_discard:
  assumes S: "loader_ok S" and t: "0 < tokens S"
  shows "loader_ok (S\<lparr>loader := releaseReservation (loader S), tokens := tokens S - 1\<rparr>)"
proof -
  have n: "\<not> shuttingDown (loader S)" "reservations (loader S) \<noteq> 0" "inFlight (loader S) \<noteq> 0"
    using token_is_live [OF S t] by simp_all
  show ?thesis
    using S t n unat_pred [OF n(2)] unat_pred [OF n(3)] by (auto simp: releaseReservation_def loader_ok_defs)
qed

lemma ok_finish:
  assumes S: "loader_ok S" and c: "\<not> accepting (loader S)" and f: "finish_shutdown (loader S) = Some (js, L)"
  shows "loader_ok (S\<lparr>loader := L\<rparr>)"
proof -
  have le: "length (loadQueue (loader S)) \<le> unat (inFlight (loader S))" using S by (auto simp: loader_ok_defs)
  show ?thesis
    using S c f unat_minus_of_nat [OF le]
    by (auto simp: finish_shutdown_def loader_ok_defs algebra_simps split: if_splits)
qed

lemma ok_take:
  assumes S: "loader_ok S" and i: "i < length (workers S)" "workers S ! i = Waiting"
    and t: "worker_take (loader S) = Some (w, L)"
  shows "loader_ok (S\<lparr>loader := L, workers := (workers S)[i := w]\<rparr>)"
proof -
  have b: "length (filter is_busy ((workers S)[i := w])) = length (filter is_busy (workers S)) + of_bool (is_busy w)"
    and h: "length (filter is_holding ((workers S)[i := w])) = length (filter is_holding (workers S)) + of_bool (is_holding w)"
    using i(2) length_filter_update [OF i(1), of is_busy w] length_filter_update [OF i(1), of is_holding w] by simp_all
  consider n N where "cancellationNotifications (loader S) = n # N" "w = Notifying n"
      "L = (loader S)\<lparr>cancellationNotifications := N\<rparr>"
    | "w = Exited" "L = loader S"
    | j q where "loadQueue (loader S) = j # q" "\<not> shuttingDown (loader S)" "w = Holding j"
        "L = (loader S)\<lparr>loadQueue := q, load_queued := of_nat (length q), load_active := load_active (loader S) + 1\<rparr>"
    using t by (auto simp: worker_take_def split: list.splits if_splits)
  then show ?thesis
  proof cases
    case 1
    then show ?thesis using S b h by (simp add: loader_ok_defs)
  next
    case 2
    then show ?thesis using S b h by (simp add: loader_ok_defs)
  next
    case 3
    then show ?thesis using S b h by (simp add: loader_ok_defs algebra_simps)
  qed
qed

lemma ok_notified:
  assumes S: "loader_ok S" and i: "i < length (workers S)" "workers S ! i = Notifying n"
  shows "loader_ok (S\<lparr>workers := (workers S)[i := Waiting]\<rparr>)"
  using S i(2) length_filter_update [OF i(1), of is_busy Waiting] length_filter_update [OF i(1), of is_holding Waiting]
  by (auto simp: loader_ok_defs)

lemma ok_settle:
  assumes S: "loader_ok S" and i: "i < length (workers S)" "workers S ! i = Holding j"
  shows "loader_ok (S\<lparr>loader := settle_job out (loader S), workers := (workers S)[i := Settling]\<rparr>)"
proof -
  have b: "length (filter is_busy ((workers S)[i := Settling])) = length (filter is_busy (workers S))"
    and h: "length (filter is_holding (workers S)) = Suc (length (filter is_holding ((workers S)[i := Settling])))"
    using i(2) length_filter_update [OF i(1), of is_busy Settling] length_filter_update [OF i(1), of is_holding Settling]
    by simp_all
  show ?thesis
    using S by (cases out) (simp_all add: settle_job_def loader_ok_defs b h algebra_simps)
qed

lemma ok_release:
  assumes S: "loader_ok S" and i: "i < length (workers S)" "workers S ! i = Settling"
  shows "loader_ok (S\<lparr>loader := release_slot (loader S), workers := (workers S)[i := Waiting]\<rparr>)"
proof -
  have b: "length (filter is_busy (workers S)) = Suc (length (filter is_busy ((workers S)[i := Waiting])))"
    and h: "length (filter is_holding ((workers S)[i := Waiting])) = length (filter is_holding (workers S))"
    using i(2) length_filter_update [OF i(1), of is_busy Waiting] length_filter_update [OF i(1), of is_holding Waiting]
    by simp_all
  have "inFlight (loader S) \<noteq> 0" using S b by (auto simp: loader_ok_defs)
  then show ?thesis
    using S unat_pred [of "inFlight (loader S)"] by (auto simp: release_slot_def loader_ok_defs b h)
qed

lemma loader_ok_step: "loader_step S S' \<Longrightarrow> loader_ok S \<Longrightarrow> loader_ok S'"
proof (induction rule: loader_step.induct)
  case (reserve probe S r L)
  then show ?case
    using reserve_slots reserve_gauges reserve_shutdown unfolding loader_ok_def by blast
next
  case (stop S)
  then show ?case by (auto simp: loader_ok_defs request_stop_def)
next
  case (close S)
  then show ?case by (auto simp: loader_ok_defs close_admission_def)
qed (use ok_commit ok_discard ok_finish ok_take ok_notified ok_settle ok_release in blast)+

lemma loader_ok_reachable:
  assumes "loader_step\<^sup>*\<^sup>* S S'" "loader_ok S" shows "loader_ok S'"
  using assms by induction (auto intro: loader_ok_step)

lemma loader_ok_start:
  assumes "new_audio_loader w c = Some L" "unat w + unat c < 2 ^ 64"
  shows "loader_ok (start_loader L)"
  using assms by (auto simp: new_audio_loader_def start_loader_def loader_ok_defs split: if_splits)


lemma loader_step_sizes:
  assumes "loader_step S S'"
  shows "workerCount (loader S') = workerCount (loader S) \<and> queueCapacity (loader S') = queueCapacity (loader S)"
  using assms
  by cases
    (auto simp: tryReserve_def Let_def submit_reserved_def releaseReservation_def request_stop_def
       close_admission_def finish_shutdown_def worker_take_def settle_job_def release_slot_def
     split: if_splits list.splits load_outcome.splits)

section \<open>What the executor promises\<close>

text \<open>
  C27: the loader never overbooks and never loses a job. In every reachable state the in-flight
  count is exactly the live reservations, the queued jobs and the busy workers, and at most the
  workers plus the queue capacity; every job ever accepted is completed, cancelled, failed, still
  queued or held by a worker; and a live reservation is always honoured.
\<close>

theorem loader_never_overbooks:
  assumes "new_audio_loader w c = Some L" "unat w + unat c < 2 ^ 64"
    and "loader_step\<^sup>*\<^sup>* (start_loader L) S"
  shows "unat (inFlight (loader S)) = tokens S + length (loadQueue (loader S)) + busy S \<and>
    tokens S + length (loadQueue (loader S)) + busy S \<le> unat w + unat c \<and>
    load_accepted (loader S) = load_completed (loader S) + load_cancelled (loader S) + load_failed (loader S)
      + of_nat (length (loadQueue (loader S)) + holding_jobs S) \<and>
    (0 < tokens S \<longrightarrow> fst (submit_reserved True j (loader S)) = Some SubmitAccepted)"
proof -
  have const: "workerCount (loader S) = w \<and> queueCapacity (loader S) = c"
    using assms(3)
  proof (induction rule: rtranclp_induct)
    case base
    then show ?case using assms(1) by (auto simp: start_loader_def new_audio_loader_def split: if_splits)
  qed (use loader_step_sizes in fastforce)
  have ok: "loader_ok S" using loader_ok_reachable assms loader_ok_start by blast
  then have "0 < tokens S \<longrightarrow> fst (submit_reserved True j (loader S)) = Some SubmitAccepted"
    using token_is_live by (auto simp: submit_reserved_def)
  then show ?thesis
    using ok const unfolding loader_ok_def slots_ok_def gauges_ok_def Let_def by metis
qed

text \<open>
  admission. While the loader accepts work, an admission first drops the cancelled jobs among
  the oldest 64 of the queue, keeping the order of all others, and is then refused only when every
  slot is really taken.
\<close>

theorem admission_prunes_then_admits:
  fixes probe :: "'p \<Rightarrow> bool option" and S :: "'p loader_system"
  defines "kept \<equiv> filter (\<lambda>j. \<not> job_cancelled probe j) (take 64 (loadQueue (loader S))) @ drop 64 (loadQueue (loader S))"
  assumes "loader_ok S" "accepting (loader S)" "\<not> stopRequested (loader S)"
  shows "loadQueue (snd (tryReserve probe (loader S))) = kept \<and>
    fst (tryReserve probe (loader S)) =
      (if tokens S + length kept + busy S < unat (workerCount (loader S)) + unat (queueCapacity (loader S))
       then SubmitAccepted else SubmitQueueFull)"
proof -
  obtain d k where tc: "take_cancelled probe MAX_CANCELLATION_CHECKS_PER_ADMISSION (loadQueue (loader S)) = (d, k)"
    by fastforce
  have k: "k = kept"
    using take_cancelled_split [OF tc] by (simp add: kept_def MAX_CANCELLATION_CHECKS_PER_ADMISSION_def)
  have slots: "slots_ok (S\<lparr>loader := prune_cancelled probe (loader S)\<rparr>)"
    using prune_slots assms(2) by (auto simp: loader_ok_def)
  have q: "loadQueue (prune_cancelled probe (loader S)) = kept"
    by (simp add: prune_cancelled_def tc k)
  have fl: "unat (inFlight (prune_cancelled probe (loader S))) = tokens S + length kept + busy S"
    using slots q by (simp add: slots_ok_def Let_def busy_def)
  have cap: "unat (workerCount (loader S) + queueCapacity (loader S)) = unat (workerCount (loader S)) + unat (queueCapacity (loader S))"
    using capacity_word [OF slots] by simp
  show ?thesis
    using assms(3,4) q fl cap by (simp add: tryReserve_def Let_def word_le_nat_alt not_le)
qed

text \<open>Shutdown is final: afterwards nothing is admitted, queued or started.\<close>

lemma shutdown_step:
  assumes "loader_step S S'" "loader_ok S" "shuttingDown (loader S)"
  shows "shuttingDown (loader S') \<and> load_accepted (loader S') = load_accepted (loader S) \<and>
    (\<forall>j. Holding j \<in> set (workers S') \<longrightarrow> Holding j \<in> set (workers S))"
  using assms
proof (induction rule: loader_step.induct)
  case (reserve probe S r L)
  then show ?case by (auto simp: loader_ok_defs tryReserve_def)
next
  case (commit S j)
  then show ?case by (auto simp: loader_ok_defs)
next
  case (discard S)
  then show ?case by (auto simp: loader_ok_defs)
next
  case (stop S)
  then show ?case by (simp add: request_stop_def)
next
  case (close S)
  then show ?case by (simp add: close_admission_def)
next
  case (finish S js L)
  then show ?case by (auto simp: finish_shutdown_def split: if_splits)
next
  case (take i S w L)
  then have "w \<noteq> Holding j" for j by (auto simp: worker_take_def split: list.splits)
  then show ?case
    using take set_update_subset_insert [of "workers S" i w]
    by (auto simp: worker_take_def split: list.splits)
next
  case (notified i S n)
  then show ?case using set_update_subset_insert [of "workers S" i Waiting] by auto
next
  case (settle i S j probe run_ok)
  then show ?case
    using set_update_subset_insert [of "workers S" i Settling]
    by (auto simp: settle_job_def split: load_outcome.splits)
next
  case (release i S)
  then show ?case
    using set_update_subset_insert [of "workers S" i Waiting] by (auto simp: release_slot_def Let_def)
qed

theorem shutdown_is_final:
  assumes "loader_step\<^sup>*\<^sup>* S S'" "loader_ok S" "shuttingDown (loader S)"
  shows "shuttingDown (loader S') \<and> loadQueue (loader S') = [] \<and>
    load_accepted (loader S') = load_accepted (loader S) \<and>
    (\<forall>j. Holding j \<in> set (workers S') \<longrightarrow> Holding j \<in> set (workers S))"
proof -
  have "shuttingDown (loader S') \<and> load_accepted (loader S') = load_accepted (loader S) \<and>
    (\<forall>j. Holding j \<in> set (workers S') \<longrightarrow> Holding j \<in> set (workers S)) \<and> loader_ok S'"
    using assms
  proof (induction rule: rtranclp_induct)
    case (step S1 S2)
    then show ?case using shutdown_step [of S1 S2] loader_ok_step [of S1 S2] by simp
  qed simp
  then show ?thesis by (auto simp: loader_ok_def shutdown_ok_def Let_def)
qed

section \<open>Witnesses\<close>

definition demo_job :: "nat \<Rightarrow> nat load_job" where
  "demo_job n = \<lparr>lj_id = ''job'', captured = n, hasIsCancelled = True, hasRun = True,
     hasOnFailure = True, hasOnCancelled = True\<rparr>"

definition demo_loader :: "nat audio_loader" where
  "demo_loader = the (new_audio_loader 1 1)"

definition demo_reserve :: "nat loader_system \<Rightarrow> nat loader_system" where
  "demo_reserve S = S\<lparr>loader := snd (tryReserve (\<lambda>_. Some False) (loader S)), tokens := tokens S + 1\<rparr>"

definition demo_commit :: "nat \<Rightarrow> nat loader_system \<Rightarrow> nat loader_system" where
  "demo_commit n S = S\<lparr>loader := snd (submit_reserved True (demo_job n) (loader S)), tokens := tokens S - 1\<rparr>"

lemma demo_reserve_step:
  assumes "fst (tryReserve (\<lambda>_. Some False) (loader S)) = SubmitAccepted"
  shows "loader_step S (demo_reserve S)"
proof -
  obtain L where "tryReserve (\<lambda>_. Some False) (loader S) = (SubmitAccepted, L)"
    using assms by (metis prod.collapse)
  then show ?thesis using loader_step.reserve [of _ S SubmitAccepted L] by (simp add: demo_reserve_def)
qed

lemma demo_commit_step: "0 < tokens S \<Longrightarrow> loader_step S (demo_commit n S)"
  unfolding demo_commit_def by (rule loader_step.commit)

definition demo_reserved :: "nat loader_system" where
  "demo_reserved = demo_reserve (start_loader demo_loader)"

lemma demo_reserved_step: "loader_step\<^sup>*\<^sup>* (start_loader demo_loader) demo_reserved"
  unfolding demo_reserved_def by (rule r_into_rtranclp, rule demo_reserve_step) code_simp

lemma demo_loader_new: "new_audio_loader 1 1 = Some demo_loader"
  by (simp add: demo_loader_def new_audio_loader_def)

theorem loader_never_overbooks_witness:
  "tokens demo_reserved = 1 \<and> unat (inFlight (loader demo_reserved)) = 1 \<and>
   fst (submit_reserved True (demo_job 0) (loader demo_reserved)) = Some SubmitAccepted"
proof -
  have t: "tokens demo_reserved = 1" "length (loadQueue (loader demo_reserved)) + busy demo_reserved = 0"
    by code_simp+
  show ?thesis
    using loader_never_overbooks [OF demo_loader_new _ demo_reserved_step, of "demo_job 0"] t
    by simp
qed

definition demo_full :: "nat loader_system" where
  "demo_full = demo_commit 7 (demo_reserve (demo_commit 3 demo_reserved))"

lemma demo_full_ok: "loader_ok demo_full"
proof -
  have "loader_ok demo_reserved"
    using loader_ok_reachable [OF demo_reserved_step] loader_ok_start [OF demo_loader_new] by simp
  then have "loader_ok (demo_commit 3 demo_reserved)"
    by (rule loader_ok_step [rotated]) (rule demo_commit_step, code_simp)
  then have "loader_ok (demo_reserve (demo_commit 3 demo_reserved))"
    by (rule loader_ok_step [rotated]) (rule demo_reserve_step, code_simp)
  then show ?thesis
    unfolding demo_full_def by (rule loader_ok_step [rotated]) (rule demo_commit_step, code_simp)
qed

theorem admission_prunes_then_admits_witness:
  "fst (tryReserve (\<lambda>n. Some False) (loader demo_full)) = SubmitQueueFull \<and>
   fst (tryReserve (\<lambda>n. Some (n = 3)) (loader demo_full)) = SubmitAccepted \<and>
   loadQueue (snd (tryReserve (\<lambda>n. Some (n = 3)) (loader demo_full))) = [demo_job 7]"
proof -
  have a: "accepting (loader demo_full)" "\<not> stopRequested (loader demo_full)"
    and b: "busy demo_full = 0" "tokens demo_full = 0" "unat (workerCount (loader demo_full)) = 1"
      "unat (queueCapacity (loader demo_full)) = 1" "loadQueue (loader demo_full) = [demo_job 3, demo_job 7]"
    by code_simp+
  show ?thesis
    using admission_prunes_then_admits [OF demo_full_ok a, of "\<lambda>n. Some False"]
      admission_prunes_then_admits [OF demo_full_ok a, of "\<lambda>n. Some (n = 3)"]
    by (simp add: b job_cancelled_def demo_job_def)
qed

end
