(* ===== verification/Scheduler.thy ===== *)
theory Scheduler
  imports Server_Loop Rtp_Transport Audio_Loader
begin

text \<open>
  Starting an animation: \<open>CooperativeAnimationScheduler\<close> with its session callbacks
  (src/src/server/animation/CooperativeAnimationScheduler.cpp), \<open>scheduleAnimation\<close> of player.cpp,
  \<open>SessionManager::interrupt\<close> and \<open>interruptIdleOnly\<close> (SessionManager.cpp) and
  \<open>startIdleIfNeeded\<close> (src/src/server/ws/service/CreatureService.cpp). They run on the world of the
  server loop extended by what the scheduler shares: the audio loader, the RTP server, the
  configuration and the creatures' universes. The database, the Base64 decoder, the sound-file
  reader, the random draws and the transports are the environment \<open>sched_env\<close>; the n-th draw is
  its n-th value. \<open>sessionManager\<close> and \<open>config\<close> live as long as the server; spans, metrics and logs
  are not modelled.
\<close>

section \<open>State and environment\<close>

datatype audio_mode = LocalAudio | RtpAudio

record configuration =
  audioMode :: audio_mode
  travelMode :: bool
  animationDelayMs :: u32
  streamingTimeoutFrames :: u32

record 't scheduler_world = "'t server_world" +
  creatureUniverseMap :: "(creatureId_t, universe_t) object_cache option"
  audioLoader :: "(nat \<times> universe_t) audio_loader option"
  rtpServer :: "rtp_server option"
  config :: "configuration option"
  audioBuffers :: "(nat \<times> audio_stream_buffer) list"
  draws :: nat

record playlist_item =
  pi_animation_id :: string
  pi_weight :: u32

record playlist_doc =
  pl_id :: string
  pl_name :: string
  pl_items :: "playlist_item list"
  pl_number_of_items :: u32

record database =
  getAnimation :: "string \<Rightarrow> animation result"
  getPlaylist :: "string \<Rightarrow> playlist_doc result"
  getCreature :: "creatureId_t \<Rightarrow> creature result"

record 't transport_kit =
  kit_rtp :: 't
  kit_native :: "bool \<Rightarrow> 't"
  kit_start :: "string \<times> framenum_t \<times> audio_stream_buffer option \<Rightarrow> 't \<Rightarrow> 't"
  kit_stop :: "'t \<Rightarrow> 't"
  kit_lease :: "rtp_lease \<Rightarrow> async_trace \<Rightarrow> 't \<Rightarrow> 't option"

record 't sched_env =
  se_service :: service_env
  se_decode :: "string \<Rightarrow> u8 list option"
  se_uuid :: "nat \<Rightarrow> string"
  se_shuffle :: "nat \<Rightarrow> string list \<Rightarrow> string list"
  se_pick :: "nat \<Rightarrow> nat \<Rightarrow> nat"
  se_db :: "database option"
  se_kit :: "'t transport_kit"
  se_load :: "string \<Rightarrow> audio_stream_buffer option"

definition next_frame :: "('t, 'a) world_scheme \<Rightarrow> framenum_t" where
  "next_frame W = (case eventLoop W of None \<Rightarrow> 0 | Some cur \<Rightarrow> cur + 1)"

definition delay_frames :: "configuration \<Rightarrow> framenum_t" where
  "delay_frames cfg = ucast (animationDelayMs cfg div EVENT_LOOP_PERIOD_MS)"

section \<open>\<open>unwindAdoptedAudioSession\<close>\<close>

text \<open>The unwinding without the idle restart, which needs the scheduler itself and follows below.\<close>

definition stopped_write :: "'t session \<Rightarrow> activity_write" where
  "stopped_write s = \<lparr>w_animation = anim_id (s_animation s), w_reason = Cancelled, w_state = Stopped,
     w_session = sessionId s, w_generation = activityGeneration s\<rparr>"

definition empty_playlist_status :: "universe_t \<Rightarrow> playlist_status" where
  "empty_playlist_status u = \<lparr>ps_universe = u, playlist = [], playing = False, current_animation = []\<rparr>"

definition unwind_session ::
  "'t sched_env \<Rightarrow> nat \<Rightarrow> universe_t \<Rightarrow> ('t, 'a) scheduler_world_scheme \<Rightarrow> bool \<times> ('t, 'a) scheduler_world_scheme"
where
  "unwind_session env r u W =
     (let W1 = update_session r (\<lambda>s. markCancellationNotified (cancel s)) W;
          (res, W2) = abortLoadingSession u (sessionId (heap W1 ! r)) W1
      in if \<not> sessionRemoved res then (False, W2)
         else
           (let W3 = update_session r (\<lambda>s. s\<lparr>audioTransport := map_option (kit_stop (se_kit env)) (audioTransport s)\<rparr>) W2;
                W4 = W3\<lparr>services := snd (setActivityState (se_service env) (creatureIds (heap W3 ! r))
                       (stopped_write (heap W3 ! r)) (services W3))\<rparr>;
                W5 = (if playlistCleared res
                      then W4\<lparr>services := broadcastPlaylistStatusToAllClients (empty_playlist_status u) (services W4)\<rparr>
                      else W4)
            in (True, W5)))"

section \<open>\<open>scheduleAnimation\<close>\<close>

fun first_streaming :: "string \<Rightarrow> track list \<Rightarrow> service \<Rightarrow> creatureId_t option \<times> service" where
  "first_streaming now [] S = (None, S)"
| "first_streaming now (t # ts) S =
     (let (streaming, S1) = isCreatureStreaming now (creature_id t) S
      in if streaming then (Some (creature_id t), S1) else first_streaming now ts S1)"

definition invalid_timing :: "animation \<Rightarrow> bool" where
  "invalid_timing a \<longleftrightarrow> milliseconds_per_frame (metadata a) = 0 \<or> number_of_frames (metadata a) = 0"

definition timing_error :: "animation \<Rightarrow> server_error" where
  "timing_error a = ServerError InvalidData (''Invalid animation timing data for '' @ quoted (title (metadata a)) @
     '' (ms_per_frame='' @ dec (unat (milliseconds_per_frame (metadata a))) @ '', frames='' @
     dec (unat (number_of_frames (metadata a))) @ '')'')"

definition has_sound :: "animation \<Rightarrow> bool" where
  "has_sound a \<longleftrightarrow> sound_file (metadata a) \<noteq> []"

definition needs_async_load :: "configuration \<Rightarrow> animation \<Rightarrow> bool" where
  "needs_async_load cfg a \<longleftrightarrow> has_sound a \<and> audioMode cfg = RtpAudio"

text \<open>The job's cancellation predicate: the session's flag, read when it is asked.\<close>

definition loader_probe :: "('t, 'a) world_scheme \<Rightarrow> nat \<times> universe_t \<Rightarrow> bool option" where
  "loader_probe W job = Some (cancelled (heap W ! fst job))"

text \<open>
  Everything before the session is built: the checks in their order, then the loader slot. The
  result says whether a slot was reserved.
\<close>

definition reserve_slot :: "('t, 'a) scheduler_world_scheme \<Rightarrow> bool result \<times> ('t, 'a) scheduler_world_scheme" where
  "reserve_slot W = (case audioLoader W of
     None \<Rightarrow> (internal_error ''RTP audio loader executor is unavailable'', W)
   | Some L \<Rightarrow>
       (let (res, L1) = tryReserve (loader_probe W) L; W1 = W\<lparr>audioLoader := Some L1\<rparr>
        in case res of
             SubmitAccepted \<Rightarrow> (Inr True, W1)
           | SubmitQueueFull \<Rightarrow> (Inl (ServerError Conflict ''RTP audio loader queue is full''), W1)
           | SubmitShuttingDown \<Rightarrow> (internal_error ''RTP audio loader is shutting down'', W1)))"

definition admit_animation ::
  "'t sched_env \<Rightarrow> animation \<Rightarrow> ('t, 'a) scheduler_world_scheme \<Rightarrow> bool result \<times> ('t, 'a) scheduler_world_scheme"
where
  "admit_animation env a W =
     (if eventLoop W = None then (internal_error ''CooperativeAnimationScheduler: event loop unavailable'', W)
      else (case config W of
          None \<Rightarrow> (internal_error ''CooperativeAnimationScheduler: config unavailable'', W)
        | Some cfg \<Rightarrow>
            if invalid_timing a then (Inl (timing_error a), W)
            else (let (busy, S) = first_streaming (env_now (se_service env)) (tracks a) (services W);
                      W1 = W\<lparr>services := S\<rparr>
              in case busy of
                   Some c \<Rightarrow> (Inl (ServerError Conflict (''Creature '' @ c @
                       '' is being live-streamed; refusing to schedule animation '' @ quoted (title (metadata a)))), W1)
                 | None \<Rightarrow> if needs_async_load cfg a then reserve_slot W1 else (Inr False, W1))))"

definition createAudioTransport :: "'t sched_env \<Rightarrow> configuration \<Rightarrow> 't" where
  "createAudioTransport env cfg =
     (if audioMode cfg = RtpAudio then kit_rtp (se_kit env)
      else if travelMode cfg then kit_native (se_kit env) True
      else kit_native (se_kit env) False)"

text \<open>The session, complete before it is published; its address is the next of the heap.\<close>

definition build_session ::
  "'t sched_env \<Rightarrow> framenum_t \<Rightarrow> animation \<Rightarrow> universe_t \<Rightarrow> activity_reason \<Rightarrow>
   ('t, 'a) scheduler_world_scheme \<Rightarrow> 't session"
where
  "build_session env start a u reason W =
     setActivityReason reason (new_session (se_decode env) (se_uuid env (draws W)) a u start)"

definition release_unused_slot :: "bool \<Rightarrow> ('t, 'a) scheduler_world_scheme \<Rightarrow> ('t, 'a) scheduler_world_scheme" where
  "release_unused_slot slot W =
     (if slot then W\<lparr>audioLoader := map_option releaseReservation (audioLoader W)\<rparr> else W)"

definition publish_session ::
  "'t sched_env \<Rightarrow> configuration \<Rightarrow> 't session \<Rightarrow> animation \<Rightarrow> universe_t \<Rightarrow> activity_reason \<Rightarrow> bool \<Rightarrow>
   ('t, 'a) scheduler_world_scheme \<Rightarrow> nat \<times> ('t, 'a) scheduler_world_scheme"
where
  "publish_session env cfg s a u reason cancelEntireUniverse W =
     (let r = length (heap W);
          s1 = (if has_sound a then setAudioTransport (createAudioTransport env cfg) s else s);
          W1 = registerSession (se_service env) u (Some r) False cancelEntireUniverse (W\<lparr>heap := heap W @ [s1]\<rparr>);
          s2 = heap W1 ! r
      in (r, W1\<lparr>services := snd (setActivityRunning (se_service env) (creatureIds s2)
               \<lparr>w_animation = anim_id a, w_reason = reason, w_state = Running, w_session = sessionId s2,
                w_generation = activityGeneration s2\<rparr> (services W1))\<rparr>))"

definition load_job_for :: "nat \<Rightarrow> universe_t \<Rightarrow> 't session \<Rightarrow> (nat \<times> universe_t) load_job" where
  "load_job_for r u s = \<lparr>lj_id = sessionId s, captured = (r, u), hasIsCancelled = True, hasRun = True,
     hasOnFailure = True, hasOnCancelled = True\<rparr>"

text \<open>\<open>scheduleWithAsyncAudioLoad\<close>: commit the job, or unwind the session that was just adopted.\<close>

definition submit_audio_load ::
  "'t sched_env \<Rightarrow> nat \<Rightarrow> universe_t \<Rightarrow> ('t, 'a) scheduler_world_scheme \<Rightarrow> nat result \<times> ('t, 'a) scheduler_world_scheme"
where
  "submit_audio_load env r u W = (case audioLoader W of
     None \<Rightarrow> (internal_error ''RTP audio loader executor is unavailable'', W)
   | Some L \<Rightarrow>
       (let (res, L1) = submit_reserved True (load_job_for r u (heap W ! r)) L; W1 = W\<lparr>audioLoader := Some L1\<rparr>
        in if res = Some SubmitAccepted then (Inr r, W1)
           else (if res = Some SubmitQueueFull
                 then Inl (ServerError Conflict ''Reserved RTP audio loader admission was unexpectedly lost'')
                 else internal_error ''RTP audio loader shut down before a reserved load was committed'',
                 snd (unwind_session env r u W1))))"

definition start_directly ::
  "configuration \<Rightarrow> framenum_t \<Rightarrow> animation \<Rightarrow> nat \<Rightarrow> ('t, 'a) scheduler_world_scheme \<Rightarrow> ('t, 'a) scheduler_world_scheme"
where
  "start_directly cfg start a r W =
     (if has_sound a then
        (let start' = next_frame W + 2 + delay_frames cfg
         in schedule_event start' (RunnerEvent r) (update_session r (setStartingFrame start') W))
      else schedule_event start (RunnerEvent r) W)"

definition scheduleAnimation ::
  "'t sched_env \<Rightarrow> framenum_t \<Rightarrow> animation \<Rightarrow> universe_t \<Rightarrow> activity_reason \<Rightarrow> bool \<Rightarrow>
   ('t, 'a) scheduler_world_scheme \<Rightarrow> nat result \<times> ('t, 'a) scheduler_world_scheme"
where
  "scheduleAnimation env start a u reason cancelEntireUniverse W =
     (case admit_animation env a W of
        (Inl e, W1) \<Rightarrow> (Inl e, W1)
      | (Inr slot, W1) \<Rightarrow>
          (let s = build_session env start a u reason W1; W2 = W1\<lparr>draws := draws W1 + 1\<rparr>
           in if cancelled s
              then (Inl (ServerError InvalidData (''Failed to decode frames for animation '' @
                      quoted (title (metadata a)) @ ''; not scheduling'')), release_unused_slot slot W2)
              else (case config W2 of
                  None \<Rightarrow> (internal_error ''CooperativeAnimationScheduler: config unavailable'', W2)
                | Some cfg \<Rightarrow>
                    (let (r, W3) = publish_session env cfg s a u reason cancelEntireUniverse W2
                     in if slot then submit_audio_load env r u W3
                        else (Inr r, start_directly cfg start a r W3)))))"

text \<open>\<open>scheduleAnimation\<close> of player.cpp: the same, returning the animation's last frame.\<close>

definition last_frame_of :: "framenum_t \<Rightarrow> animation \<Rightarrow> framenum_t" where
  "last_frame_of start a =
     start + max 1 (ucast (milliseconds_per_frame (metadata a) div EVENT_LOOP_PERIOD_MS)) *
       ucast (number_of_frames (metadata a) - 1)"

definition player_scheduleAnimation ::
  "'t sched_env \<Rightarrow> framenum_t \<Rightarrow> animation \<Rightarrow> universe_t \<Rightarrow> activity_reason \<Rightarrow>
   ('t, 'a) scheduler_world_scheme \<Rightarrow> framenum_t result \<times> ('t, 'a) scheduler_world_scheme"
where
  "player_scheduleAnimation env start a u reason W =
     (if invalid_timing a then (Inl (timing_error a), W)
      else if config W = None then (internal_error ''Animation scheduler unavailable: configuration missing'', W)
      else (case scheduleAnimation env start a u reason False W of
          (Inl e, W1) \<Rightarrow> (Inl e, W1)
        | (Inr r, W1) \<Rightarrow> (Inr (last_frame_of start a), W1)))"


section \<open>\<open>startIdleIfNeeded\<close>\<close>

definition ANIMATION_DELAY_FRAMES :: framenum_t where "ANIMATION_DELAY_FRAMES = 500"

definition shuffledIds :: "'t sched_env \<Rightarrow> nat \<Rightarrow> string list \<Rightarrow> string list" where
  "shuffledIds env n ids = (if length ids \<le> 1 then ids else se_shuffle env n ids)"

text \<open>The last-used idle animation goes to the end of the candidates.\<close>

definition idle_candidates :: "string list \<Rightarrow> string option \<Rightarrow> string list" where
  "idle_candidates ids lastIdle = (case lastIdle of
     None \<Rightarrow> ids
   | Some a \<Rightarrow> if 1 < length ids then filter (\<lambda>x. x \<noteq> a) ids @ [a] else ids)"

text \<open>The loop over the candidates: the first one that exists and targets only this creature is scheduled.\<close>

fun try_candidates ::
  "'t sched_env \<Rightarrow> database \<Rightarrow> creatureId_t \<Rightarrow> universe_t \<Rightarrow> string list \<Rightarrow>
   ('t, 'a) scheduler_world_scheme \<Rightarrow> bool \<times> ('t, 'a) scheduler_world_scheme"
where
  "try_candidates env db c u [] W = (False, W)"
| "try_candidates env db c u (aid # aids) W =
     (if aid = [] then try_candidates env db c u aids W
      else (case getAnimation db aid of
          Inl _ \<Rightarrow> try_candidates env db c u aids W
        | Inr a \<Rightarrow>
            if \<not> animationTargetsSingleCreature a c then try_candidates env db c u aids W
            else (case player_scheduleAnimation env (next_frame W + ANIMATION_DELAY_FRAMES) a u ReasonIdle W of
                (Inl _, W1) \<Rightarrow> (False, W1)
              | (Inr _, W1) \<Rightarrow>
                  (let S1 = setLastIdleAnimationId c aid (services W1);
                       (rt, S2) = getOrCreateRuntime (env_now (se_service env)) c S1;
                       S3 = (case rt_counters rt of
                               None \<Rightarrow> S2
                             | Some k \<Rightarrow> put_runtime c (rt\<lparr>rt_counters :=
                                 Some (k\<lparr>idle_started_total := idle_started_total k + 1\<rparr>)\<rparr>) S2)
                   in (True, W1\<lparr>services := S3\<rparr>)))))"

text \<open>
  \<open>Database::getCreature\<close> (src/src/server/creature/get.cpp) puts what it loads into the creature cache;
  the document itself comes from the database. The creature of an idle restart comes from the cache
  or else from there.
\<close>

definition fetch_creature ::
  "database \<Rightarrow> creatureId_t \<Rightarrow> ('t, 'a) runner_world_scheme \<Rightarrow> creature result \<times> ('t, 'a) runner_world_scheme"
where
  "fetch_creature db c W = (case getCreature db c of
     Inl e \<Rightarrow> (Inl e, W)
   | Inr cr \<Rightarrow> (Inr cr, W\<lparr>creatureCache := map_option (cache_put c cr) (creatureCache W)\<rparr>))"

definition idle_creature ::
  "database \<Rightarrow> creatureId_t \<Rightarrow> ('t, 'a) runner_world_scheme \<Rightarrow> creature result \<times> ('t, 'a) runner_world_scheme"
where
  "idle_creature db c W =
     (case (case creatureCache W of None \<Rightarrow> Out_of_range | Some cc \<Rightarrow> cache_get cc c) of
        Got (Some cr) \<Rightarrow> (Inr cr, W)
      | _ \<Rightarrow> fetch_creature db c W)"

definition startIdleIfNeeded ::
  "'t sched_env \<Rightarrow> creatureId_t \<Rightarrow> ('t, 'a) scheduler_world_scheme \<Rightarrow> bool \<times> ('t, 'a) scheduler_world_scheme"
where
  "startIdleIfNeeded env c W =
     (if c = [] then (False, W)
      else (case (se_db env, creatureUniverseMap W) of
          (Some db, Some universes) \<Rightarrow>
            if eventLoop W = None then (False, W)
            else (let (rt, S1) = getOrCreateRuntime (env_now (se_service env)) c (services W);
                      W1 = W\<lparr>services := S1\<rparr>
              in if idle_enabled rt = Some False then (False, W1)
                 else (let (streaming, S2) = isCreatureStreaming (env_now (se_service env)) c S1;
                           W2 = W1\<lparr>services := S2\<rparr>
                   in if streaming then (False, W2)
                      else (case cache_get universes c of
                          Got (Some u) \<Rightarrow>
                            if hasActiveSessionForCreature W2 u c then (False, W2)
                            else (case idle_creature db c W2 of
                                (Inl _, W3) \<Rightarrow> (False, W3)
                              | (Inr cr, W3) \<Rightarrow>
                                  if idle_animation_ids cr = [] then (False, W3)
                                  else try_candidates env db c u
                                         (idle_candidates (shuffledIds env (draws W3) (idle_animation_ids cr))
                                            (getLastIdleAnimationId S2 c))
                                         (W3\<lparr>draws := draws W3 + 1\<rparr>))
                        | _ \<Rightarrow> (False, W2))))
        | _ \<Rightarrow> (False, W)))"

text \<open>The whole \<open>unwindAdoptedAudioSession\<close>.\<close>

definition unwindAdoptedAudioSession ::
  "'t sched_env \<Rightarrow> nat \<Rightarrow> universe_t \<Rightarrow> bool \<Rightarrow> ('t, 'a) scheduler_world_scheme \<Rightarrow> ('t, 'a) scheduler_world_scheme"
where
  "unwindAdoptedAudioSession env r u restartIdle W =
     (let (removed, W1) = unwind_session env r u W
      in if removed \<and> restartIdle
         then fold (\<lambda>c W. snd (startIdleIfNeeded env c W)) (creatureIds (heap W1 ! r)) W1
         else W1)"

section \<open>The audio load job\<close>

text \<open>
  The body of the job on a worker thread. The loading takes long and other threads run meanwhile:
  \<open>others 0\<close> is what they did while the file was read and encoded, \<open>others 1\<close> while the output
  was acquired, \<open>others 2\<close> before the failure handler. \<open>Some e\<close> is a thrown \<open>AudioLoadFailure\<close>.
\<close>

definition RTP_PRIMING_DURATION_FRAMES :: framenum_t where
  "RTP_PRIMING_DURATION_FRAMES = of_nat (RTP_PRIMING_FRAMES * RTP_FRAME_MS)"

definition loader_stopping :: "('t, 'a) scheduler_world_scheme \<Rightarrow> bool" where
  "loader_stopping W = (case audioLoader W of None \<Rightarrow> True | Some L \<Rightarrow> stopRequested L)"

definition job_trace :: "'t session \<Rightarrow> async_trace" where
  "job_trace s = no_trace\<lparr>tr_sessionId := sessionId s, tr_animationId := anim_id (s_animation s),
     tr_soundFile := sound_file (metadata (s_animation s))\<rparr>"

definition schedule_playback ::
  "nat \<Rightarrow> rtp_lease \<Rightarrow> async_trace \<Rightarrow> ('t, 'a) scheduler_world_scheme \<Rightarrow> ('t, 'a) scheduler_world_scheme"
where
  "schedule_playback r l tr W =
     (let startFrame = next_frame W + 2 + RTP_PRIMING_DURATION_FRAMES +
            (case config W of None \<Rightarrow> 0 | Some cfg \<Rightarrow> delay_frames cfg);
          W1 = update_session r (setStartingFrame startFrame) W;
          W2 = schedule_event (startFrame - RTP_PRIMING_DURATION_FRAMES) (RtpReset l tr) W1
      in schedule_event startFrame (RunnerEvent r) W2)"

definition acquire_and_schedule ::
  "'t sched_env \<Rightarrow> (nat \<Rightarrow> ('t, 'a) scheduler_world_scheme \<Rightarrow> ('t, 'a) scheduler_world_scheme) \<Rightarrow> nat \<Rightarrow>
   ('t, 'a) scheduler_world_scheme \<Rightarrow> string option \<times> ('t, 'a) scheduler_world_scheme"
where
  "acquire_and_schedule env others r W = (case (rtpServer W, audioTransport (heap W ! r)) of
     (Some S, Some t) \<Rightarrow>
       if \<not> isServerReady S then (Some ''Async audio load finished without an available RTP server and transport'', W)
       else (let (l, S1) = acquireOutput (''session:'' @ sessionId (heap W ! r)) S; tr = job_trace (heap W ! r) in
         case kit_lease (se_kit env) l tr t of
           None \<Rightarrow> (Some ''Async audio load finished without an available RTP server and transport'', W)
         | Some t1 \<Rightarrow>
             (let W1 = others 1 (update_session r (setAudioTransport t1) (W\<lparr>rtpServer := Some S1\<rparr>))
              in if cancelled (heap W1 ! r)
                 then (None, W1\<lparr>rtpServer := map_option (releaseOutput True l) (rtpServer W1)\<rparr>)
                 else if loader_stopping W1
                 then (Some ''RTP audio loader stopped before event scheduling'', W1)
                 else (None, schedule_playback r l tr W1)))
   | _ \<Rightarrow> (Some ''Async audio load finished without an available RTP server and transport'', W))"

definition run_audio_load ::
  "'t sched_env \<Rightarrow> (nat \<Rightarrow> ('t, 'a) scheduler_world_scheme \<Rightarrow> ('t, 'a) scheduler_world_scheme) \<Rightarrow> nat \<Rightarrow>
   ('t, 'a) scheduler_world_scheme \<Rightarrow> string option \<times> ('t, 'a) scheduler_world_scheme"
where
  "run_audio_load env others r W =
     (let file = sound_file (metadata (s_animation (heap W ! r))) in
      if config W = None then (Some ''Audio buffer load failed: config unavailable'', W)
      else (case se_load env file of
          None \<Rightarrow> (Some (''Failed to load audio buffer from '' @ quoted file), others 0 W)
        | Some B \<Rightarrow>
            (let W1 = others 0 W; W2 = W1\<lparr>audioBuffers := AList.update r B (audioBuffers W1)\<rparr>
             in if cancelled (heap W2 ! r) then (None, W2)
                else if loader_stopping W2 then (Some ''RTP audio loader stopped before playback publication'', W2)
                else if eventLoop W2 = None
                then (Some ''Async audio load finished after the event loop became unavailable'', W2)
                else acquire_and_schedule env others r W2)))"

text \<open>The job as the worker runs it, with its failure handler.\<close>

definition audio_load_job ::
  "'t sched_env \<Rightarrow> (nat \<Rightarrow> ('t, 'a) scheduler_world_scheme \<Rightarrow> ('t, 'a) scheduler_world_scheme) \<Rightarrow> nat \<Rightarrow> universe_t \<Rightarrow>
   ('t, 'a) scheduler_world_scheme \<Rightarrow> ('t, 'a) scheduler_world_scheme"
where
  "audio_load_job env others r u W =
     (case run_audio_load env others r W of
        (None, W1) \<Rightarrow> W1
      | (Some e, W1) \<Rightarrow> unwindAdoptedAudioSession env r u True (others 2 W1))"


section \<open>Session callbacks\<close>

definition animation_light :: "bool \<Rightarrow> ('t, 'a) world_scheme \<Rightarrow> ('t, 'a) world_scheme" where
  "animation_light on W = (case eventLoop W of None \<Rightarrow> W | Some cur \<Rightarrow> schedule_event (cur + 1) (AnimationLight on) W)"

definition on_start :: "'t sched_env \<Rightarrow> nat \<Rightarrow> ('t, 'a) scheduler_world_scheme \<Rightarrow> ('t, 'a) scheduler_world_scheme" where
  "on_start env r W =
     update_session r (\<lambda>s. s\<lparr>audioTransport := map_option
         (kit_start (se_kit env) (sessionId s, startingFrame s, map_of (audioBuffers W) r)) (audioTransport s)\<rparr>)
       (animation_light True W)"

text \<open>After a natural finish: the queue, else an interrupted playlist, else the playlist chain.\<close>

definition resume_interrupted :: "universe_t \<Rightarrow> ('t, 'a) scheduler_world_scheme \<Rightarrow> ('t, 'a) scheduler_world_scheme" where
  "resume_interrupted u W =
     (let (resume, W1) = consumeInterruptResumeDecision u W in
      if resume then
        (case getPlaylistStatus W1 u of
           None \<Rightarrow> W1
         | Some ps \<Rightarrow>
             if playlist ps \<noteq> [] \<and> eventLoop W1 \<noteq> None
             then schedule_event (next_frame W1) (PlaylistTick u) W1 else W1)
      else (case getPlaylistStatus W1 u of
           None \<Rightarrow> W1
         | Some ps \<Rightarrow> W1\<lparr>services := broadcastPlaylistStatusToAllClients ps (services W1)\<rparr>))"

definition chain_next ::
  "'t sched_env \<Rightarrow> nat \<Rightarrow> universe_t \<Rightarrow> ('t, 'a) scheduler_world_scheme \<Rightarrow> ('t, 'a) scheduler_world_scheme"
where
  "chain_next env r u W = (case popQueuedAnimation u W of
     (Some a, W1) \<Rightarrow> snd (scheduleAnimation env (next_frame W1) a u AdHoc False W1)
   | (None, W1) \<Rightarrow>
       if hasInterruptedPlaylist W1 u then resume_interrupted u W1
       else if activityReason (heap W1 ! r) = Playlist \<and> getPlaylistState W1 u = PlActive \<and> eventLoop W1 \<noteq> None
       then schedule_event (next_frame W1) (PlaylistTick u) W1
       else W1)"

definition on_finish :: "'t sched_env \<Rightarrow> nat \<Rightarrow> ('t, 'a) scheduler_world_scheme \<Rightarrow> ('t, 'a) scheduler_world_scheme" where
  "on_finish env r W =
     (let s = heap W ! r; u = s_universe s;
          clear = (\<lambda>W. if sessionId s \<noteq> [] then clearSession u (sessionId s) W else W)
      in if cancelled s then clear W else chain_next env r u (clear (animation_light False W)))"

text \<open>The playback runner with the scheduler's callbacks.\<close>

definition scheduler_runner ::
  "'t sched_env \<Rightarrow> 't transport_ops \<Rightarrow> ((creatureId_t \<Rightarrow> creature result) \<times> (fixtureId_t \<Rightarrow> dmx_fixture result)) option \<Rightarrow>
   ('t, ('t, 'a) scheduler_world_scheme) runner_env"
where
  "scheduler_runner env ops db = \<lparr>r_service_env = se_service env, r_ops = ops, r_on_start = on_start env,
     r_on_finish = on_finish env, r_start_idle = (\<lambda>c W. snd (startIdleIfNeeded env c W)), r_db = db\<rparr>"

section \<open>Interrupts\<close>

definition interrupt ::
  "'t sched_env \<Rightarrow> universe_t \<Rightarrow> animation \<Rightarrow> bool \<Rightarrow> ('t, 'a) scheduler_world_scheme \<Rightarrow>
   nat result \<times> ('t, 'a) scheduler_world_scheme"
where
  "interrupt env u a shouldResume W =
     (if eventLoop W = None then (internal_error ''SessionManager: event loop unavailable'', W)
      else (let (interrupted, W1) = mark_interrupted u shouldResume W in
        case scheduleAnimation env (next_frame W1) a u AdHoc True W1 of
          (Inl e, W2) \<Rightarrow> (Inl e, if interrupted then unmark_interrupted u W2 else W2)
        | (Inr r, W2) \<Rightarrow> (Inr r, W2)))"

definition busy_creatures :: "creatureId_t list \<Rightarrow> ('t, 'a) world_scheme \<Rightarrow> universe_t \<Rightarrow> creatureId_t list" where
  "busy_creatures targets W u =
     foldl (\<lambda>busy r. foldl (\<lambda>busy c. if c \<in> set targets \<and> c \<notin> set busy then busy @ [c] else busy) busy
              (creatureIds (heap W ! r))) []
       (filter (\<lambda>r. \<not> cancelled (heap W ! r) \<and> activityReason (heap W ! r) \<noteq> ReasonIdle) (getActiveSessions W u))"

definition joinStrings :: "string list \<Rightarrow> string \<Rightarrow> string" where
  "joinStrings xs separator = foldl (\<lambda>joined s. (if joined \<noteq> [] then joined @ separator else joined) @ s) [] xs"

fun resolve_names :: "service_env \<Rightarrow> creatureId_t list \<Rightarrow> service \<Rightarrow> string list \<times> service" where
  "resolve_names env [] S = ([], S)"
| "resolve_names env (c # cs) S =
     (let (n, S1) = resolveCreatureName env c S; (ns, S2) = resolve_names env cs S1 in (n # ns, S2))"

definition busy_message :: "string list \<Rightarrow> string" where
  "busy_message names =
     (if length names = 1 then last names @ '' already has an active non-idle session''
      else joinStrings (butlast names) '', '' @ '' and '' @ last names @ '' already have active non-idle sessions'')"

definition interruptIdleOnly ::
  "'t sched_env \<Rightarrow> universe_t \<Rightarrow> animation \<Rightarrow> creatureId_t list \<Rightarrow> ('t, 'a) scheduler_world_scheme \<Rightarrow>
   nat result \<times> ('t, 'a) scheduler_world_scheme"
where
  "interruptIdleOnly env u a targets W =
     (if targets = [] then (Inl (ServerError InvalidData ''SessionManager: interruptIdleOnly called with no creatures''), W)
      else if eventLoop W = None then (internal_error ''SessionManager: event loop unavailable'', W)
      else (let busy = busy_creatures targets W u in
        if busy \<noteq> []
        then (let (names, S) = resolve_names (se_service env) busy (services W)
              in (Inl (ServerError Conflict (busy_message names)), W\<lparr>services := S\<rparr>))
        else scheduleAnimation env (next_frame W) a u AdHoc False W))"

end
