(* ===== verification/Scheduling.thy ===== *)
theory Scheduling
  imports Scheduler
begin

text \<open>
  What starting an animation guarantees: a refused request disturbs nothing, an accepted one is
  registered and sure to be played or loaded, a load that fails late leaves its replacement alone,
  and interrupts treat the playlist as they promise.
\<close>

section \<open>Frame conditions\<close>

lemma scheduler_more:
  fixes W W' :: "('t, 'a) scheduler_world_scheme"
  assumes "world.more W' = world.more W"
  shows "audioLoader W' = audioLoader W \<and> config W' = config W \<and> rtpServer W' = rtpServer W \<and>
    creatureCache W' = creatureCache W \<and> draws W' = draws W \<and> creatureUniverseMap W' = creatureUniverseMap W"
  using assms by (cases W; cases W') simp

lemma notify_more: "world.more (notifyCancelledSession env r W) = world.more W"
  by (simp add: notifyCancelledSession_def scheduleImmediateTeardown_def schedule_event_def Let_def split: option.splits)

lemma notify_all_more: "world.more (notify_all env rs W) = world.more W"
  by (induction rs arbitrary: W) (simp_all add: notify_all_def notify_more)

lemma registerSession_more: "world.more (registerSession env u s b c W) = world.more W"
  by (auto simp: registerSession_def adopt_locked_def put_universe_def notify_all_more Let_def split: option.splits prod.splits)

lemma registerSession_eventLoop: "eventLoop (registerSession env u s b c W) = eventLoop W"
  by (auto simp: registerSession_def adopt_locked_def put_universe_def Let_def split: option.splits prod.splits)

text \<open>The playback state: sessions, registry, generations and scheduled events.\<close>

definition undisturbed :: "('t, 'a) world_scheme \<Rightarrow> ('t, 'b) world_scheme \<Rightarrow> bool" where
  "undisturbed W W' \<longleftrightarrow> heap W' = heap W \<and> universeStates W' = universeStates W \<and>
     nextActivityGeneration W' = nextActivityGeneration W \<and> outbox W' = outbox W \<and> eventLoop W' = eventLoop W"

lemma undisturbed_refl [simp]: "undisturbed W W"
  by (simp add: undisturbed_def)

lemma undisturbed_update [simp]:
  fixes W :: "('t, 'a) scheduler_world_scheme"
  shows "undisturbed W (W\<lparr>services := S\<rparr>)" "undisturbed W (W\<lparr>audioLoader := L\<rparr>)" "undisturbed W (W\<lparr>draws := n\<rparr>)"
    "undisturbed W (W\<lparr>services := S, audioLoader := L\<rparr>)"
    "undisturbed W (release_unused_slot b W)"
  by (simp_all add: undisturbed_def release_unused_slot_def)

lemma undisturbed_trans: "undisturbed W W' \<Longrightarrow> undisturbed W' W'' \<Longrightarrow> undisturbed W W''"
  by (simp add: undisturbed_def)

text \<open>A loader in one of its reachable states.\<close>

definition loader_sound :: "('t, 'a) scheduler_world_scheme \<Rightarrow> bool" where
  "loader_sound W \<longleftrightarrow> (\<forall>L. audioLoader W = Some L \<longrightarrow> (\<exists>S. loader_ok S \<and> loader S = L))"

lemma accepted_not_shut:
  assumes "loader_ok S" "tryReserve probe (loader S) = (SubmitAccepted, L)"
  shows "\<not> shuttingDown L"
proof -
  have "shutdown_ok (S\<lparr>loader := L, tokens := tokens S + 1\<rparr>)"
    using assms reserve_shutdown [of S probe SubmitAccepted L] by (simp add: loader_ok_def)
  then show ?thesis by (auto simp: shutdown_ok_def)
qed

lemma admit_animation_frame:
  assumes "admit_animation env a W = (res, W1)"
  shows "undisturbed W W1 \<and> config W1 = config W \<and> draws W1 = draws W"
  using assms
  by (auto simp: admit_animation_def reserve_slot_def undisturbed_def Let_def split: if_splits option.splits prod.splits submit_result.splits)

lemma admit_animation_slot:
  assumes "admit_animation env a W = (Inr True, W1)" "loader_sound W"
  shows "\<exists>L. audioLoader W1 = Some L \<and> \<not> shuttingDown L"
  using assms accepted_not_shut
  by (fastforce simp: admit_animation_def reserve_slot_def loader_sound_def Let_def internal_error_def
      split: if_splits option.splits prod.splits submit_result.splits)

lemma admit_animation_config: "admit_animation env a W = (Inr b, W1) \<Longrightarrow> config W1 \<noteq> None"
  by (auto simp: admit_animation_def reserve_slot_def internal_error_def Let_def
      split: if_splits option.splits prod.splits submit_result.splits)

lemma publish_frame:
  assumes "publish_session env cfg s a u reason b W = (r, W1)"
  shows "audioLoader W1 = audioLoader W \<and> eventLoop W1 = eventLoop W \<and> r = length (heap W)"
proof -
  define s1 where "s1 = (if has_sound a then setAudioTransport (createAudioTransport env cfg) s else s)"
  define V where "V = registerSession (se_service env) u (Some (length (heap W))) False b (W\<lparr>heap := heap W @ [s1]\<rparr>)"
  have W1: "W1 = V\<lparr>services := services W1\<rparr>" and r: "r = length (heap W)"
    using assms by (auto simp: publish_session_def Let_def V_def s1_def)
  have "world.more V = world.more (W\<lparr>heap := heap W @ [s1]\<rparr>)" "eventLoop V = eventLoop (W\<lparr>heap := heap W @ [s1]\<rparr>)"
    by (simp_all only: V_def registerSession_more registerSession_eventLoop)
  then have "audioLoader V = audioLoader W" "eventLoop V = eventLoop W"
    using scheduler_more [of V "W\<lparr>heap := heap W @ [s1]\<rparr>"] by simp_all
  moreover have "audioLoader W1 = audioLoader V" "eventLoop W1 = eventLoop V" by (subst W1, simp)+
  ultimately show ?thesis using r by simp
qed

lemma submit_accepted:
  assumes "audioLoader W = Some L" "\<not> shuttingDown L"
  shows "submit_audio_load env r u W =
    (Inr r, W\<lparr>audioLoader := Some (snd (submit_reserved True (load_job_for r u (heap W ! r)) L))\<rparr>)"
  using assms by (simp add: submit_audio_load_def submit_reserved_def)

text \<open>The three ways a request can go.\<close>

lemma scheduleAnimation_cases:
  assumes "scheduleAnimation env start a u reason b W = (res, W')"
  obtains (refused) e where "admit_animation env a W = (Inl e, W')" "res = Inl e"
  | (undecodable) slot W1 e where "admit_animation env a W = (Inr slot, W1)" "cancelled (build_session env start a u reason W1)"
      "res = Inl e" "W' = release_unused_slot slot (W1\<lparr>draws := draws W1 + 1\<rparr>)"
  | (published) slot W1 cfg r W3 where "admit_animation env a W = (Inr slot, W1)"
      "\<not> cancelled (build_session env start a u reason W1)" "config W1 = Some cfg"
      "publish_session env cfg (build_session env start a u reason W1) a u reason b (W1\<lparr>draws := draws W1 + 1\<rparr>) = (r, W3)"
      "(if slot then submit_audio_load env r u W3 else (Inr r, start_directly cfg start a r W3)) = (res, W')"
proof -
  obtain adm W1 where a: "admit_animation env a W = (adm, W1)" by fastforce
  show thesis
  proof (cases adm)
    case (Inl e)
    then show thesis using refused assms a by (simp add: scheduleAnimation_def)
  next
    case (Inr slot)
    define s where "s = build_session env start a u reason W1"
    obtain cfg where cfg: "config W1 = Some cfg" using admit_animation_config a Inr by blast
    obtain r W3 where pub: "publish_session env cfg s a u reason b (W1\<lparr>draws := draws W1 + 1\<rparr>) = (r, W3)" by fastforce
    show thesis
    proof (cases "cancelled s")
      case True
      then show thesis
        using assms a Inr undecodable [of slot W1] by (auto simp: scheduleAnimation_def s_def [symmetric] Let_def)
    next
      case False
      then show thesis
        using assms a Inr cfg pub published [of slot W1 cfg r W3]
        by (simp add: scheduleAnimation_def s_def [symmetric] Let_def)
    qed
  qed
qed

section \<open>A refused request\<close>

text \<open>
  C4: a refused animation disturbs nothing. Whatever the reason (server not ready, bad timing, a
  live-streamed creature, a full or stopping loader, a frame that does not decode), no session is
  cancelled or registered, no playlist or animation queue changes and no event is scheduled.
\<close>

theorem refused_schedule_disturbs_nothing:
  fixes W :: "('t, 'a) scheduler_world_scheme"
  assumes "loader_sound W" "scheduleAnimation env start a u reason allOfIt W = (Inl e, W')"
  shows "undisturbed W W'"
  using assms(2)
proof (cases rule: scheduleAnimation_cases)
  case (refused e')
  then show ?thesis using admit_animation_frame by blast
next
  case (undecodable slot W1 e')
  then show ?thesis using admit_animation_frame undisturbed_trans undisturbed_update by metis
next
  case (published slot W1 cfg r W3)
  moreover have "slot \<Longrightarrow> \<exists>L. audioLoader W3 = Some L \<and> \<not> shuttingDown L"
    using admit_animation_slot [of env a W W1] published(1,4) assms(1) publish_frame by fastforce
  ultimately show ?thesis using submit_accepted by (fastforce split: if_splits)
qed

section \<open>An accepted request\<close>

lemma streamingRegistry_check:
  "isCreatureStreaming now c S = (b, S') \<Longrightarrow> streamingRegistry S' = streamingRegistry S \<and> (\<not> b \<longrightarrow> c \<notin> set (streamingRegistry S))"
  by (auto simp: isCreatureStreaming_def getOrCreateRuntime_def Let_def split: if_splits option.splits)

lemma first_streaming_None:
  "first_streaming now ts S = (None, S') \<Longrightarrow> t \<in> set ts \<Longrightarrow> creature_id t \<notin> set (streamingRegistry S)"
proof (induction ts arbitrary: S)
  case (Cons t' ts)
  then obtain S1 where "isCreatureStreaming now (creature_id t') S = (False, S1)" "first_streaming now ts S1 = (None, S')"
    by (auto split: prod.splits if_splits)
  then show ?case
    using Cons.IH [of S1] Cons.prems(2) streamingRegistry_check [of now "creature_id t'" S False S1] by auto
qed simp

lemma admit_animation_streaming:
  assumes "admit_animation env a W = (Inr b, W1)"
  shows "(\<forall>t \<in> set (tracks a). creature_id t \<notin> set (streamingRegistry (services W))) \<and> \<not> invalid_timing a \<and>
    (\<exists>cfg. config W = Some cfg \<and> (b \<longleftrightarrow> needs_async_load cfg a))"
  using assms first_streaming_None
  by (auto simp: admit_animation_def reserve_slot_def internal_error_def Let_def
      split: if_splits option.splits prod.splits submit_result.splits)

lemma active_in_heap:
  assumes "registry_ok W" "r \<in> set (getActiveSessions W u)" shows "r < length (heap W)"
proof -
  obtain st where st: "map_of (universeStates W) u = Some st" "r \<in> set (activeSessions st)"
    using assms(2) by (cases "map_of (universeStates W) u") (simp_all add: getActiveSessions_def)
  then have "exclusive (heap W) (activeSessions st)"
    using assms(1) unfolding registry_ok_def by blast
  then show ?thesis using st(2) by (simp add: exclusive_def)
qed

lemma first_streaming_generations:
  "generation_of (snd (first_streaming now ts S)) c = generation_of S c"
proof (induction ts arbitrary: S)
  case (Cons t ts)
  have "generation_of (snd (isCreatureStreaming now (creature_id t) S)) c = generation_of S c"
    by (auto simp: isCreatureStreaming_def getOrCreateRuntime_def generation_of_def Let_def split: option.splits)
  then show ?case using Cons by (auto split: prod.splits)
qed simp

lemma admit_animation_generations:
  assumes "admit_animation env a W = (res, W1)"
  shows "generation_of (services W1) c = generation_of (services W) c"
proof -
  have "services W1 \<in> {services W, snd (first_streaming (env_now (se_service env)) (tracks a) (services W))}"
    using assms
    by (auto simp: admit_animation_def reserve_slot_def Let_def split: if_splits option.splits prod.splits submit_result.splits)
  then show ?thesis using first_streaming_generations by fastforce
qed

lemma publish_effect:
  fixes W :: "('t, 'a) scheduler_world_scheme"
  assumes ok: "registry_ok W" and s: "\<not> cancelled s" "activityGeneration s = 0" and p: "publish_session env cfg s a u reason allOfIt W = (r, W1)"
  shows "r = length (heap W) \<and> length (heap W1) = Suc r \<and> r \<in> set (getActiveSessions W1 u) \<and> \<not> cancelled (heap W1 ! r) \<and>
    startingFrame (heap W1 ! r) = startingFrame s"
proof -
  let ?r = "length (heap W)"
  define s1 where "s1 = (if has_sound a then setAudioTransport (createAudioTransport env cfg) s else s)"
  define V where "V = W\<lparr>heap := heap W @ [s1]\<rparr>"
  define V1 where "V1 = registerSession (se_service env) u (Some ?r) False allOfIt V"
  have rok: "registry_ok V" unfolding V_def
    by (rule registry_ok_append [OF ok]) (simp add: s1_def s(2) setAudioTransport_def)
  have fresh: "?r \<notin> set (getActiveSessions V u)"
    using active_in_heap [OF ok, of _ u] by (auto simp: getActiveSessions_def V_def)
  note eff = registerSession_effect [where W = V and r = ?r and env = "se_service env" and u = u and isPl = False
      and allOfIt = allOfIt, OF rok _ fresh]
  have "heap W1 = heap V1" "universeStates W1 = universeStates V1" and r: "r = ?r"
    using p by (auto simp: publish_session_def Let_def V_def V1_def s1_def)
  moreover have "?r < length (heap V)" "heap V ! ?r = s1" by (simp_all add: V_def)
  ultimately show ?thesis
    using eff(1,3,5) s(1) by (auto simp: V1_def getActiveSessions_def setActivityGeneration_def s1_def setAudioTransport_def V_def)
qed

lemma start_directly_effect:
  assumes "r < length (heap W)" "r \<in> set (getActiveSessions W u)" "\<not> cancelled (heap W ! r)"
    and "has_sound a \<or> startingFrame (heap W ! r) = start"
  shows "r \<in> set (getActiveSessions (start_directly cfg start a r W) u) \<and>
    \<not> cancelled (heap (start_directly cfg start a r W) ! r) \<and>
    (startingFrame (heap (start_directly cfg start a r W) ! r), RunnerEvent r) \<in> set (outbox (start_directly cfg start a r W))"
  using assms
  by (auto simp: start_directly_def Let_def getActiveSessions_def setStartingFrame_def)

text \<open>
  C5: an accepted animation is live. The new session is registered on its universe and not
  cancelled, none of its creatures was being live-streamed, and it will get going: either its
  runner event is queued for exactly its starting frame, or its load job is the newest in the
  loader's queue.
\<close>

theorem accepted_schedule_is_live:
  fixes W :: "('t, 'a) scheduler_world_scheme"
  assumes "registry_ok W" "loader_sound W" "scheduleAnimation env start a u reason allOfIt W = (Inr r, W')"
  shows "(\<forall>t \<in> set (tracks a). creature_id t \<notin> set (streamingRegistry (services W))) \<and>
    r = length (heap W) \<and> r \<in> set (getActiveSessions W' u) \<and> \<not> cancelled (heap W' ! r) \<and>
    (\<exists>cfg. config W = Some cfg \<and>
      (if needs_async_load cfg a
       then \<exists>L q. audioLoader W' = Some L \<and> loadQueue L = q @ [load_job_for r u (heap W' ! r)]
       else (startingFrame (heap W' ! r), RunnerEvent r) \<in> set (outbox W')))"
proof -
  obtain slot W1 where adm: "admit_animation env a W = (Inr slot, W1)"
    using assms(3) by (auto simp: scheduleAnimation_def split: prod.splits sum.splits)
  note frame = admit_animation_frame [OF adm] and streaming = admit_animation_streaming [OF adm]
  then obtain cfg where cfg: "config W = Some cfg" "slot \<longleftrightarrow> needs_async_load cfg a" by blast
  define W2 where "W2 = W1\<lparr>draws := draws W1 + 1\<rparr>"
  define s where "s = build_session env start a u reason W1"
  have s: "startingFrame s = start" "activityGeneration s = 0"
    by (simp_all add: s_def build_session_def new_session_def setActivityReason_def case_prod_unfold Let_def)
  have live: "\<not> cancelled s"
    using assms(3) adm by (auto simp: scheduleAnimation_def s_def Let_def)
  obtain r' W3 where pub: "publish_session env cfg s a u reason allOfIt W2 = (r', W3)" by fastforce
  have gens: "\<forall>c. generation_of (services W1) c < nextActivityGeneration W"
    using admit_animation_generations [OF adm] assms(1) by (simp add: registry_ok_def)
  have "registry_ok W2"
    using frame gens by (intro registry_ok_cong [OF assms(1)]) (simp_all add: W2_def undisturbed_def)
  note P = publish_effect [OF this live s(2) pub]
  have run: "(if slot then submit_audio_load env r' u W3 else (Inr r', start_directly cfg start a r' W3)) = (Inr r, W')"
    using assms(3) adm live cfg frame pub by (auto simp: scheduleAnimation_def s_def [symmetric] W2_def Let_def)
  have len: "heap W2 = heap W" using frame by (simp add: W2_def undisturbed_def)
  show ?thesis
  proof (cases slot)
    case True
    then obtain L where L: "audioLoader W3 = Some L" "\<not> shuttingDown L"
      using admit_animation_slot [of env a W W1] adm assms(2) publish_frame [OF pub] by (auto simp: W2_def)
    have "r = r'" "W' = W3\<lparr>audioLoader := Some (snd (submit_reserved True (load_job_for r' u (heap W3 ! r')) L))\<rparr>"
      using run True submit_accepted [OF L, of env r' u] by auto
    then show ?thesis
      using P L(2) cfg True streaming len by (auto simp: submit_reserved_def getActiveSessions_def)
  next
    case False
    then have "r = r'" "W' = start_directly cfg start a r' W3" using run by auto
    moreover have "r' = length (heap W)" using P len by simp
    moreover have "r' < length (heap W3)" "r' \<in> set (getActiveSessions W3 u)" "\<not> cancelled (heap W3 ! r')" "has_sound a \<or> startingFrame (heap W3 ! r') = start"
      using P len s(1) by auto
    ultimately have "r' \<in> set (getActiveSessions W' u) \<and> \<not> cancelled (heap W' ! r') \<and>
        (startingFrame (heap W' ! r'), RunnerEvent r') \<in> set (outbox W')"
      using start_directly_effect [of r' W3 u a start cfg] by blast
    then show ?thesis using \<open>r = r'\<close> \<open>r' = length (heap W)\<close> cfg False streaming by auto
  qed
qed

section \<open>A load that fails late\<close>

lemma abort_missing:
  "\<forall>q \<in> set (getActiveSessions W u). sessionId (heap W ! q) \<noteq> sid \<Longrightarrow>
   abortLoadingSession u sid W = (\<lparr>sessionRemoved = False, playlistCleared = False, queuedAnimationsDropped = 0\<rparr>, W)"
proof (cases "map_of (universeStates W) u")
  case (Some st)
  assume "\<forall>q \<in> set (getActiveSessions W u). sessionId (heap W ! q) \<noteq> sid"
  then have "find (\<lambda>r. sessionId (heap W ! r) = sid) (activeSessions st) = None"
    using Some by (simp add: find_None_iff getActiveSessions_def)
  then show ?thesis using Some by (simp add: abortLoadingSession_def)
qed (simp add: abortLoadingSession_def)

lemma abort_present:
  assumes "r \<in> set (getActiveSessions W u)" "distinct (getActiveSessions W u)"
    and "\<forall>q \<in> set (getActiveSessions W u). sessionId (heap W ! q) = sid \<longleftrightarrow> q = r"
    and "abortLoadingSession u sid W = (res, W')"
  shows "sessionRemoved res \<and> (playlistCleared res \<longleftrightarrow> activityReason (heap W ! r) = Playlist) \<and>
    getActiveSessions W' u = filter (\<lambda>q. q \<noteq> r) (getActiveSessions W u) \<and> hasQueuedAnimation W' u = False \<and>
    (activityReason (heap W ! r) \<noteq> Playlist \<longrightarrow> getPlaylistState W' u = getPlaylistState W u) \<and>
    (\<forall>v. v \<noteq> u \<longrightarrow> map_of (universeStates W') v = map_of (universeStates W) v) \<and>
    heap W' = heap W \<and> services W' = services W \<and> outbox W' = outbox W"
proof -
  obtain st where st: "map_of (universeStates W) u = Some st"
    using assms(1) by (cases "map_of (universeStates W) u") (simp_all add: getActiveSessions_def)
  then have act: "getActiveSessions W u = activeSessions st" by (simp add: getActiveSessions_def)
  obtain q where q: "find (\<lambda>r. sessionId (heap W ! r) = sid) (activeSessions st) = Some q"
    using assms(1,3) act by (cases "find (\<lambda>r. sessionId (heap W ! r) = sid) (activeSessions st)") (auto simp: find_None_iff)
  then have "q = r" using assms(3) act by (auto simp: find_Some_iff)
  have rm: "remove1 r (activeSessions st) = filter (\<lambda>q. q \<noteq> r) (activeSessions st)"
    using assms(2) act by (simp add: distinct_remove1_removeAll removeAll_filter_not_eq eq_commute)
  define cleared where "cleared \<longleftrightarrow> activityReason (heap W ! r) = Playlist"
  define st1 where "st1 = st\<lparr>activeSessions := filter (\<lambda>q. q \<noteq> r) (activeSessions st), animationQueue := []\<rparr>"
  define st2 where "st2 = (if cleared then st1\<lparr>playlistState := PlNone, shouldResumePlaylist := False, playlistId := [],
      playlistStatus := None\<rparr> else st1)"
  have q': "find (\<lambda>r. sessionId (heap W ! r) = sid) (activeSessions st) = Some r" using q \<open>q = r\<close> by simp
  have "abortLoadingSession u sid W =
      (\<lparr>sessionRemoved = True, playlistCleared = cleared, queuedAnimationsDropped = length (animationQueue st)\<rparr>,
       if activeSessions st2 = [] \<and> playlistState st2 = PlNone then erase_universe u W else put_universe u st2 W)"
    unfolding abortLoadingSession_def Let_def st option.case q' rm st2_def st1_def cleared_def by (rule refl)
  then have r: "res = \<lparr>sessionRemoved = True, playlistCleared = cleared, queuedAnimationsDropped = length (animationQueue st)\<rparr>"
    and W': "W' = (if activeSessions st2 = [] \<and> playlistState st2 = PlNone then erase_universe u W else put_universe u st2 W)"
    using assms(4) by simp_all
  have a2: "activeSessions st2 = filter (\<lambda>q. q \<noteq> r) (activeSessions st)" "animationQueue st2 = []"
      "\<not> cleared \<Longrightarrow> playlistState st2 = playlistState st"
    by (simp_all add: st2_def st1_def)
  show ?thesis
  proof (cases "activeSessions st2 = [] \<and> playlistState st2 = PlNone")
    case True
    then have "W' = erase_universe u W" using W' by simp
    then show ?thesis
      using r a2 True st
      by (simp add: getActiveSessions_def hasQueuedAnimation_def getPlaylistState_def cleared_def erase_universe_def)
  next
    case False
    then have "W' = put_universe u st2 W" using W' by auto
    then show ?thesis
      using r a2 st by (simp add: getActiveSessions_def hasQueuedAnimation_def getPlaylistState_def cleared_def)
  qed
qed


section \<open>Interrupts\<close>

lemma undisturbed_views:
  assumes "undisturbed W W'"
  shows "getPlaylistState W' = getPlaylistState W" "getActiveSessions W' = getActiveSessions W"
    "getPlaylistStatus W' = getPlaylistStatus W"
  using assms by (simp_all add: undisturbed_def getPlaylistState_def getActiveSessions_def getPlaylistStatus_def fun_eq_iff)

lemma mark_interrupted_frame:
  assumes "mark_interrupted u resume W = (b, W1)"
  shows "heap W1 = heap W \<and> outbox W1 = outbox W \<and> world.more W1 = world.more W \<and>
    getActiveSessions W1 v = getActiveSessions W v \<and> getPlaylistStatus W1 v = getPlaylistStatus W v \<and>
    (b \<longleftrightarrow> getPlaylistState W u = PlActive) \<and>
    getPlaylistState W1 v = (if b \<and> v = u then PlInterrupted else getPlaylistState W v)"
  using assms
  by (auto simp: mark_interrupted_def getActiveSessions_def getPlaylistStatus_def getPlaylistState_def put_universe_def
      split: option.splits if_splits)

lemma unmark_interrupted_frame:
  "heap (unmark_interrupted u W) = heap W \<and> outbox (unmark_interrupted u W) = outbox W \<and>
   getActiveSessions (unmark_interrupted u W) v = getActiveSessions W v \<and>
   getPlaylistStatus (unmark_interrupted u W) v = getPlaylistStatus W v \<and>
   getPlaylistState (unmark_interrupted u W) v =
     (if v = u \<and> getPlaylistState W u = PlInterrupted then PlActive else getPlaylistState W v)"
  by (auto simp: unmark_interrupted_def getActiveSessions_def getPlaylistStatus_def getPlaylistState_def put_universe_def
      split: option.splits)

text \<open>
  C16: an interrupt that cannot be scheduled leaves everything as it was: no session is cancelled,
  nothing is scheduled, and a playlist it had already marked as interrupted is active again.
\<close>

theorem failed_interrupt_changes_nothing:
  fixes W :: "('t, 'a) scheduler_world_scheme"
  assumes "loader_sound W" "interrupt env u a resume W = (Inl e, W')"
  shows "heap W' = heap W \<and> outbox W' = outbox W \<and> getActiveSessions W' v = getActiveSessions W v \<and>
    getPlaylistState W' v = getPlaylistState W v \<and> getPlaylistStatus W' v = getPlaylistStatus W v"
proof (cases "eventLoop W = None")
  case True
  then show ?thesis using assms(2) by (auto simp: interrupt_def)
next
  case False
  obtain b W1 where m: "mark_interrupted u resume W = (b, W1)" by fastforce
  note M = mark_interrupted_frame [OF m]
  obtain W2 where s: "scheduleAnimation env (next_frame W1) a u AdHoc True W1 = (Inl e, W2)"
      and W': "W' = (if b then unmark_interrupted u W2 else W2)"
    using assms(2) False m by (auto simp: interrupt_def Let_def split: prod.splits sum.splits)
  have "loader_sound W1"
    using assms(1) M [of u] scheduler_more [of W1 W] by (simp add: loader_sound_def)
  then have U: "undisturbed W1 W2" using refused_schedule_disturbs_nothing s by blast
  note V = undisturbed_views [OF U]
  have "heap W2 = heap W" "outbox W2 = outbox W" using U M [of u] by (simp_all add: undisturbed_def)
  then show ?thesis
    using M [of v] M [of u] V W' unmark_interrupted_frame [of u W2 v] by (cases b; cases "v = u") simp_all
qed


section \<open>Witnesses\<close>

definition demo_db :: database where
  "demo_db = \<lparr>getAnimation = (\<lambda>aid. Inr (demo_animation [''x'', ''y''])),
     getPlaylist = (\<lambda>pid. Inr \<lparr>pl_id = pid, pl_name = ''show'', pl_items = [\<lparr>pi_animation_id = ''a'', pi_weight = 2\<rparr>],
       pl_number_of_items = 1\<rparr>),
     getCreature = (\<lambda>c. Inr \<lparr>creature_name = c, creature_channel_offset = 5, idle_animation_ids = []\<rparr>)\<rparr>"

definition demo_sched_env :: "unit sched_env" where
  "demo_sched_env = \<lparr>se_service = demo_env, se_decode = (\<lambda>f. Some [1, 2]), se_uuid = (\<lambda>n. replicate (Suc n) (CHR ''s'')),
     se_shuffle = (\<lambda>n ids. ids), se_pick = (\<lambda>n k. 0), se_db = Some demo_db,
     se_kit = \<lparr>kit_rtp = (), kit_native = (\<lambda>_. ()), kit_start = (\<lambda>_ t. t), kit_stop = (\<lambda>t. t), kit_lease = (\<lambda>_ _ t. Some t)\<rparr>,
     se_load = (\<lambda>_. Some demo_sound)\<rparr>"

definition demo_sched_world :: "unit scheduler_world" where
  "demo_sched_world = \<lparr>heap = [], universeStates = [], nextActivityGeneration = 1, services = new_service,
     eventLoop = Some 100, outbox = [], creatureCache = None, fixtureCache = None, fixtureUniverseMap = None,
     fixturePatternRunner = None, lastSeen = [], wire = [], creatureUniverseMap = None,
     audioLoader = new_audio_loader 1 1, rtpServer = Some demo_output,
     config = Some \<lparr>audioMode = RtpAudio, travelMode = False, animationDelayMs = 0, streamingTimeoutFrames = 1000\<rparr>,
     audioBuffers = [], draws = 0\<rparr>"

definition demo_streaming_world :: "unit scheduler_world" where
  "demo_streaming_world = startPlaylist 1 ''show'' (demo_sched_world\<lparr>services := new_service\<lparr>streamingRegistry := [''beaky'']\<rparr>\<rparr>)"

definition demo_song :: animation where
  "demo_song = (demo_animation [''x'', ''y''])\<lparr>metadata := (metadata (demo_animation []))\<lparr>sound_file := ''song.wav''\<rparr>\<rparr>"

lemma demo_loader_sound: "loader_sound demo_sched_world" "loader_sound demo_streaming_world"
proof -
  have "\<exists>S. loader_ok S \<and> loader S = L" if "new_audio_loader 1 1 = Some L" for L :: "(nat \<times> universe_t) audio_loader"
    using loader_ok_start [OF that] by (intro exI [of _ "start_loader L"]) (simp add: start_loader_def)
  then show "loader_sound demo_sched_world" "loader_sound demo_streaming_world"
    by (simp_all add: loader_sound_def demo_sched_world_def demo_streaming_world_def startPlaylist_def put_universe_def Let_def)
qed

lemma demo_registry_ok: "registry_ok demo_sched_world"
  by (simp add: registry_ok_def demo_sched_world_def generation_of_def new_service_def)

theorem refused_schedule_disturbs_nothing_witness:
  "isl (fst (scheduleAnimation demo_sched_env 101 demo_song 1 Play False demo_streaming_world)) \<and>
   undisturbed demo_streaming_world (snd (scheduleAnimation demo_sched_env 101 demo_song 1 Play False demo_streaming_world))"
proof -
  have i: "isl (fst (scheduleAnimation demo_sched_env 101 demo_song 1 Play False demo_streaming_world))" by code_simp
  then obtain e W' where "scheduleAnimation demo_sched_env 101 demo_song 1 Play False demo_streaming_world = (Inl e, W')"
    by (metis isl_def prod.collapse)
  then show ?thesis using refused_schedule_disturbs_nothing [OF demo_loader_sound(2)] i by fastforce
qed

theorem accepted_schedule_is_live_witness:
  "0 \<in> set (getActiveSessions (snd (scheduleAnimation demo_sched_env 101 demo_song 1 Play False demo_sched_world)) 1) \<and>
   map_option (\<lambda>L. map captured (loadQueue L))
     (audioLoader (snd (scheduleAnimation demo_sched_env 101 demo_song 1 Play False demo_sched_world))) = Some [(0, 1)]"
proof -
  have i: "fst (scheduleAnimation demo_sched_env 101 demo_song 1 Play False demo_sched_world) = Inr 0"
    and q: "map_option (\<lambda>L. map captured (loadQueue L))
     (audioLoader (snd (scheduleAnimation demo_sched_env 101 demo_song 1 Play False demo_sched_world))) = Some [(0, 1)]"
    by code_simp+
  then obtain W' where "scheduleAnimation demo_sched_env 101 demo_song 1 Play False demo_sched_world = (Inr 0, W')"
    by (metis prod.collapse)
  then show ?thesis
    using accepted_schedule_is_live [OF demo_registry_ok demo_loader_sound(1), of demo_sched_env 101 demo_song 1 Play False 0 W'] q
    by simp
qed

text \<open>Session 0 was replaced by session 1 while its sound was loading.\<close>

definition demo_replaced :: "unit scheduler_world" where
  "demo_replaced = snd (scheduleAnimation demo_sched_env 101 demo_song 1 Play False
     (snd (scheduleAnimation demo_sched_env 101 demo_song 1 Play False demo_sched_world)))"


theorem failed_interrupt_changes_nothing_witness:
  "getPlaylistState demo_streaming_world 1 = PlActive \<and>
   isl (fst (interrupt demo_sched_env 1 demo_song True demo_streaming_world)) \<and>
   getPlaylistState (snd (interrupt demo_sched_env 1 demo_song True demo_streaming_world)) 1 = PlActive"
proof -
  have i: "isl (fst (interrupt demo_sched_env 1 demo_song True demo_streaming_world))"
    and p: "getPlaylistState demo_streaming_world 1 = PlActive"
    by code_simp+
  then obtain e W' where "interrupt demo_sched_env 1 demo_song True demo_streaming_world = (Inl e, W')"
    by (metis isl_def prod.collapse)
  then show ?thesis
    using failed_interrupt_changes_nothing [OF demo_loader_sound(2), of demo_sched_env 1 demo_song True e W' 1] i p by simp
qed

text \<open>Session 0 interrupted a playlist that is to be resumed, and has played to its end.\<close>

definition demo_interrupting :: "unit scheduler_world" where
  "demo_interrupting = snd (interrupt demo_sched_env 1 demo_song True (startPlaylist 1 ''show'' demo_sched_world))"


section \<open>Two ways to strand an interrupted playlist\<close>

text \<open>
  Only a finishing session decides about an interrupted playlist. If the interrupting session never
  plays because its sound cannot be loaded, or if the next queued animation cannot be scheduled
  when it finishes, the playlist stays interrupted with no event left to continue it.
\<close>

lemma failed_load_strands_playlist:
  "let W = audio_load_job (demo_sched_env\<lparr>se_load := (\<lambda>_. None)\<rparr>) (\<lambda>_ W. W) 0 1 demo_interrupting
   in getPlaylistState W 1 = PlInterrupted \<and> getActiveSessions W 1 = [] \<and> outbox W = []"
  by code_simp

lemma failed_queue_strands_playlist:
  "let W0 = queueAnimation 1 demo_song demo_interrupting;
       W = on_finish demo_sched_env 0 (W0\<lparr>services := (services W0)\<lparr>streamingRegistry := [''beaky'']\<rparr>\<rparr>)
   in getPlaylistState W 1 = PlInterrupted \<and> getActiveSessions W 1 = [] \<and> hasQueuedAnimation W 1 = False \<and>
      outbox W = [(101, AnimationLight False)]"
  by code_simp

text \<open>The last-used idle animation stays a candidate after the creature no longer lists it.\<close>

lemma delisted_idle_is_candidate: "idle_candidates [''a'', ''b''] (Some ''old'') = [''a'', ''b'', ''old'']"
  by code_simp
end
