(* ===== verification/Playlist_Event.thy ===== *)
theory Playlist_Event
  imports Scheduling
begin

text \<open>
  \<open>PlaylistEvent\<close> (src/src/server/eventloop/events/playlist.cpp): the event that picks the next
  animation of an active playlist, schedules it and its own successor. The random draw is
  \<open>se_pick\<close> of the environment; metrics are always present. Every early return is a branch.
\<close>

section \<open>The steps\<close>

definition DEFAULT_STREAMING_TIMEOUT_FRAMES :: framenum_t where "DEFAULT_STREAMING_TIMEOUT_FRAMES = 1000"

definition halt_playlist :: "universe_t \<Rightarrow> ('t, 'a) world_scheme \<Rightarrow> ('t, 'a) world_scheme" where
  "halt_playlist u W = (let W1 = clearPlaylist u W in
     W1\<lparr>services := broadcastPlaylistStatusToAllClients (empty_playlist_status u) (services W1)\<rparr>)"

definition weighted_choices :: "playlist_doc \<Rightarrow> string list" where
  "weighted_choices p = concat (map (\<lambda>it. replicate (unat (pi_weight it)) (pi_animation_id it)) (pl_items p))"

definition chooseWeightedAnimation ::
  "'t sched_env \<Rightarrow> universe_t \<Rightarrow> playlist_doc \<Rightarrow> ('t, 'a) scheduler_world_scheme \<Rightarrow>
   string result \<times> ('t, 'a) scheduler_world_scheme"
where
  "chooseWeightedAnimation env u p W =
     (let choices = weighted_choices p in
      if choices = []
      then (internal_error (''Playlist '' @ pl_id p @ '' has no animations to schedule. Halting playlist playback.''),
            halt_playlist u W)
      else (Inr (choices ! se_pick env (draws W) (length choices)), W\<lparr>draws := draws W + 1\<rparr>))"

definition fetchPlaylist ::
  "database \<Rightarrow> universe_t \<Rightarrow> playlist_status \<Rightarrow> ('t, 'a) world_scheme \<Rightarrow> playlist_doc result \<times> ('t, 'a) world_scheme"
where
  "fetchPlaylist db u ps W = (case getPlaylist db (playlist ps) of
     Inl _ \<Rightarrow> (internal_error (''Playlist ID '' @ playlist ps @ '' not found while in a playlist event. halting playback.''),
               halt_playlist u W)
   | Inr p \<Rightarrow> (Inr p, W))"

definition fetchAnimation ::
  "database \<Rightarrow> universe_t \<Rightarrow> string \<Rightarrow> ('t, 'a) world_scheme \<Rightarrow> animation result \<times> ('t, 'a) world_scheme"
where
  "fetchAnimation db u aid W = (case getAnimation db aid of
     Inl _ \<Rightarrow> (internal_error (''Animation ID '' @ aid @ '' not found while in a playlist event. Halting playlist playback.''),
               halt_playlist u W)
   | Inr a \<Rightarrow> (Inr a, W))"

definition collectInvolvedCreatures :: "animation \<Rightarrow> creatureId_t list" where
  "collectInvolvedCreatures a = remdups (filter (\<lambda>c. c \<noteq> []) (map creature_id (tracks a)))"

text \<open>A conflict is transient: the event is retried later. Any other error ends the playlist.\<close>

definition error_message :: "server_error \<Rightarrow> string" where
  "error_message e = (case e of ServerError c m \<Rightarrow> m)"

definition error_code_of :: "server_error \<Rightarrow> error_code" where
  "error_code_of e = (case e of ServerError c m \<Rightarrow> c)"

definition scheduleChosenAnimation ::
  "'t sched_env \<Rightarrow> universe_t \<Rightarrow> animation \<Rightarrow> ('t, 'a) scheduler_world_scheme \<Rightarrow>
   framenum_t result \<times> ('t, 'a) scheduler_world_scheme"
where
  "scheduleChosenAnimation env u a W = (case player_scheduleAnimation env (next_frame W) a u Playlist W of
     (Inr lastFrame, W1) \<Rightarrow> (Inr lastFrame, W1)
   | (Inl e, W1) \<Rightarrow>
       if error_code_of e = Conflict
       then (let delay = (case config W1 of None \<Rightarrow> DEFAULT_STREAMING_TIMEOUT_FRAMES
                          | Some cfg \<Rightarrow> ucast (streamingTimeoutFrames cfg))
             in (Inl (ServerError Conflict (error_message e)),
                 schedule_event (next_frame W1 + delay) (PlaylistTick u) W1))
       else (internal_error (''Unable to schedule animation: '' @ error_message e @ ''. Halting playlist playback.''),
             halt_playlist u W1))"

definition updatePlaylistStatus ::
  "universe_t \<Rightarrow> playlist_status \<Rightarrow> string \<Rightarrow> ('t, 'a) world_scheme \<Rightarrow> ('t, 'a) world_scheme"
where
  "updatePlaylistStatus u ps chosen W =
     (let ps1 = ps\<lparr>current_animation := chosen\<rparr>; W1 = setPlaylistStatus u ps1 W
      in W1\<lparr>services := broadcastPlaylistStatusToAllClients ps1 (services W1)\<rparr>)"

definition idle_bystanders ::
  "universe_t \<Rightarrow> creatureId_t list \<Rightarrow> (creatureId_t, universe_t) object_cache \<Rightarrow> creatureId_t list"
where
  "idle_bystanders u involved universes =
     filter (\<lambda>c. c \<notin> set involved \<and> cache_get universes c = Got (Some u)) (cache_getAllKeys universes)"

definition startIdleLoopsForUniverse ::
  "'t sched_env \<Rightarrow> universe_t \<Rightarrow> creatureId_t list \<Rightarrow> ('t, 'a) scheduler_world_scheme \<Rightarrow> ('t, 'a) scheduler_world_scheme"
where
  "startIdleLoopsForUniverse env u involved W = (case creatureUniverseMap W of
     None \<Rightarrow> W
   | Some universes \<Rightarrow> fold (\<lambda>c W. snd (startIdleIfNeeded env c W)) (idle_bystanders u involved universes) W)"

section \<open>\<open>executeImpl\<close>\<close>

text \<open>From the chosen playlist on.\<close>

definition play_from_playlist ::
  "'t sched_env \<Rightarrow> database \<Rightarrow> universe_t \<Rightarrow> playlist_status \<Rightarrow> playlist_doc \<Rightarrow> ('t, 'a) scheduler_world_scheme \<Rightarrow>
   framenum_t result \<times> ('t, 'a) scheduler_world_scheme"
where
  "play_from_playlist env db u ps p W = (case chooseWeightedAnimation env u p W of
     (Inl e, W1) \<Rightarrow> (Inl e, W1)
   | (Inr chosen, W1) \<Rightarrow> (case fetchAnimation db u chosen W1 of
       (Inl e, W2) \<Rightarrow> (Inl e, W2)
     | (Inr a, W2) \<Rightarrow> (case scheduleChosenAnimation env u a W2 of
         (Inl e, W3) \<Rightarrow> (Inl e, W3)
       | (Inr lastFrame, W3) \<Rightarrow>
           (let W4 = schedule_event (lastFrame + 1) (PlaylistTick u) W3;
                W5 = updatePlaylistStatus u ps chosen W4
            in (Inr lastFrame, startIdleLoopsForUniverse env u (collectInvolvedCreatures a) W5)))))"

definition playlist_executeImpl ::
  "'t sched_env \<Rightarrow> framenum_t \<Rightarrow> universe_t \<Rightarrow> ('t, 'a) scheduler_world_scheme \<Rightarrow>
   framenum_t result \<times> ('t, 'a) scheduler_world_scheme"
where
  "playlist_executeImpl env f u W = (case se_db env of
     None \<Rightarrow> (internal_error ''PlaylistEvent: database unavailable'', W)
   | Some db \<Rightarrow>
       if eventLoop W = None then (internal_error ''PlaylistEvent: event loop unavailable'', W)
       else (case getPlaylistState W u of
           PlNone \<Rightarrow> (Inr f, halt_playlist u W)
         | PlStopped \<Rightarrow> (Inr f, halt_playlist u W)
         | PlInterrupted \<Rightarrow> (Inr f, W)
         | PlActive \<Rightarrow>
             if hasActiveNonIdleSession W u then (Inr f, W)
             else (case getPlaylistStatus W u of
                 None \<Rightarrow> (Inr f, halt_playlist u W)
               | Some ps \<Rightarrow>
                   if playlist ps = [] then (Inr f, halt_playlist u W)
                   else (case fetchPlaylist db u ps W of
                       (Inl e, W1) \<Rightarrow> (Inl e, W1)
                     | (Inr p, W1) \<Rightarrow> play_from_playlist env db u ps p W1))))"

section \<open>The weighted choice\<close>

lemma count_choices:
  "count_list (weighted_choices p) a = sum_list (map (\<lambda>it. unat (pi_weight it)) (filter (\<lambda>it. pi_animation_id it = a) (pl_items p)))"
proof -
  have "count_list (concat (map (\<lambda>it. replicate (unat (pi_weight it)) (pi_animation_id it)) its)) a =
      sum_list (map (\<lambda>it. unat (pi_weight it)) (filter (\<lambda>it. pi_animation_id it = a) its))" for its
  proof (induction its)
    case (Cons it its)
    have "count_list (replicate n x) a = (if x = a then n else 0)" for n and x :: string
      by (induction n) auto
    then show ?case using Cons by simp
  qed simp
  then show ?thesis by (simp add: weighted_choices_def)
qed

lemma length_choices: "length (weighted_choices p) = sum_list (map (\<lambda>it. unat (pi_weight it)) (pl_items p))"
  by (simp add: weighted_choices_def length_concat comp_def)

text \<open>
  the next animation is drawn by weight. Of the draws that the generator may make, exactly as
  many lead to an animation as its items weigh together, and their number is the total weight; so
  an item of weight zero is never played, and a playlist without weight is halted.
\<close>

theorem chosen_by_weight:
  fixes p :: playlist_doc
  defines "weight_sum \<equiv> sum_list (map (\<lambda>it. unat (pi_weight it)) (pl_items p))"
  shows "card {k. k < weight_sum \<and> weighted_choices p ! k = a} =
      sum_list (map (\<lambda>it. unat (pi_weight it)) (filter (\<lambda>it. pi_animation_id it = a) (pl_items p))) \<and>
    fst (chooseWeightedAnimation env u p W) =
      (if weight_sum = 0
       then internal_error (''Playlist '' @ pl_id p @ '' has no animations to schedule. Halting playlist playback.'')
       else Inr (weighted_choices p ! se_pick env (draws W) weight_sum))"
proof -
  have "card {k. k < length xs \<and> xs ! k = a} = count_list xs a" for xs :: "string list"
    by (simp add: count_list_eq_length_filter length_filter_conv_card eq_commute)
  then have "card {k. k < weight_sum \<and> weighted_choices p ! k = a} = count_list (weighted_choices p) a"
    unfolding weight_sum_def length_choices [symmetric] .
  moreover have len: "length (weighted_choices p) = weight_sum"
    using length_choices [of p] by (simp add: weight_sum_def)
  moreover have "weighted_choices p = [] \<longleftrightarrow> weight_sum = 0" using len by (metis length_0_conv)
  ultimately show ?thesis
    unfolding count_choices by (simp add: chooseWeightedAnimation_def Let_def)
qed

section \<open>Scheduled events are never withdrawn\<close>

definition grows :: "('t, 'a) world_scheme \<Rightarrow> ('t, 'b) world_scheme \<Rightarrow> bool" where
  "grows W W' \<longleftrightarrow> prefix (outbox W) (outbox W') \<and> (eventLoop W' = eventLoop W)"

named_theorems grows_intros

lemma grows_refl [simp]: "grows W W"
  by (simp add: grows_def)

lemma grows_trans: "grows W W' \<Longrightarrow> grows W' W'' \<Longrightarrow> grows W W''"
  unfolding grows_def using prefix_order.trans by auto

lemma grows_same: "outbox W' = outbox W \<Longrightarrow> eventLoop W' = eventLoop W \<Longrightarrow> grows W W'"
  by (simp add: grows_def)

lemma grows_schedule [simp]: "grows W (schedule_event f e W)"
  by (simp add: grows_def)

lemma grows_update_session [simp]: "grows W (update_session r f W)"
  by (simp add: grows_def)

lemma grows_event: "grows W W' \<Longrightarrow> e \<in> set (outbox W) \<Longrightarrow> e \<in> set (outbox W')"
  unfolding grows_def by (meson set_mono_prefix subsetD)

lemma grows_notify: "grows W (notifyCancelledSession env r W)"
  by (simp add: grows_def notifyCancelledSession_def scheduleImmediateTeardown_def schedule_event_def Let_def split: option.splits)

lemma grows_notify_all: "grows W (notify_all env rs W)"
  unfolding notify_all_def
proof (induction rs arbitrary: W)
  case (Cons r rs)
  show ?case using grows_trans [OF grows_notify [of W env r] Cons.IH] by simp
qed simp

lemma grows_registerSession: "grows W (registerSession env u (Some r) isPl allOfIt W)"
proof -
  obtain cs W1 where a: "adopt_locked u r isPl allOfIt W = (cs, W1)" by fastforce
  then have "outbox W1 = outbox W" "eventLoop W1 = eventLoop W"
    by (auto simp: adopt_locked_def put_universe_def Let_def split: option.splits prod.splits)
  then show ?thesis
    using a grows_trans [OF grows_same [of W1 W] grows_notify_all [of W1 env cs]] by (simp add: registerSession_def)
qed

lemma grows_publish: "publish_session env cfg s a u reason b W = (r, W1) \<Longrightarrow> grows W W1"
proof -
  assume p: "publish_session env cfg s a u reason b W = (r, W1)"
  define V where "V = W\<lparr>heap := heap W @ [if has_sound a then setAudioTransport (createAudioTransport env cfg) s else s]\<rparr>"
  define V1 where "V1 = registerSession (se_service env) u (Some (length (heap W))) False b V"
  have "outbox W1 = outbox V1" "eventLoop W1 = eventLoop V1" "outbox V = outbox W" "eventLoop V = eventLoop W"
    using p by (auto simp: publish_session_def Let_def V_def V1_def)
  then show ?thesis
    using grows_registerSession [of V "se_service env" u "length (heap W)" False b] by (simp add: grows_def V1_def)
qed

lemma grows_abort: "abortLoadingSession u sid W = (res, W') \<Longrightarrow> grows W W'"
  by (auto simp: abortLoadingSession_def put_universe_def erase_universe_def grows_def Let_def split: option.splits if_splits)

lemma grows_unwind: "unwind_session env r u W = (b, W') \<Longrightarrow> grows W W'"
proof -
  assume w: "unwind_session env r u W = (b, W')"
  define W1 where "W1 = update_session r (\<lambda>s. markCancellationNotified (cancel s)) W"
  obtain res W2 where ab: "abortLoadingSession u (sessionId (heap W1 ! r)) W1 = (res, W2)" by fastforce
  have "outbox W' = outbox W2 \<and> eventLoop W' = eventLoop W2"
    using w ab by (auto simp: unwind_session_def W1_def [symmetric] Let_def split: if_splits)
  then show ?thesis using grows_trans [of W W1 W2] grows_abort [OF ab] by (simp add: grows_def W1_def)
qed

lemma grows_submit: "submit_audio_load env r u W = (res, W') \<Longrightarrow> grows W W'"
proof -
  assume s: "submit_audio_load env r u W = (res, W')"
  consider "W' = W" | L1 where "W' = W\<lparr>audioLoader := L1\<rparr>"
    | L1 where "W' = snd (unwind_session env r u (W\<lparr>audioLoader := L1\<rparr>))"
    using s by (auto simp: submit_audio_load_def Let_def split: option.splits prod.splits if_splits)
  then show ?thesis
  proof cases
    case (3 L1)
    obtain b W2 where w: "unwind_session env r u (W\<lparr>audioLoader := L1\<rparr>) = (b, W2)" by fastforce
    then show ?thesis using grows_unwind [OF w] 3 by (simp add: grows_def)
  qed (simp_all add: grows_def)
qed

lemma grows_schedule_animation: "scheduleAnimation env start a u reason b W = (res, W') \<Longrightarrow> grows W W'"
proof (erule scheduleAnimation_cases)
  fix e assume "admit_animation env a W = (Inl e, W')"
  then show ?thesis using admit_animation_frame by (fastforce simp: undisturbed_def grows_def)
next
  fix slot W1 assume "admit_animation env a W = (Inr slot, W1)" "W' = release_unused_slot slot (W1\<lparr>draws := draws W1 + 1\<rparr>)"
  then show ?thesis using admit_animation_frame by (fastforce simp: undisturbed_def grows_def release_unused_slot_def)
next
  fix slot W1 cfg r W3
  assume a: "admit_animation env a W = (Inr slot, W1)"
    and p: "publish_session env cfg (build_session env start a u reason W1) a u reason b (W1\<lparr>draws := draws W1 + 1\<rparr>) = (r, W3)"
    and s: "(if slot then submit_audio_load env r u W3 else (Inr r, start_directly cfg start a r W3)) = (res, W')"
  have "grows W (W1\<lparr>draws := draws W1 + 1\<rparr>)"
    using admit_animation_frame [OF a] by (simp add: undisturbed_def grows_def)
  moreover have "grows W3 W'"
  proof (cases slot)
    case True
    then show ?thesis using s grows_submit by simp
  next
    case False
    then have "W' = start_directly cfg start a r W3" using s by simp
    then show ?thesis by (simp add: start_directly_def Let_def grows_def)
  qed
  ultimately show ?thesis using grows_publish [OF p] grows_trans by blast
qed

lemma grows_player: "player_scheduleAnimation env start a u reason W = (res, W') \<Longrightarrow> grows W W'"
  using grows_schedule_animation
  by (fastforce simp: player_scheduleAnimation_def split: if_splits prod.splits sum.splits)

lemma grows_try_candidates: "grows W (snd (try_candidates env db c u aids W))"
proof (induction aids)
  case (Cons aid aids)
  show ?case
  proof (cases "aid = [] \<or> (\<forall>a. getAnimation db aid = Inr a \<longrightarrow> \<not> animationTargetsSingleCreature a c)")
    case True
    then show ?thesis using Cons by (auto split: sum.splits)
  next
    case False
    then obtain a where a: "aid \<noteq> []" "getAnimation db aid = Inr a" "animationTargetsSingleCreature a c" by blast
    obtain res W1 where p: "player_scheduleAnimation env (next_frame W + ANIMATION_DELAY_FRAMES) a u ReasonIdle W = (res, W1)"
      by fastforce
    then show ?thesis
      using a grows_player [OF p] by (cases res) (auto simp: grows_def Let_def split: prod.splits)
  qed
qed simp

lemma idle_creature_frame: "idle_creature db c W = (res, W') \<Longrightarrow> \<exists>k. W' = W\<lparr>creatureCache := k\<rparr>"
proof -
  assume *: "idle_creature db c W = (res, W')"
  have "\<exists>k. V = V\<lparr>creatureCache := k\<rparr>" for V :: "('a, 'b) runner_world_scheme"
    by (rule exI [of _ "creatureCache V"]) simp
  then show ?thesis
    using * by (auto simp: idle_creature_def fetch_creature_def split: or_out_of_range.splits option.splits sum.splits)
qed

lemma grows_idle_candidates:
  assumes "idle_creature db c (W\<lparr>services := S\<rparr>) = (res, W3)"
  shows "grows W W3" "grows W (snd (try_candidates env db c u ids (W3\<lparr>draws := n\<rparr>)))"
proof -
  obtain k where W3: "W3 = W\<lparr>services := S, creatureCache := k\<rparr>" using idle_creature_frame [OF assms] by auto
  show "grows W W3" by (simp add: W3 grows_def)
  show "grows W (snd (try_candidates env db c u ids (W3\<lparr>draws := n\<rparr>)))"
    using grows_try_candidates [of "W3\<lparr>draws := n\<rparr>"] by (simp add: W3 grows_def)
qed

lemma grows_start_idle: "grows W (snd (startIdleIfNeeded env c W))"
  by (auto simp: startIdleIfNeeded_def Let_def intro: grows_idle_candidates
      split: option.splits prod.splits or_out_of_range.splits sum.splits)
    (simp_all add: grows_def)

lemma grows_idle_loops: "grows W (startIdleLoopsForUniverse env u cs W)"
proof -
  have "grows W (fold (\<lambda>c W. snd (startIdleIfNeeded env c W)) ids W)" for ids
  proof (induction ids arbitrary: W)
    case (Cons c ids)
    show ?case using grows_trans [OF grows_start_idle Cons.IH] by simp
  qed simp
  then show ?thesis by (simp add: startIdleLoopsForUniverse_def split: option.splits)
qed

section \<open>An active playlist\<close>

lemma halted: "getPlaylistState (halt_playlist u W) u = PlNone"
proof -
  have "getPlaylistState (clearPlaylist u W) u = PlNone"
    by (auto simp: clearPlaylist_def getPlaylistState_def Let_def split: option.splits)
  then show ?thesis by (simp add: halt_playlist_def getPlaylistState_def Let_def)
qed

text \<open>The new events of a step.\<close>

definition new_events :: "('t, 'a) world_scheme \<Rightarrow> ('t, 'b) world_scheme \<Rightarrow> server_event event set" where
  "new_events W W' = set (drop (length (outbox W)) (outbox W'))"

lemma new_events_grows: "grows W W1 \<Longrightarrow> grows W1 W2 \<Longrightarrow> new_events W W1 \<subseteq> new_events W W2"
  by (auto simp: grows_def new_events_def prefix_def)

lemma new_events_schedule: "grows W W1 \<Longrightarrow> (f, e) \<in> new_events W (schedule_event f e W1)"
  by (auto simp: grows_def new_events_def prefix_def)

lemma chosen_animation_outcome:
  assumes "scheduleChosenAnimation env u a W = (res, W')" "grows W0 W"
  shows "grows W0 W' \<and> (case res of Inl e \<Rightarrow> getPlaylistState W' u = PlNone \<or> (\<exists>f. (f, PlaylistTick u) \<in> new_events W0 W')
    | Inr lastFrame \<Rightarrow> True)"
proof -
  obtain r W1 where p: "player_scheduleAnimation env (next_frame W) a u Playlist W = (r, W1)" by fastforce
  note g = grows_trans [OF assms(2) grows_player [OF p]]
  have h: "grows W0 (halt_playlist u W1)"
    by (rule grows_trans [OF g], rule grows_same)
      (auto simp: halt_playlist_def clearPlaylist_def put_universe_def erase_universe_def Let_def split: option.splits)
  consider lf where "res = Inr lf" "W' = W1" | e f where "res = Inl e" "W' = schedule_event f (PlaylistTick u) W1"
    | e where "res = Inl e" "W' = halt_playlist u W1"
    using assms(1) p by (auto simp: scheduleChosenAnimation_def Let_def internal_error_def split: sum.splits if_splits)
  then show ?thesis
  proof cases
    case (2 e f)
    have "(f, PlaylistTick u) \<in> new_events W0 W'" "grows W0 W'"
      unfolding 2(2) using new_events_schedule [OF g] grows_trans [OF g grows_schedule] by blast+
    then show ?thesis unfolding 2(1) sum.case by blast
  qed (use g h halted in auto)
qed


section \<open>Witness\<close>

end
