(* ===== verification/Live_Stream.thy ===== *)
theory Live_Stream
  imports Playlist_Event
begin

text \<open>
  Live control of a creature over the websocket: \<open>StreamFrameHandler\<close> and its timeout event
  (src/src/server/ws/messaging/StreamFrameHandler.cpp), with \<open>StreamFrame\<close> (src/src/model/StreamFrame.h).
  A frame takes the creature over, goes to the DMX output at once and extends a deadline; one timeout
  event per creature chases that deadline and releases the creature when it passes. The maps behind
  \<open>streamingMutex\<close> are \<open>stream_table\<close>; \<open>streamingStartedAt\<close> only feeds a span and is left out, as are
  logs, spans and metrics. Parsing a message and decoding Base64 are parameters. The handler runs
  while the server is up: the event loop and the database exist. The second half lets any number of
  websocket threads run the handler against the event loop, one critical section at a time.
\<close>

section \<open>The locked table\<close>

record stream_table =
  streamingDeadlines :: "(creatureId_t \<times> framenum_t) list"
  timeoutEventPending :: "creatureId_t list"

definition updateStreamingDeadline :: "creatureId_t \<Rightarrow> framenum_t \<Rightarrow> stream_table \<Rightarrow> stream_table" where
  "updateStreamingDeadline c deadline T = T\<lparr>streamingDeadlines := AList.update c deadline (streamingDeadlines T)\<rparr>"

definition markTimeoutEventPending :: "creatureId_t \<Rightarrow> stream_table \<Rightarrow> bool \<times> stream_table" where
  "markTimeoutEventPending c T =
     (c \<notin> set (timeoutEventPending T), T\<lparr>timeoutEventPending := List.insert c (timeoutEventPending T)\<rparr>)"

definition clearTimeoutEventPending :: "creatureId_t \<Rightarrow> stream_table \<Rightarrow> stream_table" where
  "clearTimeoutEventPending c T = T\<lparr>timeoutEventPending := removeAll c (timeoutEventPending T)\<rparr>"

datatype expiry_decision = AlreadyGone | Chase framenum_t | Expired

definition decideExpiry :: "creatureId_t \<Rightarrow> framenum_t \<Rightarrow> stream_table \<Rightarrow> expiry_decision \<times> stream_table" where
  "decideExpiry c eventFrame T = (case map_of (streamingDeadlines T) c of
     None \<Rightarrow> (AlreadyGone, clearTimeoutEventPending c T)
   | Some deadline \<Rightarrow>
       if eventFrame < deadline then (Chase deadline, T)
       else (Expired, clearTimeoutEventPending c (T\<lparr>streamingDeadlines := AList.delete c (streamingDeadlines T)\<rparr>)))"

section \<open>The timeout event and the handler\<close>

record 't stream_world = "'t scheduler_world" +
  streamTable :: stream_table
  framesStreamed :: framenum_t

record stream_frame =
  sf_creature :: creatureId_t
  sf_universe :: universe_t
  sf_data :: string

definition streaming_write :: "activity_state \<Rightarrow> activity_write" where
  "streaming_write st = \<lparr>w_animation = [], w_reason = Streaming, w_state = st, w_session = [], w_generation = 0\<rparr>"

text \<open>What an expired deadline does before the idle restart: first the registry, then the activity.\<close>

definition release_stream ::
  "'t sched_env \<Rightarrow> creatureId_t \<Rightarrow> ('t, 'a) world_scheme \<Rightarrow> ('t, 'a) world_scheme"
where
  "release_stream env c W = W\<lparr>services :=
     snd (setActivityState (se_service env) [c] (streaming_write Stopped) (clearStreaming c (services W)))\<rparr>"

definition timeout_executeImpl ::
  "'t sched_env \<Rightarrow> creatureId_t \<Rightarrow> u32 \<Rightarrow> framenum_t \<Rightarrow> ('t, 'a) stream_world_scheme \<Rightarrow>
   framenum_t result \<times> ('t, 'a) stream_world_scheme"
where
  "timeout_executeImpl env c chaseCount frame W =
     (let (decision, T) = decideExpiry c frame (streamTable W); W1 = W\<lparr>streamTable := T\<rparr>
      in (Inr frame, case decision of
            AlreadyGone \<Rightarrow> W1
          | Chase deadline \<Rightarrow>
              if eventLoop W1 \<noteq> None then schedule_event deadline (StreamTimeout c (chaseCount + 1)) W1
              else W1\<lparr>streamTable := clearTimeoutEventPending c T\<rparr>
          | Expired \<Rightarrow> snd (startIdleIfNeeded env c (release_stream env c W1))))"

datatype stream_outcome = Streamed | DroppedUnknown | DecodeThrew

definition stop_playlist_for_stream ::
  "service_env \<Rightarrow> universe_t \<Rightarrow> ('t, 'a) world_scheme \<Rightarrow> ('t, 'a) world_scheme"
where
  "stop_playlist_for_stream env u W =
     (if getPlaylistState W u = PlActive \<or> getPlaylistState W u = PlInterrupted then stopPlaylist env u W else W)"

definition stream_creature ::
  "database \<Rightarrow> creatureId_t \<Rightarrow> ('t, 'a) runner_world_scheme \<Rightarrow> creature option \<times> ('t, 'a) runner_world_scheme"
where
  "stream_creature db c W =
     (case (case creatureCache W of None \<Rightarrow> Out_of_range | Some cc \<Rightarrow> cache_get cc c) of
        Got p \<Rightarrow> (p, W)
      | Out_of_range \<Rightarrow> (case fetch_creature db c W of
            (Inl _, W1) \<Rightarrow> (None, W1)
          | (Inr cr, W1) \<Rightarrow> (Some cr, W1)))"

definition mark_streaming ::
  "'t sched_env \<Rightarrow> creatureId_t \<Rightarrow> ('t, 'a) world_scheme \<Rightarrow> ('t, 'a) world_scheme"
where
  "mark_streaming env c W =
     (let (new, S) = markStreamingIfNew c (services W)
      in W\<lparr>services := if new then snd (setActivityState (se_service env) [c] (streaming_write Running) S) else S\<rparr>)"

definition stream_deadline :: "('t, 'a) scheduler_world_scheme \<Rightarrow> framenum_t" where
  "stream_deadline W = next_frame W +
     (case config W of None \<Rightarrow> DEFAULT_STREAMING_TIMEOUT_FRAMES | Some cfg \<Rightarrow> ucast (streamingTimeoutFrames cfg))"

definition arm_timeout ::
  "creatureId_t \<Rightarrow> ('t, 'a) stream_world_scheme \<Rightarrow> ('t, 'a) stream_world_scheme"
where
  "arm_timeout c W =
     (let deadline = stream_deadline W;
          (arm, T) = markTimeoutEventPending c (updateStreamingDeadline c deadline (streamTable W));
          W1 = W\<lparr>streamTable := T\<rparr>
      in if arm then schedule_event deadline (StreamTimeout c 0) W1 else W1)"

definition stream ::
  "'t sched_env \<Rightarrow> database \<Rightarrow> stream_frame \<Rightarrow> ('t, 'a) stream_world_scheme \<Rightarrow>
   stream_outcome \<times> ('t, 'a) stream_world_scheme"
where
  "stream env db fr W =
     (let c = sf_creature fr; u = sf_universe fr;
          W1 = cancelSessionsForCreatures (se_service env) u [c] W;
          W2 = stop_playlist_for_stream (se_service env) u W1
      in case stream_creature db c W2 of
           (None, W3) \<Rightarrow> (DroppedUnknown, W3)
         | (Some cr, W3) \<Rightarrow>
             (let W4 = arm_timeout c (mark_streaming env c W3)
              in case se_decode env (sf_data fr) of
                   None \<Rightarrow> (DecodeThrew, W4)
                 | Some bytes \<Rightarrow>
                     (let W5 = schedule_event (next_frame W4) (DmxWrite \<lparr>dmx_universe = u,
                               channelOffset = ucast (creature_channel_offset cr), dmx_data = bytes\<rparr>) W4
                      in (Streamed, W5\<lparr>framesStreamed := framesStreamed W5 + 1\<rparr>))))"

text \<open>
  \<open>processMessage\<close>: \<open>parse\<close> is the JSON mapper with the conversion of the payload, an outer
  \<open>None\<close> being an exception and an inner one a null object.
\<close>

definition stream_processMessage ::
  "'t sched_env \<Rightarrow> database \<Rightarrow> (string \<Rightarrow> stream_frame option option) \<Rightarrow> string \<Rightarrow>
   ('t, 'a) stream_world_scheme \<Rightarrow> ('t, 'a) stream_world_scheme"
where
  "stream_processMessage env db parse message W = (case parse message of
     Some (Some fr) \<Rightarrow> snd (stream env db fr W)
   | _ \<Rightarrow> W)"


section \<open>When a creature counts as streaming\<close>

definition stream_active :: "creatureId_t \<Rightarrow> service \<Rightarrow> bool" where
  "stream_active c S \<longleftrightarrow> c \<in> set (streamingRegistry S) \<or>
     (case activity_in S c of
        None \<Rightarrow> False
      | Some a \<Rightarrow> act_reason a = reason_toString Streaming \<and> act_state a = state_toString Running)"

lemma default_not_running [simp]: "act_state (makeDefaultActivity now) \<noteq> state_toString Running"
  by (simp add: makeDefaultActivity_def state_toString_def)

lemma default_runtime_activity [simp]: "rt_activity (makeDefaultRuntime now) = Some (makeDefaultActivity now)"
  by (simp add: makeDefaultRuntime_def)

lemma isCreatureStreaming_active: "fst (isCreatureStreaming now c S) = stream_active c S"
  by (auto simp: isCreatureStreaming_def stream_active_def getOrCreateRuntime_def activity_in_def Let_def
      split: option.splits)

lemma registry_frame [simp]:
  "streamingRegistry (snd (getOrCreateRuntime now c S)) = streamingRegistry S"
  "streamingRegistry (put_runtime c rt S) = streamingRegistry S"
  "streamingRegistry (fixture_hook c r st S) = streamingRegistry S"
  "streamingRegistry (broadcastCreatureActivity env c rt S) = streamingRegistry S"
  by (simp_all add: getOrCreateRuntime_def put_runtime_def fixture_hook_def broadcastCreatureActivity_def
      broadcastCreatureActivitySnapshot_def case_prod_unfold Let_def frame_simps split: option.splits)

lemma registry_set_one [simp]: "streamingRegistry (set_activity_one env sid w c S) = streamingRegistry S"
  using registry_frame(1) [of "env_now env" c S]
  by (simp add: set_activity_one_def case_prod_unfold Let_def del: registry_frame(1) split: option.splits)

lemma registry_setActivityState [simp]: "streamingRegistry (snd (setActivityState env cs w S)) = streamingRegistry S"
  unfolding setActivityState_def Let_def snd_conv by (induction cs arbitrary: S) simp_all

text \<open>Operations that never turn a creature into a streaming one.\<close>

named_theorems quiet_intros

lemma quiet_set_one:
  assumes "w_reason w \<noteq> Streaming" "\<not> stream_active c S"
  shows "\<not> stream_active c (set_activity_one env sid w c' S)"
proof (cases "c' = [] \<or> c \<noteq> c'")
  case True
  then show ?thesis using assms(2) by (simp add: stream_active_def activity_in_set_one)
next
  case False
  have r: "reason_toString (if st = Disabled \<and> w_state w = Idle then ReasonDisabled else w_reason w) \<noteq> reason_toString Streaming" for st
    using assms(1) by simp
  show ?thesis
  proof (cases "apply_write (env_now env) sid w (generation_of S c) (runtime_or_default (env_now env) S c)")
    case None
    then show ?thesis
      using False assms(2) by (auto simp: stream_active_def activity_in_set_one runtime_or_default_views split: option.splits)
  next
    case (Some x)
    then show ?thesis
      using False assms(2) r by (auto simp: stream_active_def activity_in_set_one apply_write_def Let_def split: if_splits)
  qed
qed

lemma quiet_setActivityState [quiet_intros]:
  assumes "w_reason w \<noteq> Streaming" "\<not> stream_active c S"
  shows "\<not> stream_active c (snd (setActivityState env cs w S))"
  unfolding setActivityState_def Let_def snd_conv using assms(2)
  by (induction cs arbitrary: S) (simp_all add: quiet_set_one [OF assms(1)])

lemma quiet_getOrCreateRuntime [quiet_intros]:
  "getOrCreateRuntime now c' S = (rt, S') \<Longrightarrow> \<not> stream_active c S \<Longrightarrow> \<not> stream_active c S'"
  by (auto simp: getOrCreateRuntime_def stream_active_def activity_in_def split: option.splits if_splits)

lemma quiet_isCreatureStreaming [quiet_intros]:
  "isCreatureStreaming now c' S = (b, S') \<Longrightarrow> \<not> stream_active c S \<Longrightarrow> \<not> stream_active c S'"
  by (auto simp: isCreatureStreaming_def Let_def split: if_splits prod.splits option.splits
      dest: quiet_getOrCreateRuntime)

lemma quiet_counters:
  "getOrCreateRuntime now c' S = (rt, S') \<Longrightarrow> \<not> stream_active c S \<Longrightarrow>
   \<not> stream_active c (put_runtime c' (rt\<lparr>rt_counters := k\<rparr>) S')"
  by (auto simp: getOrCreateRuntime_def put_runtime_def stream_active_def activity_in_def
      split: option.splits if_splits)

lemma quiet_incrementIdleStopped [quiet_intros]:
  "\<not> stream_active c S \<Longrightarrow> \<not> stream_active c (incrementIdleStopped now cs S)"
  unfolding incrementIdleStopped_def
proof (induction cs arbitrary: S)
  case (Cons c' cs)
  have "\<not> stream_active c (increment_idle_stopped_one now c' S)"
    using Cons.prems by (auto simp: increment_idle_stopped_one_def Let_def quiet_getOrCreateRuntime quiet_counters
        split: prod.splits option.splits)
  then show ?case using Cons.IH by simp
qed simp


text \<open>
  The same for whole operations of the scheduler: a creature that is not streaming stays so, and the
  stream handler's own state is untouched.
\<close>

definition calm :: "creatureId_t \<Rightarrow> ('t, 'a) scheduler_world_scheme \<Rightarrow> ('t, 'a) scheduler_world_scheme \<Rightarrow> bool" where
  "calm c W W' \<longleftrightarrow> (\<not> stream_active c (services W) \<longrightarrow> \<not> stream_active c (services W')) \<and>
     scheduler_world.more W' = scheduler_world.more W"

lemma calm_refl [simp]: "calm c W W"
  by (simp add: calm_def)

lemma calm_trans: "calm c W W1 \<Longrightarrow> calm c W1 W2 \<Longrightarrow> calm c W W2"
  by (auto simp: calm_def)

lemma more_world: "world.more W' = world.more W \<Longrightarrow> scheduler_world.more W' = scheduler_world.more W"
  by (cases W; cases W') simp

lemma quiet_notify: "\<not> stream_active c (services W) \<Longrightarrow> \<not> stream_active c (services (notifyCancelledSession env r W))"
  by (simp add: notifyCancelledSession_def services_teardown quiet_setActivityState quiet_incrementIdleStopped Let_def)

lemma quiet_notify_all: "\<not> stream_active c (services W) \<Longrightarrow> \<not> stream_active c (services (notify_all env rs W))"
  unfolding notify_all_def by (induction rs arbitrary: W) (simp_all add: quiet_notify)

lemma quiet_registerSession:
  assumes "\<not> stream_active c (services W)"
  shows "\<not> stream_active c (services (registerSession env u s b allOfIt W))"
proof -
  have "services W1 = services W" if "adopt_locked u r b allOfIt W = (cs, W1)" for r cs W1
    using that by (auto simp: adopt_locked_def put_universe_def Let_def split: option.splits prod.splits)
  then show ?thesis
    using assms by (auto simp: registerSession_def quiet_notify_all split: option.splits prod.splits)
qed

lemma calm_services: "(\<not> stream_active c (services W) \<Longrightarrow> \<not> stream_active c S) \<Longrightarrow> calm c W (W\<lparr>services := S\<rparr>)"
  by (simp add: calm_def)

lemma update_session_more [simp]: "scheduler_world.more (update_session r g W) = scheduler_world.more W"
  by (simp add: update_session_def)

lemma calm_update: "calm c W (update_session r g W)"
  by (simp add: calm_def)

lemma calm_admit: "admit_animation env a W = (res, W') \<Longrightarrow> calm c W W'"
proof -
  have first: "\<not> stream_active c S \<Longrightarrow> first_streaming now ts S = (x, S') \<Longrightarrow> \<not> stream_active c S'" for now ts S x S'
    by (induction ts arbitrary: S) (auto split: prod.splits if_splits dest: quiet_isCreatureStreaming)
  assume "admit_animation env a W = (res, W')"
  then show ?thesis
    by (auto simp: admit_animation_def reserve_slot_def calm_def Let_def internal_error_def
        split: if_splits option.splits prod.splits submit_result.splits dest: first)
qed

lemma calm_publish:
  assumes "publish_session env cfg s a u reason b W = (r, W')" "reason \<noteq> Streaming"
  shows "calm c W W'"
proof -
  define V where "V = W\<lparr>heap := heap W @ [if has_sound a then setAudioTransport (createAudioTransport env cfg) s else s]\<rparr>"
  define V1 where "V1 = registerSession (se_service env) u (Some (length (heap W))) False b V"
  have "world.more V1 = world.more V" by (simp add: V1_def registerSession_more)
  then have "scheduler_world.more W' = scheduler_world.more W"
    using assms(1) more_world [of V1 V] by (auto simp: publish_session_def Let_def V_def V1_def)
  moreover have "\<exists>w sid. w_reason w \<noteq> Streaming \<and> services W' = snd (setActivityState (se_service env) (creatureIds (heap V1 ! r)) w (services V1))"
    using assms by (auto simp: publish_session_def setActivityRunning_def Let_def V_def V1_def
        intro!: exI [of _ "\<lparr>w_animation = anim_id a, w_reason = reason, w_state = Running, w_session = sessionId (heap V1 ! r),
             w_generation = activityGeneration (heap V1 ! r)\<rparr>"])
  moreover have "\<not> stream_active c (services W) \<Longrightarrow> \<not> stream_active c (services V1)"
    by (simp add: V1_def V_def quiet_registerSession)
  ultimately show ?thesis using quiet_setActivityState by (auto simp: calm_def)
qed

lemma calm_unwind: "unwind_session env r u W = (b, W') \<Longrightarrow> calm c W W'"
proof -
  assume w: "unwind_session env r u W = (b, W')"
  define W1 where "W1 = update_session r (\<lambda>s. markCancellationNotified (cancel s)) W"
  obtain res W2 where ab: "abortLoadingSession u (sessionId (heap W1 ! r)) W1 = (res, W2)" by fastforce
  have c1: "calm c W W1" by (simp add: W1_def calm_update)
  have c2: "calm c W1 W2"
    using ab by (auto simp: abortLoadingSession_def put_universe_def erase_universe_def calm_def Let_def split: option.splits if_splits)
  have bc: "\<not> stream_active c S \<Longrightarrow> \<not> stream_active c (broadcastPlaylistStatusToAllClients ps S)" for ps S
    by (simp add: broadcastPlaylistStatusToAllClients_def stream_active_def activity_in_def split: option.splits)
  define W3 where "W3 = update_session r (\<lambda>s. s\<lparr>audioTransport := map_option (kit_stop (se_kit env)) (audioTransport s)\<rparr>) W2"
  define S4 where "S4 = snd (setActivityState (se_service env) (creatureIds (heap W3 ! r)) (stopped_write (heap W3 ! r)) (services W3))"
  have "W' = W2 \<or> W' = W3\<lparr>services := S4\<rparr> \<or>
      W' = W3\<lparr>services := broadcastPlaylistStatusToAllClients (empty_playlist_status u) S4\<rparr>"
    using w ab by (auto simp: unwind_session_def W1_def [symmetric] W3_def [symmetric] S4_def [symmetric] Let_def split: if_splits)
  moreover have "calm c W2 W3" unfolding W3_def by (rule calm_update)
  moreover have "\<not> stream_active c (services W3) \<Longrightarrow> \<not> stream_active c S4"
    unfolding S4_def by (rule quiet_setActivityState) (simp_all add: stopped_write_def)
  ultimately have c3: "calm c W2 W'"
    by (auto simp: calm_def dest: bc)
  show ?thesis using c1 c2 c3 calm_trans by blast
qed

lemma calm_submit: "submit_audio_load env r u W = (res, W') \<Longrightarrow> calm c W W'"
proof -
  assume s: "submit_audio_load env r u W = (res, W')"
  consider "W' = W" | L1 where "W' = W\<lparr>audioLoader := L1\<rparr>"
    | L1 where "W' = snd (unwind_session env r u (W\<lparr>audioLoader := L1\<rparr>))"
    using s by (auto simp: submit_audio_load_def Let_def split: option.splits prod.splits if_splits)
  then show ?thesis
  proof cases
    case (3 L1)
    then show ?thesis
      using calm_unwind [of env r u "W\<lparr>audioLoader := L1\<rparr>" _ W' c] calm_trans [of c W "W\<lparr>audioLoader := L1\<rparr>" W']
      by (simp add: calm_def prod_eq_iff)
  qed (simp_all add: calm_def)
qed


lemma calm_scheduleAnimation:
  assumes "scheduleAnimation env start a u reason b W = (res, W')" "reason \<noteq> Streaming"
  shows "calm c W W'"
  using assms(1)
proof (cases rule: scheduleAnimation_cases)
  case (refused e)
  then show ?thesis using calm_admit by blast
next
  case (undecodable slot W1 e)
  then have "calm c W1 W'" by (simp add: calm_def release_unused_slot_def)
  then show ?thesis using calm_admit [OF undecodable(1)] calm_trans by blast
next
  case (published slot W1 cfg r W3)
  have "calm c W1 (W1\<lparr>draws := draws W1 + 1\<rparr>)" by (simp add: calm_def)
  moreover have "calm c W3 W'"
  proof (cases slot)
    case True
    then show ?thesis using published(5) calm_submit by auto
  next
    case False
    then have "W' = start_directly cfg start a r W3" using published(5) by simp
    then show ?thesis by (simp add: start_directly_def schedule_event_def Let_def calm_def)
  qed
  ultimately show ?thesis
    using calm_admit [OF published(1)] calm_publish [OF published(4) assms(2)] calm_trans by meson
qed

lemma calm_player:
  "player_scheduleAnimation env start a u reason W = (res, W') \<Longrightarrow> reason \<noteq> Streaming \<Longrightarrow> calm c W W'"
  using calm_scheduleAnimation by (fastforce simp: player_scheduleAnimation_def split: if_splits prod.splits sum.splits)

lemma calm_try_candidates: "calm c W (snd (try_candidates env db c' u aids W))"
proof (induction aids)
  case (Cons aid aids)
  show ?case
  proof (cases "aid = [] \<or> (\<forall>a. getAnimation db aid = Inr a \<longrightarrow> \<not> animationTargetsSingleCreature a c')")
    case True
    then show ?thesis using Cons by (auto split: sum.splits)
  next
    case False
    then obtain a where a: "aid \<noteq> []" "getAnimation db aid = Inr a" "animationTargetsSingleCreature a c'" by blast
    obtain res W1 where p: "player_scheduleAnimation env (next_frame W + ANIMATION_DELAY_FRAMES) a u ReasonIdle W = (res, W1)"
      by fastforce
    have last: "\<not> stream_active c (setLastIdleAnimationId c' aid S)" if "\<not> stream_active c S" for S
      using that by (simp add: setLastIdleAnimationId_def stream_active_def activity_in_def)
    have "calm c W1 (snd (try_candidates env db c' u (aid # aids) W))"
    proof (cases res)
      case (Inr f)
      obtain rt S2 where g: "getOrCreateRuntime (env_now (se_service env)) c' (setLastIdleAnimationId c' aid (services W1)) = (rt, S2)"
        by fastforce
      define S3 where "S3 = (case rt_counters rt of None \<Rightarrow> S2 | Some k \<Rightarrow>
          put_runtime c' (rt\<lparr>rt_counters := Some (k\<lparr>idle_started_total := idle_started_total k + 1\<rparr>)\<rparr>) S2)"
      have e: "snd (try_candidates env db c' u (aid # aids) W) = W1\<lparr>services := S3\<rparr>"
        using a p g Inr by (simp add: S3_def)
      have "\<not> stream_active c S3" if "\<not> stream_active c (services W1)"
        using quiet_counters [OF g] quiet_getOrCreateRuntime [OF g] last [OF that]
        by (simp add: S3_def split: option.splits)
      then show ?thesis unfolding e by (rule calm_services)
    qed (use a p in simp)
    then show ?thesis using calm_trans [OF calm_player [OF p]] by blast
  qed
qed simp

lemma calm_idle_candidates:
  assumes "idle_creature db c' W = (res, W3)"
  shows "calm c W W3" "calm c W (snd (try_candidates env db c' u ids (W3\<lparr>draws := n\<rparr>)))"
proof -
  obtain k where W3: "W3 = W\<lparr>creatureCache := k\<rparr>" using idle_creature_frame [OF assms] by auto
  show "calm c W W3" by (simp add: W3 calm_def)
  have "calm c W (W3\<lparr>draws := n\<rparr>)" by (simp add: W3 calm_def)
  then show "calm c W (snd (try_candidates env db c' u ids (W3\<lparr>draws := n\<rparr>)))"
    using calm_try_candidates calm_trans by blast
qed


lemma calm_start_idle: "calm c W (snd (startIdleIfNeeded env c' W))"
proof (cases "c' = [] \<or> se_db env = None \<or> creatureUniverseMap W = None \<or> eventLoop W = None")
  case True
  then show ?thesis by (auto simp: startIdleIfNeeded_def split: option.splits)
next
  case False
  then obtain db universes cur where d: "c' \<noteq> []" "se_db env = Some db" "creatureUniverseMap W = Some universes" "eventLoop W = Some cur"
    by auto
  obtain rt S1 where g: "getOrCreateRuntime (env_now (se_service env)) c' (services W) = (rt, S1)" by fastforce
  obtain b S2 where i: "isCreatureStreaming (env_now (se_service env)) c' S1 = (b, S2)" by fastforce
  have c1: "calm c W (W\<lparr>services := S1\<rparr>)" using quiet_getOrCreateRuntime [OF g] by (intro calm_services)
  have c2: "calm c W (W\<lparr>services := S2\<rparr>)"
    using quiet_getOrCreateRuntime [OF g] quiet_isCreatureStreaming [OF i] by (intro calm_services) blast
  show ?thesis
  proof (cases "idle_enabled rt = Some False \<or> b")
    case True
    then show ?thesis using d g i c1 c2 by (auto simp: startIdleIfNeeded_def Let_def)
  next
    case f: False
    obtain res W3 where w3: "idle_creature db c' (W\<lparr>services := S2\<rparr>) = (res, W3)" by fastforce
    have c3: "calm c W W3" "calm c W (snd (try_candidates env db c' u ids (W3\<lparr>draws := n\<rparr>)))" for u ids n
      using calm_trans [OF c2] calm_idle_candidates [OF w3] by blast+
    show ?thesis
      using d g i f w3 c2 c3 by (auto simp: startIdleIfNeeded_def Let_def split: or_out_of_range.splits option.splits sum.splits)
  qed
qed


section \<open>An abandoned stream is released\<close>

lemma release_not_streaming:
  assumes "c \<noteq> []"
  shows "\<not> stream_active c (services (release_stream env c W))"
proof -
  have aw: "\<exists>rt' r st a. apply_write now sid (streaming_write Stopped) g rt = Some (rt', r, st) \<and>
      rt_activity rt' = Some a \<and> act_state a = state_toString Stopped" for now sid g rt
    by (simp add: apply_write_def streaming_write_def isStaleActivityWrite_def resolveIdleState_def Let_def)
  define env' where "env' = se_service env"
  define S where "S = clearStreaming c (services W)"
  have reg: "c \<notin> set (streamingRegistry S)" by (simp add: S_def clearStreaming_def)
  obtain rt' r st a where "apply_write (env_now env') (env_uuid env') (streaming_write Stopped) (generation_of S c)
      (runtime_or_default (env_now env') S c) = Some (rt', r, st)" "rt_activity rt' = Some a" "act_state a = state_toString Stopped"
    using aw by blast
  then have "activity_in (set_activity_one env' (env_uuid env') (streaming_write Stopped) c S) c = Some a"
      "act_state a = state_toString Stopped"
    using assms by (simp_all add: activity_in_set_one)
  moreover have "services (release_stream env c W) = set_activity_one env' (env_uuid env') (streaming_write Stopped) c S"
    by (simp add: release_stream_def setActivityState_def env'_def S_def streaming_write_def Let_def)
  ultimately show ?thesis using reg by (simp add: stream_active_def)
qed

lemma released_more [simp]: "scheduler_world.more (release_stream env c W) = scheduler_world.more W"
  by (simp add: release_stream_def)

lemma stream_table_more:
  fixes W W' :: "('t, 'a) stream_world_scheme"
  shows "scheduler_world.more W' = scheduler_world.more W \<Longrightarrow> streamTable W' = streamTable W"
  by (cases W; cases W') simp

lemma map_of_delete_same [simp]: "map_of (AList.delete k m) k = None"
  by (simp add: map_of_delete)

lemma timeout_expires:
  assumes "c \<noteq> []" "map_of (streamingDeadlines (streamTable W)) c = Some d" "d \<le> f"
    "timeout_executeImpl env c k f W = (res, W')"
  shows "\<not> stream_active c (services W')" "map_of (streamingDeadlines (streamTable W')) c = None"
    "c \<notin> set (timeoutEventPending (streamTable W'))"
proof -
  define T where "T = clearTimeoutEventPending c ((streamTable W)\<lparr>streamingDeadlines := AList.delete c (streamingDeadlines (streamTable W))\<rparr>)"
  define V where "V = release_stream env c (W\<lparr>streamTable := T\<rparr>)"
  have W': "W' = snd (startIdleIfNeeded env c V)"
    using assms(2-4) by (simp add: timeout_executeImpl_def decideExpiry_def T_def V_def leD Let_def)
  have "calm c V W'" unfolding W' by (rule calm_start_idle)
  moreover have "\<not> stream_active c (services V)" unfolding V_def by (rule release_not_streaming [OF assms(1)])
  ultimately show "\<not> stream_active c (services W')" by (simp add: calm_def)
  have "streamTable W' = T"
    using \<open>calm c V W'\<close> stream_table_more [of W' "W\<lparr>streamTable := T\<rparr>"] by (simp add: calm_def V_def)
  then show "map_of (streamingDeadlines (streamTable W')) c = None" "c \<notin> set (timeoutEventPending (streamTable W'))"
    by (simp_all add: T_def clearTimeoutEventPending_def)
qed

text \<open>
  C24: When frames stop arriving, the creature is released: its timeout event, executed before the
  current deadline, does nothing but schedule its successor at that deadline, and executed at or after
  the deadline it leaves the creature neither registered nor shown as streaming, even after the idle
  restart that follows, with no deadline and no pending mark; so two executions suffice.
\<close>

theorem abandoned_stream_is_released:
  assumes "c \<noteq> []" "eventLoop W \<noteq> None" "map_of (streamingDeadlines (streamTable W)) c = Some d"
    and "timeout_executeImpl env c k f W = (res, W')"
  shows "if f < d then W' = schedule_event d (StreamTimeout c (k + 1)) W \<and>
       \<not> fst (isCreatureStreaming now c (services (snd (timeout_executeImpl env c (k + 1) d W'))))
     else \<not> fst (isCreatureStreaming now c (services W')) \<and> c \<notin> set (streamingRegistry (services W')) \<and>
       map_of (streamingDeadlines (streamTable W')) c = None \<and> c \<notin> set (timeoutEventPending (streamTable W'))"
proof (cases "f < d")
  case True
  then have W': "W' = schedule_event d (StreamTimeout c (k + 1)) W"
    using assms(2-4) by (simp add: timeout_executeImpl_def decideExpiry_def Let_def)
  then have "map_of (streamingDeadlines (streamTable W')) c = Some d"
    using assms(3) by (simp add: schedule_event_def)
  then show ?thesis
    using True W' timeout_expires(1) [OF assms(1), of W' d d env "k + 1"]
    by (simp add: isCreatureStreaming_active prod_eq_iff)
next
  case False
  then have "d \<le> f" by simp
  note r = timeout_expires [OF assms(1,3) this assms(4)]
  then show ?thesis using False by (simp add: isCreatureStreaming_active) (simp add: stream_active_def)
qed

section \<open>A frame takes the creature over\<close>

lemma cancelled_sessions_gone:
  assumes "registry_ok W" "r \<in> set (getActiveSessions (cancelSessionsForCreatures env u cs W) u)"
  shows "\<not> overlaps cs (heap (cancelSessionsForCreatures env u cs W) ! r) \<or> cancelled (heap (cancelSessionsForCreatures env u cs W) ! r)"
proof (cases "map_of (universeStates W) u")
  case None
  then show ?thesis using assms(2) by (simp add: cancelSessionsForCreatures_def getActiveSessions_def)
next
  case (Some st)
  then have ex: "exclusive (heap W) (activeSessions st)" using assms(1) unfolding registry_ok_def by blast
  obtain H' vs sv where w: "cancel_where (\<lambda>s. overlaps cs s \<and> \<not> cancelled s) (activeSessions st) (heap W) = (H', vs, sv)"
    by (rule prod_cases3)
  have "distinct (activeSessions st)" "\<forall>r \<in> set (activeSessions st). r < length (heap W)"
    using ex by (auto simp: exclusive_def)
  note cw = cancel_where_spec [OF this w]
  have "cancelSessionsForCreatures env u cs W = notify_all env vs (put_universe u (st\<lparr>activeSessions := sv\<rparr>) (W\<lparr>heap := H'\<rparr>))"
    using Some w by (simp add: cancelSessionsForCreatures_def cancel_matching_def)
  then show ?thesis using cw assms(2) by (auto simp: getActiveSessions_def put_universe_def)
qed


definition gone_for :: "creatureId_t \<Rightarrow> universe_t \<Rightarrow> ('t, 'a) world_scheme \<Rightarrow> bool" where
  "gone_for c u W \<longleftrightarrow> (\<forall>r \<in> set (getActiveSessions W u). c \<in> set (creatureIds (heap W ! r)) \<longrightarrow> cancelled (heap W ! r))"

lemma gone_for_cancelled: "registry_ok W \<Longrightarrow> gone_for c u (cancelSessionsForCreatures env u [c] W)"
  using cancelled_sessions_gone [of W _ env u "[c]"] by (auto simp: gone_for_def overlaps_def list_ex_iff)

lemma gone_for_shrinks:
  assumes "registry_ok W" "shrinks W W'" "gone_for c u W" shows "gone_for c u W'"
  unfolding gone_for_def
proof (intro ballI impI)
  fix r assume r: "r \<in> set (getActiveSessions W' u)" "c \<in> set (creatureIds (heap W' ! r))"
  then obtain st' where st': "map_of (universeStates W') u = Some st'" "r \<in> set (activeSessions st')"
    by (cases "map_of (universeStates W') u") (simp_all add: getActiveSessions_def)
  then obtain st where st: "map_of (universeStates W) u = Some st" "r \<in> set (activeSessions st)"
    using shrinks_lists [OF assms(2) st'(1)] by fastforce
  then have a: "r \<in> set (getActiveSessions W u)" by (simp add: getActiveSessions_def)
  have "r < length (heap W)" by (rule active_in_heap [OF assms(1) a])
  then show "cancelled (heap W' ! r)"
    using assms(2,3) a r(2) by (simp add: shrinks_def heap_le_def gone_for_def)
qed

lemma frame_preempts:
  fixes W :: "('t, 'a) world_scheme" and env :: service_env and u :: universe_t and c :: creatureId_t
  assumes "registry_ok W"
  defines "V \<equiv> stop_playlist_for_stream env u (cancelSessionsForCreatures env u [c] W)"
  shows "gone_for c u V" "getPlaylistState V u \<noteq> PlActive" "getPlaylistState V u \<noteq> PlInterrupted" "eventLoop V = eventLoop W"
proof -
  define X where "X = cancelSessionsForCreatures env u [c] W"
  have sX: "shrinks W X" using shrinks_op [OF assms(1), of "CancelFor u [c]" env] by (simp add: X_def)
  have okX: "registry_ok X" using registry_ok_shrinks [OF assms(1) sX] .
  have sV: "shrinks X V"
    using shrinks_op [OF okX, of "StopPl u" env] by (simp add: V_def X_def stop_playlist_for_stream_def shrinks_refl)
  show "gone_for c u V"
    using gone_for_shrinks [OF okX sV] gone_for_cancelled [OF assms(1)] by (simp add: X_def)
  have "getPlaylistState V u \<noteq> PlActive \<and> getPlaylistState V u \<noteq> PlInterrupted"
    by (auto simp: V_def stop_playlist_for_stream_def stopPlaylist_def playlist_cancel_matching mark_playing_frame
        dest: playlist_absent playlist_lookup split: option.splits)
  then show "getPlaylistState V u \<noteq> PlActive" "getPlaylistState V u \<noteq> PlInterrupted" by auto
  show "eventLoop V = eventLoop W"
    by (auto simp: V_def stop_playlist_for_stream_def stopPlaylist_def cancelSessionsForCreatures_def cancel_matching_def
        put_universe_def case_prod_unfold Let_def split: option.splits)
qed

lemma streaming_refuses:
  assumes "c \<in> set (streamingRegistry (services W))" "c \<in> set (map creature_id (tracks a))"
  shows "isl (fst (scheduleAnimation env start a u reason b W))"
proof -
  obtain res W' where s: "scheduleAnimation env start a u reason b W = (res, W')" by fastforce
  have no: "admit_animation env a W \<noteq> (Inr slot, W1)" for slot W1
    using admit_animation_streaming assms by fastforce
  show ?thesis using s
  proof (cases rule: scheduleAnimation_cases)
    case (refused e)
    then show ?thesis using s by simp
  qed (use no in blast)+
qed


lemma stream_creature_frame:
  "stream_creature db c W = (p, W') \<Longrightarrow> \<exists>k. W' = W\<lparr>creatureCache := k\<rparr>"
proof -
  assume *: "stream_creature db c W = (p, W')"
  have "\<exists>k. V = V\<lparr>creatureCache := k\<rparr>" for V :: "('a, 'b) runner_world_scheme"
    by (rule exI [of _ "creatureCache V"]) simp
  then show ?thesis
    using * by (auto simp: stream_creature_def fetch_creature_def split: or_out_of_range.splits option.splits sum.splits)
qed

lemma mark_streaming_effect:
  "heap (mark_streaming env c W) = heap W" "universeStates (mark_streaming env c W) = universeStates W"
  "eventLoop (mark_streaming env c W) = eventLoop W" "outbox (mark_streaming env c W) = outbox W"
  "world.more (mark_streaming env c W) = world.more W"
  "set (streamingRegistry (services (mark_streaming env c W))) = insert c (set (streamingRegistry (services W)))"
  by (auto simp: mark_streaming_def markStreamingIfNew_def Let_def)

lemma arm_timeout_effect:
  "heap (arm_timeout c W) = heap W" "universeStates (arm_timeout c W) = universeStates W"
  "eventLoop (arm_timeout c W) = eventLoop W" "services (arm_timeout c W) = services W"
  by (auto simp: arm_timeout_def markTimeoutEventPending_def schedule_event_def Let_def)



section \<open>Many websocket threads against the event loop\<close>

text \<open>
  The handler calls in flight, each before its next critical section, and what the event loop is
  doing with a timeout event. \<open>timeouts\<close> are the queued timeout events.
\<close>

datatype frame_pc = AtMark creatureId_t | AtDeadline creatureId_t | AtArm creatureId_t framenum_t
  | AtSchedule creatureId_t framenum_t

datatype firing_pc = AtChase creatureId_t framenum_t | AtClear creatureId_t

record stream_system =
  table :: stream_table
  registered :: "creatureId_t list"
  timeouts :: "(framenum_t \<times> creatureId_t) list"
  frame_pcs :: "frame_pc list"
  firing :: "firing_pc option"

definition remove_at :: "nat \<Rightarrow> 'x list \<Rightarrow> 'x list" where
  "remove_at i xs = take i xs @ drop (Suc i) xs"

text \<open>One critical section of the \<open>i\<close>-th call; the deadline it computes is its own, and arbitrary.\<close>

fun frame_step :: "nat \<Rightarrow> framenum_t \<Rightarrow> frame_pc \<Rightarrow> stream_system \<Rightarrow> stream_system" where
  "frame_step i d (AtMark c) s =
     s\<lparr>registered := List.insert c (registered s), frame_pcs := (frame_pcs s)[i := AtDeadline c]\<rparr>"
| "frame_step i d (AtDeadline c) s =
     s\<lparr>table := updateStreamingDeadline c d (table s), frame_pcs := (frame_pcs s)[i := AtArm c d]\<rparr>"
| "frame_step i d (AtArm c d') s =
     (let (arm, T) = markTimeoutEventPending c (table s)
      in s\<lparr>table := T, frame_pcs := if arm then (frame_pcs s)[i := AtSchedule c d'] else remove_at i (frame_pcs s)\<rparr>)"
| "frame_step i d (AtSchedule c d') s =
     s\<lparr>timeouts := timeouts s @ [(d', c)], frame_pcs := remove_at i (frame_pcs s)\<rparr>"

definition fire_step :: "framenum_t \<times> creatureId_t \<Rightarrow> stream_system \<Rightarrow> stream_system" where
  "fire_step e s = (case decideExpiry (snd e) (fst e) (table s) of (decision, T) \<Rightarrow>
     s\<lparr>table := T, timeouts := remove1 e (timeouts s),
       firing := (case decision of AlreadyGone \<Rightarrow> None | Chase d \<Rightarrow> Some (AtChase (snd e) d)
         | Expired \<Rightarrow> Some (AtClear (snd e)))\<rparr>)"

fun firing_step :: "firing_pc \<Rightarrow> stream_system \<Rightarrow> stream_system" where
  "firing_step (AtChase c d) s = s\<lparr>timeouts := timeouts s @ [(d, c)], firing := None\<rparr>"
| "firing_step (AtClear c) s = s\<lparr>registered := removeAll c (registered s), firing := None\<rparr>"

inductive stream_step :: "stream_system \<Rightarrow> stream_system \<Rightarrow> bool" where
  arrive: "stream_step s (s\<lparr>frame_pcs := frame_pcs s @ [AtMark c]\<rparr>)"
| turn: "i < length (frame_pcs s) \<Longrightarrow> stream_step s (frame_step i d (frame_pcs s ! i) s)"
| fire: "firing s = None \<Longrightarrow> e \<in> set (timeouts s) \<Longrightarrow> stream_step s (fire_step e s)"
| proceed: "firing s = Some pc \<Longrightarrow> stream_step s (firing_step pc s)"

definition stream_start :: stream_system where
  "stream_start = \<lparr>table = \<lparr>streamingDeadlines = [], timeoutEventPending = []\<rparr>, registered = [],
     timeouts = [], frame_pcs = [], firing = None\<rparr>"

inductive stream_reach :: "stream_system \<Rightarrow> bool" where
  start: "stream_reach stream_start"
| step: "stream_reach s \<Longrightarrow> stream_step s s' \<Longrightarrow> stream_reach s'"

text \<open>
  The accounting: the events of a creature that are queued or about to be queued are as many as it has
  pending marks, and a registered creature is always on its way to an event and a deadline.
\<close>

definition schedules :: "creatureId_t \<Rightarrow> frame_pc \<Rightarrow> bool" where
  "schedules c pc \<longleftrightarrow> (case pc of AtSchedule c' d \<Rightarrow> c' = c | _ \<Rightarrow> False)"

definition will_arm :: "creatureId_t \<Rightarrow> frame_pc \<Rightarrow> bool" where
  "will_arm c pc \<longleftrightarrow> (case pc of AtDeadline c' \<Rightarrow> c' = c | AtArm c' d \<Rightarrow> c' = c | _ \<Rightarrow> False)"

definition chasing :: "creatureId_t \<Rightarrow> firing_pc option \<Rightarrow> nat" where
  "chasing c f = (case f of Some (AtChase c' d) \<Rightarrow> if c' = c then 1 else 0 | _ \<Rightarrow> 0)"

definition armed :: "creatureId_t \<Rightarrow> stream_system \<Rightarrow> nat" where
  "armed c s = length (filter (\<lambda>e. snd e = c) (timeouts s)) + chasing c (firing s) +
     length (filter (schedules c) (frame_pcs s))"

definition stream_inv :: "creatureId_t \<Rightarrow> stream_system \<Rightarrow> bool" where
  "stream_inv c s \<longleftrightarrow>
     armed c s = (if c \<in> set (timeoutEventPending (table s)) then 1 else 0) \<and>
     (c \<in> set (registered s) \<longrightarrow> firing s = Some (AtClear c) \<or>
        ((c \<in> set (timeoutEventPending (table s)) \<or> list_ex (will_arm c) (frame_pcs s)) \<and>
         (map_of (streamingDeadlines (table s)) c \<noteq> None \<or> AtDeadline c \<in> set (frame_pcs s))))"

lemma remove_at_split: "remove_at (length xs) (xs @ x # ys) = xs @ ys"
  by (simp add: remove_at_def)

lemma inv_frame_step:
  assumes "stream_inv c s" "frame_pcs s = xs @ pc # ys"
  shows "stream_inv c (frame_step (length xs) d pc s)"
proof (cases pc)
  case (AtMark c')
  then show ?thesis using assms by (auto simp: stream_inv_def armed_def schedules_def will_arm_def)
next
  case (AtDeadline c')
  then show ?thesis
    using assms by (auto simp: stream_inv_def armed_def schedules_def will_arm_def updateStreamingDeadline_def)
next
  case (AtArm c' d')
  then show ?thesis
    using assms by (auto simp: stream_inv_def armed_def schedules_def will_arm_def markTimeoutEventPending_def
        remove_at_split Let_def split: if_splits)
next
  case (AtSchedule c' d')
  then show ?thesis
    using assms by (auto simp: stream_inv_def armed_def schedules_def will_arm_def remove_at_split split: if_splits)
qed

lemma inv_firing_step:
  assumes "stream_inv c s" "firing s = Some pc"
  shows "stream_inv c (firing_step pc s)"
  using assms by (cases pc) (auto simp: stream_inv_def armed_def chasing_def split: if_splits)

lemma inv_fire_step:
  assumes "stream_inv c s" "firing s = None" "e \<in> set (timeouts s)"
  shows "stream_inv c (fire_step e s)"
proof -
  obtain f c' where e: "e = (f, c')" by fastforce
  obtain as bs where q: "timeouts s = as @ e # bs" "e \<notin> set as" using assms(3) by (meson split_list_first)
  have r: "remove1 e (timeouts s) = as @ bs" using q by (simp add: remove1_append)
  have "AtDeadline c \<in> set (frame_pcs s) \<Longrightarrow> list_ex (will_arm c) (frame_pcs s)"
    unfolding list_ex_iff by (rule bexI [of _ "AtDeadline c"]) (simp_all add: will_arm_def)
  then show ?thesis
    using assms(1,2) q r e
    by (auto simp: stream_inv_def armed_def chasing_def fire_step_def decideExpiry_def clearTimeoutEventPending_def map_of_delete
        split: if_splits option.splits)
qed


lemma stream_inv_step:
  assumes "stream_step s s'" "stream_inv c s" shows "stream_inv c s'"
  using assms
proof cases
  case (arrive c')
  then show ?thesis using assms(2) by (auto simp: stream_inv_def armed_def schedules_def will_arm_def)
next
  case (turn i d)
  then have "frame_pcs s = take i (frame_pcs s) @ frame_pcs s ! i # drop (Suc i) (frame_pcs s)" "length (take i (frame_pcs s)) = i"
    by (simp_all add: id_take_nth_drop)
  then show ?thesis using inv_frame_step [OF assms(2), of "take i (frame_pcs s)"] turn(1) by metis
qed (use assms(2) in \<open>auto intro: inv_fire_step inv_firing_step\<close>)

lemma stream_inv_reachable: "stream_reach s \<Longrightarrow> stream_inv c s"
proof (induction rule: stream_reach.induct)
  case start
  show ?case by (simp add: stream_inv_def armed_def chasing_def stream_start_def)
qed (use stream_inv_step in blast)

text \<open>A timeout event executed without interruption.\<close>

definition fire_whole :: "framenum_t \<times> creatureId_t \<Rightarrow> stream_system \<Rightarrow> stream_system" where
  "fire_whole e s = (let s1 = fire_step e s in case firing s1 of None \<Rightarrow> s1 | Some pc \<Rightarrow> firing_step pc s1)"

lemma fire_whole_expired:
  assumes "map_of (streamingDeadlines (table s)) c = Some d" "d \<le> f"
  shows "c \<notin> set (registered (fire_whole (f, c) s))"
  using assms by (simp add: fire_whole_def fire_step_def decideExpiry_def leD Let_def)

lemma fire_whole_chases:
  assumes "map_of (streamingDeadlines (table s)) c = Some d" "f < d"
  shows "map_of (streamingDeadlines (table (fire_whole (f, c) s))) c = Some d"
    "(d, c) \<in> set (timeouts (fire_whole (f, c) s))"
  using assms by (simp_all add: fire_whole_def fire_step_def decideExpiry_def Let_def)

text \<open>
  C9: However the websocket threads and the event loop interleave, a creature never has more than one
  timeout event queued or about to be queued, and it never stays registered as streaming without one:
  whenever no call is in flight, a registered creature has exactly one timeout event and a deadline,
  and executing that event, and its successor at the deadline if it came early, unregisters it.
\<close>

theorem streaming_never_stuck:
  assumes "stream_reach s"
  shows "armed c s \<le> 1 \<and>
    (c \<in> set (registered s) \<and> frame_pcs s = [] \<and> firing s = None \<longrightarrow>
      (\<exists>f d. filter (\<lambda>e. snd e = c) (timeouts s) = [(f, c)] \<and> map_of (streamingDeadlines (table s)) c = Some d \<and>
        c \<notin> set (registered (if f < d then fire_whole (d, c) (fire_whole (f, c) s) else fire_whole (f, c) s))))"
proof -
  have inv: "stream_inv c s" using assms by (rule stream_inv_reachable)
  then have "armed c s \<le> 1" by (simp add: stream_inv_def)
  moreover have "\<exists>f d. filter (\<lambda>e. snd e = c) (timeouts s) = [(f, c)] \<and> map_of (streamingDeadlines (table s)) c = Some d \<and>
        c \<notin> set (registered (if f < d then fire_whole (d, c) (fire_whole (f, c) s) else fire_whole (f, c) s))"
    if quiescent: "c \<in> set (registered s)" "frame_pcs s = []" "firing s = None"
  proof -
    have a: "armed c s = 1" "map_of (streamingDeadlines (table s)) c \<noteq> None"
      using inv quiescent by (auto simp: stream_inv_def)
    then obtain d where d: "map_of (streamingDeadlines (table s)) c = Some d" by blast
    have "length (filter (\<lambda>e. snd e = c) (timeouts s)) = 1" using a quiescent by (simp add: armed_def chasing_def)
    then obtain e where e: "filter (\<lambda>e. snd e = c) (timeouts s) = [e]"
      by (cases "filter (\<lambda>e. snd e = c) (timeouts s)") auto
    then have "e \<in> set (filter (\<lambda>e. snd e = c) (timeouts s))" by simp
    then have "snd e = c" by simp
    then obtain f where f: "e = (f, c)" by (cases e) simp
    have "c \<notin> set (registered (if f < d then fire_whole (d, c) (fire_whole (f, c) s) else fire_whole (f, c) s))"
      using fire_whole_expired d fire_whole_chases(1) [OF d, of f] by (simp add: not_less)
    then show ?thesis using e f d by blast
  qed
  ultimately show ?thesis by blast
qed


text \<open>
  The handler and the timeout event of the first half, run without interruption, are such steps on
  what they share. The timeout event's idle restart comes after its last step.
\<close>

definition timeout_events :: "server_event event list \<Rightarrow> (framenum_t \<times> creatureId_t) list" where
  "timeout_events es = List.map_filter (\<lambda>(f, e). case e of StreamTimeout c k \<Rightarrow> Some (f, c) | _ \<Rightarrow> None) es"

definition shared_view :: "('t, 'a) stream_world_scheme \<Rightarrow> stream_system" where
  "shared_view W = \<lparr>table = streamTable W, registered = streamingRegistry (services W),
     timeouts = timeout_events (outbox W), frame_pcs = [], firing = None\<rparr>"

lemma timeout_events_simps [simp]:
  "timeout_events [] = []"
  "timeout_events (es @ es') = timeout_events es @ timeout_events es'"
  "timeout_events [(f, StreamTimeout c k)] = [(f, c)]"
  "timeout_events [(f, DmxWrite d)] = []"
  "timeout_events (map (\<lambda>r. (f, RunnerEvent r)) rs) = []"
  by (simp_all add: timeout_events_def List.map_filter_def filter_empty_conv)

lemma table_world: "world.more W' = world.more W \<Longrightarrow> streamTable W' = streamTable (W :: ('t, 'a) stream_world_scheme)"
  by (cases W; cases W') simp

lemma registry_increment_one: "streamingRegistry (increment_idle_stopped_one now c S) = streamingRegistry S"
  using registry_frame(1) [of now c S]
  by (simp add: increment_idle_stopped_one_def case_prod_unfold Let_def del: registry_frame(1) split: option.splits)

lemma registry_increment [simp]: "streamingRegistry (incrementIdleStopped now cs S) = streamingRegistry S"
  unfolding incrementIdleStopped_def by (induction cs arbitrary: S) (simp_all add: registry_increment_one)

lemma registry_notify: "streamingRegistry (services (notifyCancelledSession env r W)) = streamingRegistry (services W)"
  by (simp add: notifyCancelledSession_def services_teardown Let_def)

lemma registry_notify_all [simp]: "streamingRegistry (services (notify_all env rs W)) = streamingRegistry (services W)"
  unfolding notify_all_def by (induction rs arbitrary: W) (simp_all add: registry_notify)

lemma view_cancel_matching:
  fixes W :: "('t, 'a) stream_world_scheme"
  assumes "eventLoop W = Some cur"
  shows "shared_view (snd (cancel_matching env u P st W)) = shared_view W"
proof -
  obtain H' cs sv where w: "cancel_where P (activeSessions st) (heap W) = (H', cs, sv)" by (rule prod_cases3)
  define X where "X = put_universe u (st\<lparr>activeSessions := sv\<rparr>) (W\<lparr>heap := H'\<rparr>)"
  have X: "outbox X = outbox W" "eventLoop X = Some cur" "services X = services W" "world.more X = world.more W"
    using assms by (simp_all add: X_def put_universe_def)
  have "snd (cancel_matching env u P st W) = notify_all env cs X" by (simp add: cancel_matching_def w X_def)
  moreover have "streamTable (notify_all env cs X) = streamTable W"
    using table_world [of "notify_all env cs X" W] by (simp add: notify_all_more X)
  ultimately show ?thesis using outbox_notify_all [OF X(2), of env cs] by (simp add: shared_view_def X)
qed

lemma view_preempt:
  fixes W :: "('t, 'a) stream_world_scheme"
  assumes "eventLoop W = Some cur"
  shows "shared_view (stop_playlist_for_stream env u (cancelSessionsForCreatures env u cs W)) = shared_view W"
proof -
  define X where "X = cancelSessionsForCreatures env u cs W"
  have X: "shared_view X = shared_view W" "eventLoop X = Some cur"
    using assms by (auto simp: X_def cancelSessionsForCreatures_def view_cancel_matching split: option.splits)
      (auto simp: cancel_matching_def put_universe_def case_prod_unfold Let_def)
  have "shared_view (stop_playlist_for_stream env u X) = shared_view X"
    using view_cancel_matching [OF X(2)] by (auto simp: stop_playlist_for_stream_def stopPlaylist_def split: option.splits)
  then show ?thesis using X by (simp add: X_def)
qed


lemma one_call:
  assumes "frame_pcs s = []"
  shows "stream_step\<^sup>*\<^sup>* s (let (arm, T) = markTimeoutEventPending c (updateStreamingDeadline c d (table s))
     in s\<lparr>registered := List.insert c (registered s), table := T, timeouts := timeouts s @ (if arm then [(d, c)] else [])\<rparr>)"
proof -
  obtain arm T where m: "markTimeoutEventPending c (updateStreamingDeadline c d (table s)) = (arm, T)" by fastforce
  define s1 where "s1 = s\<lparr>frame_pcs := [AtMark c]\<rparr>"
  define s2 where "s2 = s\<lparr>registered := List.insert c (registered s), frame_pcs := [AtDeadline c]\<rparr>"
  define s3 where "s3 = s2\<lparr>table := updateStreamingDeadline c d (table s), frame_pcs := [AtArm c d]\<rparr>"
  define s4 where "s4 = s3\<lparr>table := T, frame_pcs := (if arm then [AtSchedule c d] else [])\<rparr>"
  define s5 where "s5 = s4\<lparr>timeouts := timeouts s @ [(d, c)], frame_pcs := []\<rparr>"
  have s0: "s = s\<lparr>frame_pcs := []\<rparr>" using assms by simp
  have "stream_step s s1" using stream_step.arrive [of s c] assms by (simp add: s1_def)
  moreover have "stream_step s1 s2" using stream_step.turn [of 0 s1 d] by (simp add: s1_def s2_def)
  moreover have "stream_step s2 s3" using stream_step.turn [of 0 s2 d] by (simp add: s2_def s3_def)
  moreover have "stream_step s3 s4"
    using stream_step.turn [of 0 s3 d] m by (cases arm) (simp_all add: s2_def s3_def s4_def remove_at_def)
  ultimately have r4: "stream_step\<^sup>*\<^sup>* s s4" by (meson converse_rtranclp_into_rtranclp rtranclp.rtrancl_refl)
  show ?thesis
  proof (cases arm)
    case True
    then have "stream_step s4 s5"
      using stream_step.turn [of 0 s4 d] by (simp add: s2_def s3_def s4_def s5_def remove_at_def)
    moreover have "s5 = s\<lparr>registered := List.insert c (registered s), table := T, timeouts := timeouts s @ [(d, c)]\<rparr>"
      using assms by (simp add: s5_def s4_def s3_def s2_def)
    ultimately show ?thesis using r4 m True by simp
  next
    case False
    then have "s4 = s\<lparr>registered := List.insert c (registered s), table := T\<rparr>"
      using assms by (simp add: s4_def s3_def s2_def)
    then show ?thesis using r4 m False by simp
  qed
qed

lemma stream_refines_steps:
  assumes "eventLoop W = Some cur" "stream env db fr W = (out, W')"
  shows "stream_step\<^sup>*\<^sup>* (shared_view W) (shared_view W')"
proof -
  define c where "c = sf_creature fr"
  define V where "V = stop_playlist_for_stream (se_service env) (sf_universe fr)
     (cancelSessionsForCreatures (se_service env) (sf_universe fr) [c] W)"
  have V: "shared_view V = shared_view W" unfolding V_def by (rule view_preempt [OF assms(1)])
  obtain p W3 where sc: "stream_creature db c V = (p, W3)" by fastforce
  obtain k where W3: "W3 = V\<lparr>creatureCache := k\<rparr>" using stream_creature_frame [OF sc] by blast
  have v3: "shared_view W3 = shared_view W" using V by (simp add: W3 shared_view_def)
  show ?thesis
  proof (cases p)
    case None
    then have "W' = W3" using assms(2) sc by (simp add: stream_def V_def [symmetric] c_def [symmetric] Let_def)
    then show ?thesis using v3 by simp
  next
    case (Some cr)
    define X where "X = mark_streaming env c W3"
    define W4 where "W4 = arm_timeout c X"
    have X: "streamTable X = streamTable W3" "outbox X = outbox W3"
      using table_world [of X W3] by (simp_all add: X_def mark_streaming_effect)
    have reg: "streamingRegistry (services X) = List.insert c (streamingRegistry (services W3))"
      by (simp add: X_def mark_streaming_def markStreamingIfNew_def Let_def)
    have "shared_view W4 = (let (arm, T) = markTimeoutEventPending c (updateStreamingDeadline c (stream_deadline X) (streamTable W3))
        in (shared_view W3)\<lparr>registered := List.insert c (streamingRegistry (services W3)), table := T,
             timeouts := timeout_events (outbox W3) @ (if arm then [(stream_deadline X, c)] else [])\<rparr>)"
      using X reg by (simp add: W4_def arm_timeout_def shared_view_def schedule_event_def Let_def case_prod_unfold)
    then have steps: "stream_step\<^sup>*\<^sup>* (shared_view W3) (shared_view W4)"
      using one_call [of "shared_view W3" c "stream_deadline X"] by (simp add: shared_view_def)
    have "shared_view W' = shared_view W4"
      using assms(2) sc Some
      by (auto simp: stream_def V_def [symmetric] c_def [symmetric] W4_def X_def Let_def shared_view_def schedule_event_def
          split: option.splits)
    then show ?thesis using steps v3 by simp
  qed
qed

lemma timeout_refines_steps:
  assumes "eventLoop W = Some cur" "timeout_executeImpl env c k f W = (res, W')"
  shows "\<exists>V. stream_step\<^sup>*\<^sup>* ((shared_view W)\<lparr>timeouts := (f, c) # timeout_events (outbox W)\<rparr>) (shared_view V) \<and>
    (W' = V \<or> W' = snd (startIdleIfNeeded env c V))"
proof -
  define s where "s = (shared_view W)\<lparr>timeouts := (f, c) # timeout_events (outbox W)\<rparr>"
  obtain dec T where d: "decideExpiry c f (streamTable W) = (dec, T)" by fastforce
  define V where "V = (case dec of AlreadyGone \<Rightarrow> W\<lparr>streamTable := T\<rparr>
     | Chase d \<Rightarrow> schedule_event d (StreamTimeout c (k + 1)) (W\<lparr>streamTable := T\<rparr>)
     | Expired \<Rightarrow> release_stream env c (W\<lparr>streamTable := T\<rparr>))"
  have W': "W' = V \<or> W' = snd (startIdleIfNeeded env c V)"
    using assms d by (auto simp: timeout_executeImpl_def V_def Let_def split: expiry_decision.splits)
  have fire: "stream_step s (fire_step (f, c) s)" by (rule stream_step.fire) (simp_all add: s_def shared_view_def)
  have view: "shared_view V = fire_whole (f, c) s"
    using d by (cases dec) (simp_all add: V_def s_def fire_whole_def fire_step_def shared_view_def schedule_event_def
        release_stream_def clearStreaming_def Let_def)
  have "stream_step\<^sup>*\<^sup>* s (fire_whole (f, c) s)"
  proof (cases "firing (fire_step (f, c) s)")
    case None
    then show ?thesis using fire by (simp add: fire_whole_def Let_def)
  next
    case (Some pc)
    then show ?thesis
      using fire stream_step.proceed [OF Some] by (simp add: fire_whole_def Let_def)
  qed
  then show ?thesis using W' unfolding s_def [symmetric] view [symmetric] by blast
qed

section \<open>Examples\<close>

definition demo_stream_world :: "unit stream_world" where
  "demo_stream_world = scheduler_world.extend (startPlaylist 1 ''show'' demo_sched_world)
     \<lparr>streamTable = \<lparr>streamingDeadlines = [], timeoutEventPending = []\<rparr>, framesStreamed = 0\<rparr>"

definition demo_frame :: stream_frame where
  "demo_frame = \<lparr>sf_creature = ''beaky'', sf_universe = 1, sf_data = ''AQI=''\<rparr>"

definition demo_live :: "unit stream_world" where
  "demo_live = snd (stream demo_sched_env demo_db demo_frame demo_stream_world)"


lemma demo_stream_facts:
  "registry_ok demo_stream_world" "eventLoop demo_stream_world = Some 100"
  "fst (stream demo_sched_env demo_db demo_frame demo_stream_world) = Streamed"
  "getPlaylistState demo_stream_world 1 = PlActive"
  by (simp add: demo_stream_world_def registry_ok_def demo_sched_world_def startPlaylist_def put_universe_def Let_def
      scheduler_world.extend_def generation_of_def new_service_def exclusive_def universe_at_def new_universe_state_def
      mark_playing_def)
    code_simp+


definition demo_abandoned :: "unit stream_world" where
  "demo_abandoned = snd (timeout_executeImpl demo_sched_env ''beaky'' 0 1101 demo_live)"

theorem abandoned_stream_is_released_witness:
  "fst (isCreatureStreaming [] ''beaky'' (services demo_live)) \<and>
   \<not> fst (isCreatureStreaming [] ''beaky'' (services demo_abandoned)) \<and>
   ''beaky'' \<notin> set (timeoutEventPending (streamTable demo_abandoned))"
proof -
  have "eventLoop demo_live \<noteq> None" "map_of (streamingDeadlines (streamTable demo_live)) ''beaky'' = Some 1101"
    "fst (isCreatureStreaming [] ''beaky'' (services demo_live))"
    by code_simp+
  then show ?thesis
    using abandoned_stream_is_released [of "''beaky''" demo_live 1101 demo_sched_env 0 1101
        "fst (timeout_executeImpl demo_sched_env ''beaky'' 0 1101 demo_live)" demo_abandoned "[]"]
    by (simp add: demo_abandoned_def)
qed

definition demo_system :: stream_system where
  "demo_system = stream_start\<lparr>table := \<lparr>streamingDeadlines = [(''beaky'', 1101)], timeoutEventPending = [''beaky'']\<rparr>,
     registered := [''beaky''], timeouts := [(1101, ''beaky'')]\<rparr>"

lemma stream_reach_steps: "stream_step\<^sup>*\<^sup>* s s' \<Longrightarrow> stream_reach s \<Longrightarrow> stream_reach s'"
  by (induction rule: rtranclp_induct) (auto intro: stream_reach.step)

theorem streaming_never_stuck_witness:
  "armed ''beaky'' demo_system = 1 \<and> ''beaky'' \<in> set (registered demo_system) \<and>
   ''beaky'' \<notin> set (registered (fire_whole (1101, ''beaky'') demo_system))"
proof -
  have "(let (arm, T) = markTimeoutEventPending ''beaky'' (updateStreamingDeadline ''beaky'' 1101 (table stream_start))
     in stream_start\<lparr>registered := List.insert ''beaky'' (registered stream_start), table := T,
          timeouts := timeouts stream_start @ (if arm then [(1101, ''beaky'')] else [])\<rparr>) = demo_system"
    by code_simp
  then have "stream_step\<^sup>*\<^sup>* stream_start demo_system"
    using one_call [of stream_start "''beaky''" 1101] by (simp add: stream_start_def)
  then have r: "stream_reach demo_system" using stream_reach_steps stream_reach.start by blast
  have e: "armed ''beaky'' demo_system = 1" "''beaky'' \<in> set (registered demo_system)"
      "frame_pcs demo_system = []" "firing demo_system = None"
      "filter (\<lambda>e. snd e = ''beaky'') (timeouts demo_system) = [(1101, ''beaky'')]"
      "map_of (streamingDeadlines (table demo_system)) ''beaky'' = Some 1101"
    by code_simp+
  then show ?thesis using streaming_never_stuck [OF r, of "''beaky''"] by simp
qed

end
