(* ===== verification/Ixml.thy ===== *)
theory Ixml
  imports Prelude
begin

text \<open>
  The provenance document of a WAV file: \<open>buildIxml\<close> and \<open>makeIxmlChunk\<close>
  (src/src/server/voice/IxmlWriter.h and .cpp), the packed token lists (IxmlTimedTokens.cpp) and the
  reader (IxmlReader.h and .cpp). A position in the document is the text from there on. The doubles of
  the timings, with \<open>snprintf\<close>'s \<open>%.3f\<close> and \<open>strtod\<close>, are parameters; \<open>strtoul\<close> and \<open>strtoll\<close>
  in base ten are modelled. The JSON codec of the same files only lists the fields and is not modelled.
\<close>

section \<open>Data\<close>

record track_info =
  ti_channel :: u16
  ti_name :: string

record script_line =
  sl_speaker :: string
  sl_text :: string

record 'd lipsync_cue =
  lc_start :: 'd
  lc_end :: 'd
  lc_shape :: string

record 'd lipsync_track =
  lt_channel :: u16
  lt_name :: string
  lt_cues :: "'d lipsync_cue list"

record 'd word_timing =
  wt_word :: string
  wt_start :: 'd
  wt_end :: 'd

record 'd word_track =
  wd_channel :: u16
  wd_name :: string
  wd_words :: "'d word_timing list"

record 'd timed_token =
  tt_start :: 'd
  tt_end :: 'd
  tt_token :: string

record music_provenance =
  mp_provider :: string
  mp_endpoint :: string
  mp_modelId :: string
  mp_outputFormat :: string
  mp_sourceChannels :: int
  mp_channelTransform :: string
  mp_generationMode :: string
  mp_prompt :: string
  mp_sourceDialogDurationMs :: int
  mp_durationExtensionMs :: int
  mp_musicLengthMs :: int
  mp_forceInstrumental :: bool
  mp_requestJson :: string
  mp_responseMetadataJson :: string
  mp_compositionPlanJson :: string
  mp_songMetadataJson :: string
  mp_songId :: string
  mp_requestId :: string
  mp_generatedAt :: string
  mp_musicGenerationId :: string
  mp_sourceDialogGenerationId :: string
  mp_sourceDialogCacheKey :: string
  mp_sourceScriptUpdatedAt :: int
  mp_pcmSha256 :: string

record 'd wav_provenance =
  fileUid :: string
  take_name :: string
  circled :: "bool option"
  sourceScriptId :: string
  wp_title :: string
  generationIds :: "string list"
  wp_tracks :: "track_info list"
  wp_script :: "script_line list"
  wp_lipsync :: "'d lipsync_track list"
  wordAlignment :: "'d word_track list"
  wp_music :: "music_provenance option"

definition music_empty :: "music_provenance \<Rightarrow> bool" where
  "music_empty m \<longleftrightarrow> mp_requestJson m = [] \<and> mp_musicGenerationId m = []"

definition provenance_empty :: "'d wav_provenance \<Rightarrow> bool" where
  "provenance_empty p \<longleftrightarrow> fileUid p = [] \<and> take_name p = [] \<and> circled p = None \<and> sourceScriptId p = [] \<and>
     wp_title p = [] \<and> generationIds p = [] \<and> wp_tracks p = [] \<and> wp_script p = [] \<and> wp_lipsync p = [] \<and>
     wordAlignment p = [] \<and> (case wp_music p of None \<Rightarrow> True | Some m \<Rightarrow> music_empty m)"

section \<open>Writing\<close>

definition legal_char :: "char \<Rightarrow> bool" where
  "legal_char c \<longleftrightarrow> 32 \<le> (of_char c :: nat) \<or> c = CHR 0x09 \<or> c = CHR 0x0A \<or> c = CHR 0x0D"

definition escape_char :: "char \<Rightarrow> string" where
  "escape_char c =
     (if c = CHR 0x26 then ''&amp;''
      else if c = CHR 0x3C then ''&lt;''
      else if c = CHR 0x3E then ''&gt;''
      else if c = CHR 0x22 then ''&quot;''
      else if c = CHR 0x27 then ''&apos;''
      else if legal_char c then [c] else '' '')"

definition xmlEscape :: "string \<Rightarrow> string" where
  "xmlEscape s = concat (map escape_char s)"

fun join_with :: "string \<Rightarrow> string list \<Rightarrow> string" where
  "join_with sep [] = []"
| "join_with sep [x] = x"
| "join_with sep (x # y # ys) = x @ sep @ join_with sep (y # ys)"

definition joinGenerationIds :: "string list \<Rightarrow> string" where
  "joinGenerationIds ids = join_with '','' ids"

definition open_tag :: "string \<Rightarrow> string" where "open_tag tag = ''<'' @ tag @ ''>''"
definition close_tag :: "string \<Rightarrow> string" where "close_tag tag = ''</'' @ tag @ ''>''"
definition newline :: string where "newline = [CHR 0x0A]"

text \<open>\<open>emitTrack\<close> and the two forms of the track list.\<close>

definition emitTrack :: "string \<Rightarrow> string \<Rightarrow> string" where
  "emitTrack ch name = ''    <TRACK>'' @ ''<CHANNEL_INDEX>'' @ ch @ ''</CHANNEL_INDEX>'' @
     ''<NAME>'' @ xmlEscape name @ ''</NAME>'' @ ''<INTERLEAVE_INDEX>'' @ ch @ ''</INTERLEAVE_INDEX>'' @
     ''</TRACK>'' @ newline"

definition nameByChannel :: "nat \<Rightarrow> track_info list \<Rightarrow> string list" where
  "nameByChannel n ts = fold (\<lambda>t names. if 1 \<le> unat (ti_channel t) \<and> unat (ti_channel t) \<le> n
     then names[unat (ti_channel t) - 1 := ti_name t] else names) ts (replicate n [])"

definition build_track_list :: "nat \<Rightarrow> track_info list \<Rightarrow> string" where
  "build_track_list totalChannels ts =
     (if 0 < totalChannels then
        ''  <TRACK_LIST>'' @ newline @ ''    <TRACK_COUNT>'' @ dec totalChannels @ ''</TRACK_COUNT>'' @ newline @
        concat (map (\<lambda>c. emitTrack (dec (c + 1)) (nameByChannel totalChannels ts ! c)) [0..<totalChannels]) @
        ''  </TRACK_LIST>'' @ newline
      else if ts \<noteq> [] then
        ''  <TRACK_LIST>'' @ newline @ ''    <TRACK_COUNT>'' @ dec (length ts) @ ''</TRACK_COUNT>'' @ newline @
        concat (map (\<lambda>t. emitTrack (dec (unat (ti_channel t))) (ti_name t)) ts) @
        ''  </TRACK_LIST>'' @ newline
      else [])"

definition script_blob :: "script_line list \<Rightarrow> string" where
  "script_blob ls = join_with newline (map (\<lambda>l. sl_speaker l @ '': '' @ sl_text l) ls)"

text \<open>\<open>packTimedTokens\<close>: the buffer of 48 bytes keeps 47 characters of the numbers.\<close>

definition pack_token :: "('d \<Rightarrow> string) \<Rightarrow> 'd timed_token \<Rightarrow> string" where
  "pack_token print3 t = take 47 (print3 (tt_start t) @ '' '' @ print3 (tt_end t) @ '' '') @
     map (\<lambda>c. if c = CHR 0x3B then CHR 0x2C else c) (tt_token t)"

definition packTimedTokens :: "('d \<Rightarrow> string) \<Rightarrow> 'd timed_token list \<Rightarrow> string" where
  "packTimedTokens print3 ts = join_with [CHR 0x3B] (map (pack_token print3) ts)"

definition emitTrackRow :: "('d \<Rightarrow> string) \<Rightarrow> string \<Rightarrow> u16 \<Rightarrow> string \<Rightarrow> 'd timed_token list \<Rightarrow> string" where
  "emitTrackRow print3 payloadTag channel name tokens =
     ''      <TRACK><CHANNEL_INDEX>'' @ dec (unat channel) @ ''</CHANNEL_INDEX>'' @
     ''<NAME>'' @ xmlEscape name @ ''</NAME>'' @
     open_tag payloadTag @ xmlEscape (packTimedTokens print3 tokens) @ close_tag payloadTag @
     ''</TRACK>'' @ newline"

definition cue_token :: "'d lipsync_cue \<Rightarrow> 'd timed_token" where
  "cue_token c = \<lparr>tt_start = lc_start c, tt_end = lc_end c, tt_token = lc_shape c\<rparr>"

definition word_token :: "'d word_timing \<Rightarrow> 'd timed_token" where
  "word_token w = \<lparr>tt_start = wt_start w, tt_end = wt_end w, tt_token = wt_word w\<rparr>"

definition build_lipsync :: "('d \<Rightarrow> string) \<Rightarrow> 'd lipsync_track list \<Rightarrow> string" where
  "build_lipsync print3 ts =
     (if ts \<noteq> [] then ''    <LIPSYNC>'' @ newline @
        concat (map (\<lambda>t. emitTrackRow print3 ''CUES'' (lt_channel t) (lt_name t) (map cue_token (lt_cues t))) ts) @
        ''    </LIPSYNC>'' @ newline else [])"

definition build_words :: "('d \<Rightarrow> string) \<Rightarrow> 'd word_track list \<Rightarrow> string" where
  "build_words print3 ts =
     (if ts \<noteq> [] then ''    <WORD_ALIGNMENT>'' @ newline @
        concat (map (\<lambda>t. emitTrackRow print3 ''WORDS'' (wd_channel t) (wd_name t) (map word_token (wd_words t))) ts) @
        ''    </WORD_ALIGNMENT>'' @ newline else [])"

definition music_field :: "string \<times> string \<Rightarrow> string" where
  "music_field f = ''      '' @ open_tag (fst f) @ xmlEscape (snd f) @ close_tag (fst f) @ newline"

definition music_fields :: "music_provenance \<Rightarrow> (string \<times> string) list" where
  "music_fields m =
     [(''PROVIDER'', mp_provider m), (''ENDPOINT'', mp_endpoint m), (''MODEL_ID'', mp_modelId m),
      (''OUTPUT_FORMAT'', mp_outputFormat m), (''SOURCE_CHANNELS'', dec_int (mp_sourceChannels m)),
      (''CHANNEL_TRANSFORM'', mp_channelTransform m), (''GENERATION_MODE'', mp_generationMode m),
      (''MUSIC_PROMPT'', mp_prompt m), (''SOURCE_DIALOG_DURATION_MS'', dec_int (mp_sourceDialogDurationMs m)),
      (''DURATION_EXTENSION_MS'', dec_int (mp_durationExtensionMs m)), (''MUSIC_LENGTH_MS'', dec_int (mp_musicLengthMs m)),
      (''FORCE_INSTRUMENTAL'', if mp_forceInstrumental m then ''true'' else ''false''),
      (''REQUEST_JSON'', mp_requestJson m), (''RESPONSE_METADATA_JSON'', mp_responseMetadataJson m),
      (''COMPOSITION_PLAN_JSON'', mp_compositionPlanJson m), (''SONG_METADATA_JSON'', mp_songMetadataJson m),
      (''SONG_ID'', mp_songId m), (''REQUEST_ID'', mp_requestId m), (''GENERATED_AT'', mp_generatedAt m),
      (''MUSIC_GENERATION_ID'', mp_musicGenerationId m), (''SOURCE_DIALOG_GENERATION_ID'', mp_sourceDialogGenerationId m),
      (''SOURCE_DIALOG_CACHE_KEY'', mp_sourceDialogCacheKey m),
      (''SOURCE_SCRIPT_UPDATED_AT'', dec_int (mp_sourceScriptUpdatedAt m)), (''PCM_SHA256'', mp_pcmSha256 m)]"

definition build_music :: "music_provenance option \<Rightarrow> string" where
  "build_music mo = (case mo of
     None \<Rightarrow> []
   | Some m \<Rightarrow> if music_empty m then [] else
       ''    <MUSIC_PROVENANCE>'' @ newline @ concat (map music_field (music_fields m)) @
       ''    </MUSIC_PROVENANCE>'' @ newline)"

definition build_header :: "'d wav_provenance \<Rightarrow> string" where
  "build_header p =
     ''<?xml version='' @ [CHR 0x22] @ ''1.0'' @ [CHR 0x22] @ '' encoding='' @ [CHR 0x22] @ ''UTF-8'' @ [CHR 0x22] @ ''?>'' @ newline @
     ''<BWFXML>'' @ newline @ ''  <IXML_VERSION>2.0</IXML_VERSION>'' @ newline @
     ''  <PROJECT>creature-server</PROJECT>'' @ newline @
     (if wp_title p \<noteq> [] then ''  <SCENE>'' @ xmlEscape (wp_title p) @ ''</SCENE>'' @ newline else []) @
     (if take_name p \<noteq> [] then ''  <TAKE>'' @ xmlEscape (take_name p) @ ''</TAKE>'' @ newline else []) @
     (case circled p of None \<Rightarrow> [] | Some b \<Rightarrow> ''  <CIRCLED>'' @ (if b then ''TRUE'' else ''FALSE'') @ ''</CIRCLED>'' @ newline) @
     (if fileUid p \<noteq> [] then ''  <FILE_UID>'' @ xmlEscape (fileUid p) @ ''</FILE_UID>'' @ newline else []) @
     ''  <SPEED><FILE_SAMPLE_RATE>48000</FILE_SAMPLE_RATE><AUDIO_BIT_DEPTH>16</AUDIO_BIT_DEPTH></SPEED>'' @ newline @
     ''  <NOTE>'' @ xmlEscape (''Dialog render'' @ (if wp_title p \<noteq> [] then '': '' @ wp_title p else [])) @ ''</NOTE>'' @ newline"

definition build_user :: "'d wav_provenance \<Rightarrow> string" where
  "build_user p = ''  <USER>'' @ newline @
     ''    <SOURCE_SCRIPT_ID>'' @ xmlEscape (sourceScriptId p) @ ''</SOURCE_SCRIPT_ID>'' @ newline @
     ''    <TITLE>'' @ xmlEscape (wp_title p) @ ''</TITLE>'' @ newline @
     ''    <GENERATION_IDS>'' @ xmlEscape (joinGenerationIds (generationIds p)) @ ''</GENERATION_IDS>'' @ newline @
     ''    <DIALOG_SCRIPT>'' @ xmlEscape (script_blob (wp_script p)) @ ''</DIALOG_SCRIPT>'' @ newline"

definition buildIxml :: "('d \<Rightarrow> string) \<Rightarrow> 'd wav_provenance \<Rightarrow> nat \<Rightarrow> string" where
  "buildIxml print3 p totalChannels =
     build_header p @ build_track_list totalChannels (wp_tracks p) @ build_user p @ build_music (wp_music p) @
     build_lipsync print3 (wp_lipsync p) @ build_words print3 (wordAlignment p) @
     ''  </USER>'' @ newline @ ''</BWFXML>'' @ newline"

definition le32_bytes :: "u32 \<Rightarrow> u8 list" where
  "le32_bytes v = [ucast v, ucast (drop_bit 8 v), ucast (drop_bit 16 v), ucast (drop_bit 24 v)]"

definition bytes_of :: "string \<Rightarrow> u8 list" where "bytes_of s = map of_char s"

definition makeIxmlChunk :: "string \<Rightarrow> u8 list" where
  "makeIxmlChunk doc =
     (let payloadSize = of_nat (length doc) :: u32
      in bytes_of ''iXML'' @ le32_bytes payloadSize @ bytes_of doc @ (if payloadSize mod 2 = 1 then [0] else []))"

section \<open>Reading\<close>

function xmlUnescape :: "string \<Rightarrow> string" where
  "xmlUnescape [] = []"
| "xmlUnescape (c # cs) =
     (if take 5 (c # cs) = ''&amp;'' then CHR 0x26 # xmlUnescape (drop 4 cs)
      else if take 4 (c # cs) = ''&lt;'' then CHR 0x3C # xmlUnescape (drop 3 cs)
      else if take 4 (c # cs) = ''&gt;'' then CHR 0x3E # xmlUnescape (drop 3 cs)
      else if take 6 (c # cs) = ''&quot;'' then CHR 0x22 # xmlUnescape (drop 5 cs)
      else if take 6 (c # cs) = ''&apos;'' then CHR 0x27 # xmlUnescape (drop 5 cs)
      else c # xmlUnescape cs)"
  by pat_completeness auto
termination by (relation "measure length") auto

text \<open>\<open>find\<close>: what precedes the first occurrence of the pattern, and what follows it.\<close>

fun find_sub :: "string \<Rightarrow> string \<Rightarrow> (string \<times> string) option" where
  "find_sub pat [] = (if pat = [] then Some ([], []) else None)"
| "find_sub pat (c # cs) =
     (if take (length pat) (c # cs) = pat then Some ([], drop (length pat) (c # cs))
      else map_option (\<lambda>(b, r). (c # b, r)) (find_sub pat cs))"

text \<open>\<open>firstElement\<close>: the content of the first element and the document after it.\<close>

definition firstElement :: "string \<Rightarrow> string \<Rightarrow> (string \<times> string) option" where
  "firstElement doc tag = (case find_sub (open_tag tag) doc of
     None \<Rightarrow> None
   | Some (_, r) \<Rightarrow> find_sub (close_tag tag) r)"

definition extractField :: "string \<Rightarrow> string \<Rightarrow> string option" where
  "extractField doc tag = map_option (\<lambda>e. xmlUnescape (fst e)) (firstElement doc tag)"

definition sectionOf :: "string \<Rightarrow> string \<Rightarrow> string option" where
  "sectionOf doc tag = map_option fst (firstElement doc tag)"

definition value_or_empty :: "string option \<Rightarrow> string" where
  "value_or_empty x = (case x of None \<Rightarrow> [] | Some s \<Rightarrow> s)"

text \<open>\<open>strtoul\<close> and \<open>strtoll\<close> in base ten, with their clamping at the ends of the range.\<close>

definition isspace :: "char \<Rightarrow> bool" where
  "isspace c \<longleftrightarrow> (of_char c :: nat) = 32 \<or> 9 \<le> (of_char c :: nat) \<and> (of_char c :: nat) \<le> 13"

definition isdigit :: "char \<Rightarrow> bool" where
  "isdigit c \<longleftrightarrow> 48 \<le> (of_char c :: nat) \<and> (of_char c :: nat) \<le> 57"

definition decimal_value :: "string \<Rightarrow> nat" where
  "decimal_value s = foldl (\<lambda>n c. 10 * n + (of_char c - 48)) 0 s"

definition signed_digits :: "string \<Rightarrow> bool \<times> nat" where
  "signed_digits s = (case dropWhile isspace s of
     [] \<Rightarrow> (False, 0)
   | c # cs \<Rightarrow>
       if c = CHR 0x2D then (True, decimal_value (takeWhile isdigit cs))
       else if c = CHR 0x2B then (False, decimal_value (takeWhile isdigit cs))
       else (False, decimal_value (takeWhile isdigit (c # cs))))"

definition strtoul :: "string \<Rightarrow> u64" where
  "strtoul s = (case signed_digits s of (neg, n) \<Rightarrow>
     if 2 ^ 64 \<le> n then - 1 else if neg then - of_nat n else of_nat n)"

definition strtoll :: "string \<Rightarrow> int" where
  "strtoll s = (case signed_digits s of (neg, n) \<Rightarrow>
     if neg then max (- (2 ^ 63)) (- int n) else min (2 ^ 63 - 1) (int n))"

definition parseChannel :: "string option \<Rightarrow> u16" where
  "parseChannel s = (case s of None \<Rightarrow> 0 | Some x \<Rightarrow> ucast (strtoul x))"

text \<open>\<open>static_cast<int>\<close> of a long.\<close>

definition narrow_int :: "int \<Rightarrow> int" where
  "narrow_int i = sint (of_int i :: 32 word)"

text \<open>The two loops over the \<open>TRACK\<close> rows of a section.\<close>

lemma find_sub_shorter: "find_sub pat s = Some (b, r) \<Longrightarrow> length b + length pat + length r = length s"
proof (induction s arbitrary: b r)
  case Nil
  then show ?case by (auto split: if_splits)
next
  case (Cons c cs)
  show ?case
  proof (cases "take (length pat) (c # cs) = pat")
    case True
    then have "length pat \<le> length (c # cs)" by (metis length_take min.cobounded1)
    then show ?thesis using True Cons.prems by auto
  next
    case False
    then show ?thesis using Cons by auto
  qed
qed

lemma firstElement_shorter: "firstElement s tag = Some (b, r) \<Longrightarrow> length r < length s"
  by (auto simp: firstElement_def open_tag_def split: option.splits dest!: find_sub_shorter)

function track_rows :: "string \<Rightarrow> string list" where
  "track_rows s = (case firstElement s ''TRACK'' of None \<Rightarrow> [] | Some (content, r) \<Rightarrow> content # track_rows r)"
  by pat_completeness auto
termination by (relation "measure length") (auto dest: firstElement_shorter)

declare track_rows.simps [simp del]

definition parse_rows :: "(u16 \<Rightarrow> string \<Rightarrow> 'a) \<Rightarrow> string list \<Rightarrow> 'a list" where
  "parse_rows mk rows = List.map_filter (\<lambda>row. map_option
     (\<lambda>ch. mk (parseChannel (Some ch)) row) (extractField row ''CHANNEL_INDEX'')) rows"

definition parseIxmlTrackList :: "string \<Rightarrow> track_info list" where
  "parseIxmlTrackList doc = (case sectionOf doc ''TRACK_LIST'' of
     None \<Rightarrow> []
   | Some sec \<Rightarrow> parse_rows (\<lambda>ch row. \<lparr>ti_channel = ch, ti_name = value_or_empty (extractField row ''NAME'')\<rparr>) (track_rows sec))"

text \<open>
  \<open>parseTimedTokens\<close>: \<open>rest\<close> is the text from the entry on, which is what \<open>strtod\<close> sees; an entry
  without its two spaces is skipped.
\<close>

definition parse_entry :: "(string \<Rightarrow> 'd) \<Rightarrow> string \<Rightarrow> string \<Rightarrow> 'd timed_token option" where
  "parse_entry strtod entry rest = (case find_sub '' '' entry of
     None \<Rightarrow> None
   | Some (first, after1) \<Rightarrow> (case find_sub '' '' after1 of
        None \<Rightarrow> None
      | Some (_, after2) \<Rightarrow> Some \<lparr>tt_start = strtod rest, tt_end = strtod (drop (length first + 1) rest), tt_token = after2\<rparr>))"

function parseTimedTokens :: "(string \<Rightarrow> 'd) \<Rightarrow> string \<Rightarrow> 'd timed_token list" where
  "parseTimedTokens strtod packed =
     (if packed = [] then []
      else (case find_sub [CHR 0x3B] packed of
          None \<Rightarrow> (case parse_entry strtod packed packed of None \<Rightarrow> [] | Some t \<Rightarrow> [t])
        | Some (entry, r) \<Rightarrow> (case parse_entry strtod entry packed of None \<Rightarrow> [] | Some t \<Rightarrow> [t]) @ parseTimedTokens strtod r))"
  by pat_completeness auto
termination by (relation "measure (\<lambda>(_, s). length s)") (auto dest!: find_sub_shorter)

declare parseTimedTokens.simps [simp del]

record 'd timed_track =
  tk_channel :: u16
  tk_name :: string
  tk_tokens :: "'d timed_token list"

definition parseTimedTrackSection :: "(string \<Rightarrow> 'd) \<Rightarrow> string \<Rightarrow> string \<Rightarrow> string \<Rightarrow> 'd timed_track list" where
  "parseTimedTrackSection strtod doc sectionTag payloadTag = (case sectionOf doc sectionTag of
     None \<Rightarrow> []
   | Some sec \<Rightarrow> parse_rows (\<lambda>ch row. \<lparr>tk_channel = ch, tk_name = value_or_empty (extractField row ''NAME''),
        tk_tokens = (case extractField row payloadTag of None \<Rightarrow> [] | Some s \<Rightarrow> parseTimedTokens strtod s)\<rparr>) (track_rows sec))"

definition token_cue :: "'d timed_token \<Rightarrow> 'd lipsync_cue" where
  "token_cue t = \<lparr>lc_start = tt_start t, lc_end = tt_end t, lc_shape = tt_token t\<rparr>"

definition token_word :: "'d timed_token \<Rightarrow> 'd word_timing" where
  "token_word t = \<lparr>wt_word = tt_token t, wt_start = tt_start t, wt_end = tt_end t\<rparr>"

definition parseIxmlLipsync :: "(string \<Rightarrow> 'd) \<Rightarrow> string \<Rightarrow> 'd lipsync_track list" where
  "parseIxmlLipsync strtod doc = map (\<lambda>t. \<lparr>lt_channel = tk_channel t, lt_name = tk_name t, lt_cues = map token_cue (tk_tokens t)\<rparr>)
     (parseTimedTrackSection strtod doc ''LIPSYNC'' ''CUES'')"

definition parseIxmlWordAlignment :: "(string \<Rightarrow> 'd) \<Rightarrow> string \<Rightarrow> 'd word_track list" where
  "parseIxmlWordAlignment strtod doc = map (\<lambda>t. \<lparr>wd_channel = tk_channel t, wd_name = tk_name t, wd_words = map token_word (tk_tokens t)\<rparr>)
     (parseTimedTrackSection strtod doc ''WORD_ALIGNMENT'' ''WORDS'')"

text \<open>The dialog script: one turn per non-empty line, split at the first colon and space.\<close>

definition parse_turn :: "string \<Rightarrow> script_line" where
  "parse_turn line = (case find_sub '': '' line of
     None \<Rightarrow> \<lparr>sl_speaker = [], sl_text = line\<rparr>
   | Some (speaker, rest) \<Rightarrow> \<lparr>sl_speaker = speaker, sl_text = rest\<rparr>)"

function parseDialogScriptTurns :: "string \<Rightarrow> script_line list" where
  "parseDialogScriptTurns s =
     (if s = [] then []
      else (case find_sub newline s of
          None \<Rightarrow> [parse_turn s]
        | Some (line, r) \<Rightarrow> (if line = [] then [] else [parse_turn line]) @ parseDialogScriptTurns r))"
  by pat_completeness auto
termination by (relation "measure length") (auto simp: newline_def dest!: find_sub_shorter)

declare parseDialogScriptTurns.simps [simp del]

function split_ids :: "string \<Rightarrow> string list" where
  "split_ids s = (case find_sub '','' s of None \<Rightarrow> [s] | Some (x, r) \<Rightarrow> x # split_ids r)"
  by pat_completeness auto
termination by (relation "measure length") (auto dest!: find_sub_shorter)

declare split_ids.simps [simp del]

definition parse_generation_ids :: "string option \<Rightarrow> string list" where
  "parse_generation_ids ids = (case ids of None \<Rightarrow> [] | Some s \<Rightarrow> if s = [] then [] else split_ids s)"

definition parse_music :: "string \<Rightarrow> music_provenance option" where
  "parse_music doc =
     (let text = (\<lambda>tag. value_or_empty (extractField doc tag));
          num = (\<lambda>tag. case extractField doc tag of None \<Rightarrow> 0 | Some s \<Rightarrow> strtoll s)
      in if find_sub ''<MUSIC_PROVENANCE>'' doc = None then None
         else Some \<lparr>mp_provider = text ''PROVIDER'', mp_endpoint = text ''ENDPOINT'', mp_modelId = text ''MODEL_ID'',
           mp_outputFormat = text ''OUTPUT_FORMAT'', mp_sourceChannels = narrow_int (num ''SOURCE_CHANNELS''),
           mp_channelTransform = text ''CHANNEL_TRANSFORM'', mp_generationMode = text ''GENERATION_MODE'',
           mp_prompt = text ''MUSIC_PROMPT'', mp_sourceDialogDurationMs = num ''SOURCE_DIALOG_DURATION_MS'',
           mp_durationExtensionMs = num ''DURATION_EXTENSION_MS'', mp_musicLengthMs = num ''MUSIC_LENGTH_MS'',
           mp_forceInstrumental = (text ''FORCE_INSTRUMENTAL'' = ''true''), mp_requestJson = text ''REQUEST_JSON'',
           mp_responseMetadataJson = text ''RESPONSE_METADATA_JSON'', mp_compositionPlanJson = text ''COMPOSITION_PLAN_JSON'',
           mp_songMetadataJson = text ''SONG_METADATA_JSON'', mp_songId = text ''SONG_ID'', mp_requestId = text ''REQUEST_ID'',
           mp_generatedAt = text ''GENERATED_AT'', mp_musicGenerationId = text ''MUSIC_GENERATION_ID'',
           mp_sourceDialogGenerationId = text ''SOURCE_DIALOG_GENERATION_ID'',
           mp_sourceDialogCacheKey = text ''SOURCE_DIALOG_CACHE_KEY'',
           mp_sourceScriptUpdatedAt = num ''SOURCE_SCRIPT_UPDATED_AT'', mp_pcmSha256 = text ''PCM_SHA256''\<rparr>)"

definition parseIxmlProvenance :: "(string \<Rightarrow> 'd) \<Rightarrow> string \<Rightarrow> 'd wav_provenance" where
  "parseIxmlProvenance strtod doc =
     \<lparr>fileUid = value_or_empty (extractField doc ''FILE_UID''), take_name = value_or_empty (extractField doc ''TAKE''),
      circled = map_option (\<lambda>s. s = ''TRUE'') (extractField doc ''CIRCLED''),
      sourceScriptId = value_or_empty (extractField doc ''SOURCE_SCRIPT_ID''),
      wp_title = value_or_empty (extractField doc ''TITLE''),
      generationIds = parse_generation_ids (extractField doc ''GENERATION_IDS''),
      wp_tracks = parseIxmlTrackList doc,
      wp_script = (case extractField doc ''DIALOG_SCRIPT'' of None \<Rightarrow> [] | Some s \<Rightarrow> parseDialogScriptTurns s),
      wp_lipsync = parseIxmlLipsync strtod doc, wordAlignment = parseIxmlWordAlignment strtod doc,
      wp_music = parse_music doc\<rparr>"

end
