(* ===== verification/Wav_File.thy ===== *)
theory Wav_File
  imports Ixml Rtcp
begin

unbundle bit_operations_syntax

text \<open>
  The WAV files of recordings: the writers of src/src/server/voice/PcmWavWriter.cpp, the readers of
  WavFileReader.cpp and \<open>readIxmlChunk\<close> of IxmlReader.cpp. The file system is a map from paths to
  bytes; creating and writing a file are operations of the argument \<open>disk\<close>, which may fail. An open
  input stream is its bytes, its position and whether it is still good.
\<close>

section \<open>Files and streams\<close>

type_synonym files = "string \<Rightarrow> u8 list option"

text \<open>\<open>ofstream\<close>: opening empties the file; closing tells whether all writes arrived.\<close>

record disk =
  create_file :: "files \<Rightarrow> string \<Rightarrow> files option"
  write_file :: "files \<Rightarrow> string \<Rightarrow> u8 list \<Rightarrow> files \<times> bool"

record ifs =
  if_bytes :: "u8 list"
  if_pos :: nat
  if_good :: bool

definition open_stream :: "u8 list \<Rightarrow> ifs" where
  "open_stream bs = \<lparr>if_bytes = bs, if_pos = 0, if_good = True\<rparr>"

text \<open>\<open>read\<close>: a short read takes what is there and the stream is no longer good.\<close>

definition stream_read :: "nat \<Rightarrow> ifs \<Rightarrow> u8 list \<times> ifs" where
  "stream_read n s =
     (if \<not> if_good s then ([], s)
      else (let got = take n (drop (if_pos s) (if_bytes s))
            in (got, s\<lparr>if_pos := if_pos s + length got, if_good := length got = n\<rparr>)))"

definition seek_cur :: "int \<Rightarrow> ifs \<Rightarrow> ifs" where
  "seek_cur off s =
     (if \<not> if_good s then s
      else if int (if_pos s) + off < 0 then s\<lparr>if_good := False\<rparr>
      else s\<lparr>if_pos := nat (int (if_pos s) + off)\<rparr>)"

definition seek_by :: "nat \<Rightarrow> ifs \<Rightarrow> ifs" where
  "seek_by n s = (if \<not> if_good s then s else s\<lparr>if_pos := if_pos s + n\<rparr>)"

definition seek_beg :: "nat \<Rightarrow> ifs \<Rightarrow> ifs" where
  "seek_beg p s = (if \<not> if_good s then s else s\<lparr>if_pos := p\<rparr>)"

definition le16_bytes :: "u16 \<Rightarrow> u8 list" where
  "le16_bytes v = [ucast v, ucast (drop_bit 8 v)]"

fun le_word :: "u8 list \<Rightarrow> 'a::len word" where
  "le_word [] = 0"
| "le_word (b # bs) = ucast b OR push_bit 8 (le_word bs)"

text \<open>Reading into a variable: the bytes that do not arrive keep their old value.\<close>

definition read_u16 :: "u16 \<Rightarrow> ifs \<Rightarrow> u16 \<times> ifs" where
  "read_u16 v s = (case stream_read 2 s of (got, s') \<Rightarrow> (le_word (got @ drop (length got) (le16_bytes v)), s'))"

definition read_u32 :: "u32 \<Rightarrow> ifs \<Rightarrow> u32 \<times> ifs" where
  "read_u32 v s = (case stream_read 4 s of (got, s') \<Rightarrow> (le_word (got @ drop (length got) (le32_bytes v)), s'))"

text \<open>The head of a chunk, where it can be read.\<close>

definition chunk_header :: "ifs \<Rightarrow> (u8 list \<times> u32 \<times> ifs) option" where
  "chunk_header s = (case stream_read 4 s of (tag, s1) \<Rightarrow> (case read_u32 0 s1 of (sz, s2) \<Rightarrow>
     if if_good s2 then Some (tag, sz, s2) else None))"

lemma stream_read_frame [simp]: "if_bytes (snd (stream_read n s)) = if_bytes s"
  by (simp add: stream_read_def Let_def)

lemma stream_read_pos: "if_pos s \<le> if_pos (snd (stream_read n s))"
  by (simp add: stream_read_def Let_def)

lemma stream_read_good:
  "if_good (snd (stream_read n s)) \<longleftrightarrow> if_good s \<and> length (fst (stream_read n s)) = n"
  by (auto simp: stream_read_def Let_def)

lemma stream_read_advance: "if_good (snd (stream_read n s)) \<Longrightarrow> if_pos (snd (stream_read n s)) = if_pos s + n"
  by (auto simp: stream_read_def Let_def split: if_splits)

lemma stream_read_within:
  "if_good (snd (stream_read n s)) \<Longrightarrow> n = 0 \<or> if_pos (snd (stream_read n s)) \<le> length (if_bytes s)"
  by (auto simp: stream_read_def Let_def split: if_splits)

lemma read_u16_stream: "snd (read_u16 v s) = snd (stream_read 2 s)"
  by (simp add: read_u16_def case_prod_unfold)

lemma read_u32_stream: "snd (read_u32 v s) = snd (stream_read 4 s)"
  by (simp add: read_u32_def case_prod_unfold)

lemma chunk_header_Some:
  assumes "chunk_header s = Some (tag, sz, s')"
  shows "if_bytes s' = if_bytes s" "if_pos s' = if_pos s + 8" "if_pos s' \<le> length (if_bytes s)" "if_good s" "if_good s'"
proof -
  let ?s1 = "snd (stream_read 4 s)"
  have s': "s' = snd (stream_read 4 ?s1)" "if_good s'"
    using assms by (auto simp: chunk_header_def case_prod_unfold read_u32_stream split: if_splits)
  then have g1: "if_good ?s1" by (metis stream_read_good)
  then show "if_good s" by (metis stream_read_good)
  show "if_bytes s' = if_bytes s" "if_good s'" using s' by simp_all
  show "if_pos s' = if_pos s + 8"
    using stream_read_advance [OF g1] stream_read_advance [of 4 ?s1] s' by simp
  show "if_pos s' \<le> length (if_bytes s)" using stream_read_within [of 4 ?s1] s' by simp
qed


section \<open>Reading a header\<close>

record wav_info =
  audioFormat :: u16
  numChannels :: u16
  sampleRate :: u32
  bitsPerSample :: u16
  dataOffset :: nat
  dataBytes :: nat

text \<open>The six fields of the format chunk: byte rate and block sz are read and dropped.\<close>

definition read_fmt :: "u16 \<times> u32 \<times> u16 \<Rightarrow> ifs \<Rightarrow> (u16 \<times> u16 \<times> u32 \<times> u16) \<times> ifs" where
  "read_fmt old s =
     (let (fmt, s1) = read_u16 0 s; (channels, s2) = read_u16 (fst old) s1; (rate, s3) = read_u32 (fst (snd old)) s2;
          (byteRate, s4) = read_u32 0 s3; (blockAlign, s5) = read_u16 0 s4; (bits, s6) = read_u16 (snd (snd old)) s5
      in ((fmt, channels, rate, bits), s6))"

definition forward :: "ifs \<Rightarrow> ifs \<Rightarrow> bool" where
  "forward s s' \<longleftrightarrow> if_bytes s' = if_bytes s \<and> if_pos s \<le> if_pos s'"

lemma forward_refl: "forward s s"
  by (simp add: forward_def)

lemma forward_read: "forward s t \<Longrightarrow> forward s (snd (stream_read n t))"
  using stream_read_pos [of t n] by (simp add: forward_def)

lemma forward_u16: "forward s t \<Longrightarrow> forward s (snd (read_u16 v t))"
  unfolding read_u16_stream by (rule forward_read)

lemma forward_u32: "forward s t \<Longrightarrow> forward s (snd (read_u32 v t))"
  unfolding read_u32_stream by (rule forward_read)

lemma forward_seek: "forward s t \<Longrightarrow> forward s (seek_by n t)"
  by (simp add: forward_def seek_by_def)

lemma forward_fmt: "forward s t \<Longrightarrow> forward s (snd (read_fmt old t))"
  unfolding read_fmt_def Let_def case_prod_unfold snd_conv by (intro forward_u16 forward_u32)

lemmas forward_intros = forward_refl forward_fmt forward_seek

definition padding :: "u32 \<Rightarrow> nat" where
  "padding sz = (if sz mod 2 = 1 then 1 else 0)"

definition wav_error :: "error_code \<Rightarrow> string \<Rightarrow> 'a result" where
  "wav_error c msg = Inl (ServerError c msg)"

definition after_fmt :: "u32 \<Rightarrow> ifs \<Rightarrow> ifs" where
  "after_fmt sz s = seek_by (padding sz) (if 16 < unat sz then seek_by (unat sz - 16) s else s)"

definition skip_chunk :: "u32 \<Rightarrow> ifs \<Rightarrow> ifs" where
  "skip_chunk sz s = seek_by (unat sz + padding sz) s"

lemma forward_skip: "forward s t \<Longrightarrow> forward s (skip_chunk sz t)"
  unfolding skip_chunk_def by (rule forward_seek)

lemma forward_after_fmt: "forward s t \<Longrightarrow> forward s (after_fmt sz t)"
  unfolding after_fmt_def by (auto intro: forward_seek)

lemma forward_fmt_eq: "(x, u) = read_fmt old t \<Longrightarrow> forward t u"
  using forward_fmt [OF forward_refl, of t old] by (metis snd_conv)

lemma chunk_forward:
  "chunk_header s = Some (tag, sz, s1) \<Longrightarrow> forward s1 s2 \<Longrightarrow>
   Suc (length (if_bytes s2)) - if_pos s2 < Suc (length (if_bytes s)) - if_pos s"
  using chunk_header_Some [of s tag sz s1] by (auto simp: forward_def)

text \<open>The loop of \<open>readWavInfo\<close> until the data chunk is found, with what it has seen.\<close>

function info_loop :: "string \<Rightarrow> ifs \<Rightarrow> wav_info \<Rightarrow> bool \<Rightarrow> (wav_info \<times> bool \<times> bool) result" where
  "info_loop path s info sawFmt = (case chunk_header s of
     None \<Rightarrow> Inr (info, sawFmt, False)
   | Some (tag, sz, s1) \<Rightarrow>
       if tag = bytes_of ''fmt '' then
         (if unat sz < 16 then
            wav_error InvalidData (''WAV fmt chunk too small ('' @ dec (unat sz) @ '') in '' @ path)
          else (case read_fmt (0, 0, 0) s1 of ((fmt, channels, rate, bits), s2) \<Rightarrow>
            if \<not> if_good s2 then wav_error InvalidData (''WAV fmt chunk truncated in '' @ path)
            else info_loop path (after_fmt sz s2)
              (info\<lparr>audioFormat := fmt, numChannels := channels, sampleRate := rate, bitsPerSample := bits\<rparr>) True))
       else if tag = bytes_of ''data'' then
         Inr (info\<lparr>dataOffset := if_pos s1, dataBytes := unat sz\<rparr>, sawFmt, True)
       else info_loop path (skip_chunk sz s1) info sawFmt)"
  by pat_completeness auto


termination
proof (relation "measure (\<lambda>(_, s, _). Suc (length (if_bytes s)) - if_pos s)", goal_cases)
  case 2
  then show ?case
    by clarsimp (metis chunk_forward forward_after_fmt forward_fmt_eq)
next
  case 3
  then show ?case by clarsimp (metis chunk_forward forward_skip forward_refl)
qed simp

declare info_loop.simps [simp del]


text \<open>The first twelve bytes: two tags with a size between them.\<close>

definition riff_start :: "u8 list \<Rightarrow> u8 list \<times> u8 list \<times> ifs" where
  "riff_start bs =
     (let (riff, s1) = stream_read 4 (open_stream bs); (riffSize, s2) = read_u32 0 s1; (wave, s3) = stream_read 4 s2
      in (riff, wave, s3))"

definition readWavInfo :: "files \<Rightarrow> string \<Rightarrow> wav_info result" where
  "readWavInfo fs path = (case fs path of
     None \<Rightarrow> wav_error InvalidData (''Cannot open WAV file: '' @ path)
   | Some bs \<Rightarrow>
       (case riff_start bs of (riff, wave, s3) \<Rightarrow>
        if \<not> if_good s3 then wav_error InvalidData (''WAV header truncated: '' @ path)
           else if riff \<noteq> bytes_of ''RIFF'' \<or> wave \<noteq> bytes_of ''WAVE'' then
             wav_error InvalidData (''Not a RIFF/WAVE file: '' @ path)
           else (case info_loop path s3 \<lparr>audioFormat = 0, numChannels = 0, sampleRate = 0, bitsPerSample = 0,
                                        dataOffset = 0, dataBytes = 0\<rparr> False of
               Inl e \<Rightarrow> Inl e
             | Inr (info, sawFmt, sawData) \<Rightarrow>
                 if \<not> sawFmt then wav_error InvalidData (''WAV missing fmt chunk: '' @ path)
                 else if \<not> sawData then wav_error InvalidData (''WAV missing data chunk: '' @ path)
                 else if audioFormat info \<noteq> 1 then
                   wav_error InvalidData (''WAV is not PCM (audioFormat='' @ dec (unat (audioFormat info)) @ '') in '' @ path)
                 else Inr info)))"

definition readWavChannelCount :: "files \<Rightarrow> string \<Rightarrow> nat result" where
  "readWavChannelCount fs path = (case readWavInfo fs path of Inl e \<Rightarrow> Inl e | Inr info \<Rightarrow> Inr (unat (numChannels info)))"

text \<open>
  The loop of \<open>readIxmlChunk\<close>. A chunk that claims more than the file holds ends the search, one that
  claims more than a mebibyte of text is refused.
\<close>

definition kMaxIxmlPayloadBytes :: nat where
  "kMaxIxmlPayloadBytes = 1024 * 1024"

definition string_of :: "u8 list \<Rightarrow> string" where
  "string_of bs = map (\<lambda>b. char_of (unat b)) bs"

function ixml_loop :: "ifs \<Rightarrow> string option" where
  "ixml_loop s = (case chunk_header s of
     None \<Rightarrow> None
   | Some (tag, sz, s1) \<Rightarrow>
       if length (if_bytes s) < if_pos s1 \<or> length (if_bytes s) - if_pos s1 < unat sz + padding sz then None
       else if tag = bytes_of ''iXML'' then
         (if kMaxIxmlPayloadBytes < unat sz then None
          else (case stream_read (unat sz) s1 of (payload, s2) \<Rightarrow>
            if length payload \<noteq> unat sz then None else Some (string_of payload)))
       else ixml_loop (skip_chunk sz s1))"
  by pat_completeness auto

termination
  by (relation "measure (\<lambda>s. Suc (length (if_bytes s)) - if_pos s)")
    (simp, clarsimp, metis chunk_forward forward_skip forward_refl)

declare ixml_loop.simps [simp del]

definition readIxmlChunk :: "files \<Rightarrow> string \<Rightarrow> string option" where
  "readIxmlChunk fs path = (case fs path of
     None \<Rightarrow> None
   | Some bs \<Rightarrow>
       (case riff_start bs of (riff, wave, s3) \<Rightarrow>
        if \<not> if_good s3 \<or> riff \<noteq> bytes_of ''RIFF'' \<or> wave \<noteq> bytes_of ''WAVE'' then None else ixml_loop s3))"

section \<open>Writing\<close>

text \<open>The 44 bytes before the samples, the same in every writer.\<close>

definition wav_header :: "u32 \<Rightarrow> u16 \<Rightarrow> u32 \<Rightarrow> u32 \<Rightarrow> u16 \<Rightarrow> u16 \<Rightarrow> u32 \<Rightarrow> u8 list" where
  "wav_header riffSize channels rate byteRate blockAlign bits dataSize =
     bytes_of ''RIFF'' @ le32_bytes riffSize @ bytes_of ''WAVE'' @ bytes_of ''fmt '' @ le32_bytes 16 @ le16_bytes 1 @
     le16_bytes channels @ le32_bytes rate @ le32_bytes byteRate @ le16_bytes blockAlign @ le16_bytes bits @
     bytes_of ''data'' @ le32_bytes dataSize"

text \<open>
  \<open>writePcmToMultichannelWav\<close>: the samples of the one channel, silence on the others. It does not
  ask whether the writes arrived.
\<close>

definition mono_sample :: "u8 list \<Rightarrow> nat \<Rightarrow> u8 list" where
  "mono_sample pcm i = take 2 (drop (2 * i) pcm)"

definition multichannel_data :: "nat \<Rightarrow> u16 \<Rightarrow> u8 list \<Rightarrow> u8 list" where
  "multichannel_data n target pcm =
     concat (map (\<lambda>i. concat (map (\<lambda>ch. if ch = unat target then mono_sample pcm i else le16_bytes 0) [0..<n]))
       [0..<length pcm div 2])"

definition writePcmToMultichannelWav ::
    "disk \<Rightarrow> files \<Rightarrow> u8 list \<Rightarrow> string \<Rightarrow> u16 \<Rightarrow> u32 \<Rightarrow> files \<times> nat result" where
  "writePcmToMultichannelWav d fs pcm path audioChannel rate =
     (let dataSize = length pcm div 2 * RTP_STREAMING_CHANNELS * 2
      in case create_file d fs path of
           None \<Rightarrow> (fs, wav_error InternalError (''Cannot create WAV file: '' @ path))
         | Some fs' \<Rightarrow>
             (fst (write_file d fs' path
                (wav_header (of_nat (36 + dataSize)) (of_nat RTP_STREAMING_CHANNELS) rate
                   (rate * of_nat RTP_STREAMING_CHANNELS * 2) (of_nat RTP_STREAMING_CHANNELS * 2) 16 (of_nat dataSize) @
                 multichannel_data RTP_STREAMING_CHANNELS (audioChannel - 1) pcm)),
              Inr (44 + dataSize)))"

text \<open>\<open>wrapMonoPcmAsWav\<close>, the provenance given or not.\<close>

definition provenance_chunk :: "('d \<Rightarrow> string) \<Rightarrow> nat \<Rightarrow> 'd wav_provenance \<Rightarrow> u8 list" where
  "provenance_chunk print3 n p = (if provenance_empty p then [] else makeIxmlChunk (buildIxml print3 p n))"

definition wrapMonoPcmAsWav :: "('d \<Rightarrow> string) \<Rightarrow> u8 list \<Rightarrow> u32 \<Rightarrow> 'd wav_provenance option \<Rightarrow> u8 list" where
  "wrapMonoPcmAsWav print3 pcm rate po =
     (let chunk = (case po of None \<Rightarrow> [] | Some p \<Rightarrow> provenance_chunk print3 0 p); dataLen = of_nat (length pcm) :: u32
      in wav_header (36 + dataLen + of_nat (length chunk)) 1 rate (rate * 2) 2 16 dataLen @ pcm @ chunk)"

text \<open>\<open>extractChannelToMonoWav\<close>.\<close>

definition extract_samples :: "nat \<Rightarrow> nat \<Rightarrow> u8 list \<Rightarrow> u8 list" where
  "extract_samples block offset raw = concat (map (\<lambda>f. take 2 (drop (f * block + offset) raw)) [0..<length raw div block])"

definition extractChannelToMonoWav :: "disk \<Rightarrow> files \<Rightarrow> string \<Rightarrow> string \<Rightarrow> int \<Rightarrow> files \<times> unit result" where
  "extractChannelToMonoWav d fs source out k = (case readWavInfo fs source of
     Inl e \<Rightarrow> (fs, Inl e)
   | Inr info \<Rightarrow>
       if bitsPerSample info \<noteq> 16 then
         (fs, wav_error InvalidData (''WAV '' @ source @ '' is '' @ dec (unat (bitsPerSample info)) @
            ''-bit; extractChannelToMonoWav only supports 16-bit''))
       else if k < 1 \<or> int (unat (numChannels info)) < k then
         (fs, wav_error InvalidData (''channelIndex '' @ dec_int k @ '' out of range [1, '' @
            dec (unat (numChannels info)) @ ''] for '' @ source))
       else (case fs source of
           None \<Rightarrow> (fs, wav_error InvalidData (''Cannot reopen WAV: '' @ source))
         | Some bs \<Rightarrow>
             (let blockBytes = unat (numChannels info) * 2
              in if blockBytes = 0 then (fs, wav_error InvalidData ''WAV has zero-byte sample blocks'')
                 else (case stream_read (dataBytes info) (seek_beg (dataOffset info) (open_stream bs)) of (raw, s) \<Rightarrow>
                   if length raw \<noteq> dataBytes info then
                     (fs, wav_error InvalidData (''WAV data chunk shorter than advertised in '' @ source))
                   else (case create_file d fs out of
                       None \<Rightarrow> (fs, wav_error InvalidData (''Cannot create mono WAV: '' @ out))
                     | Some fs1 \<Rightarrow>
                         (let mono = extract_samples blockBytes (nat (k - 1) * 2) raw;
                              len = of_nat (length mono) :: u32;
                              (fs2, ok) = write_file d fs1 out
                                (wav_header (36 + len) 1 (sampleRate info) (sampleRate info * 1 * 2) 2 16 len @ mono)
                          in if ok then (fs2, Inr ())
                             else (fs2, wav_error InvalidData (''Failed writing mono WAV: '' @ out))))))))"


section \<open>Stitching\<close>

record wav_data_chunk =
  wc_channels :: u16
  wc_sampleRate :: u32
  wc_bitsPerSample :: u16
  wc_dataOffset :: nat
  wc_dataSize :: nat

text \<open>
  The loop of \<open>locateWavData\<close> over all chunks. Skipping an ordinary chunk adds its padding in 32 bits.
\<close>

lemma read_fmt_pos:
  assumes "(x, u) = read_fmt old s" "if_good u"
  shows "if_pos u = if_pos s + 16"
proof -
  have step16: "if_good (snd (read_u16 v t)) \<Longrightarrow> if_pos (snd (read_u16 v t)) = if_pos t + 2 \<and> if_good t" for v t
    unfolding read_u16_stream using stream_read_advance stream_read_good by blast
  have step32: "if_good (snd (read_u32 v t)) \<Longrightarrow> if_pos (snd (read_u32 v t)) = if_pos t + 4 \<and> if_good t" for v t
    unfolding read_u32_stream using stream_read_advance stream_read_good by blast
  have "u = snd (read_fmt old s)" using assms(1) by (metis snd_conv)
  then show ?thesis
    using assms(2) unfolding read_fmt_def Let_def case_prod_unfold snd_conv
    by (auto dest!: step16 step32)
qed

definition rest_of_fmt :: "u32 \<Rightarrow> ifs \<Rightarrow> ifs" where
  "rest_of_fmt sz s = seek_cur (int (unat sz) - 16) s"

lemma forward_rest_of_fmt:
  assumes "(x, u) = read_fmt old s"
  shows "forward s (rest_of_fmt sz u)"
proof (cases "if_good u")
  case True
  then show ?thesis
    using read_fmt_pos [OF assms True] forward_fmt_eq [OF assms] by (auto simp: forward_def rest_of_fmt_def seek_cur_def le_nat_iff)
next
  case False
  then show ?thesis using forward_fmt_eq [OF assms] by (simp add: rest_of_fmt_def seek_cur_def)
qed

definition skip_padded :: "u32 \<Rightarrow> ifs \<Rightarrow> ifs" where
  "skip_padded sz s = seek_by (unat (sz + sz mod 2)) s"

lemma forward_skip_padded: "forward s t \<Longrightarrow> forward s (skip_padded sz t)"
  unfolding skip_padded_def by (rule forward_seek)

function locate_loop :: "string \<Rightarrow> ifs \<Rightarrow> wav_data_chunk \<Rightarrow> bool \<Rightarrow> (wav_data_chunk \<times> bool) result" where
  "locate_loop path s info haveFmt = (case chunk_header s of
     None \<Rightarrow> Inr (info, haveFmt)
   | Some (tag, sz, s1) \<Rightarrow>
       if tag = bytes_of ''fmt '' then
         (case read_fmt (wc_channels info, wc_sampleRate info, wc_bitsPerSample info) s1 of ((fmt, channels, rate, bits), s2) \<Rightarrow>
            if fmt \<noteq> 1 then wav_error InvalidData (''WAV part is not integer PCM: '' @ path)
            else locate_loop path (rest_of_fmt sz s2)
              (info\<lparr>wc_channels := channels, wc_sampleRate := rate, wc_bitsPerSample := bits\<rparr>) True)
       else if tag = bytes_of ''data'' then
         locate_loop path (skip_padded sz s1) (info\<lparr>wc_dataOffset := if_pos s1, wc_dataSize := unat sz\<rparr>) haveFmt
       else locate_loop path (skip_padded sz s1) info haveFmt)"
  by pat_completeness auto

termination
proof (relation "measure (\<lambda>(_, s, _). Suc (length (if_bytes s)) - if_pos s)", goal_cases)
  case 2
  then show ?case by clarsimp (metis chunk_forward forward_rest_of_fmt)
qed (simp, (clarsimp, metis chunk_forward forward_skip_padded forward_refl)+)

declare locate_loop.simps [simp del]

definition locateWavData :: "files \<Rightarrow> string \<Rightarrow> wav_data_chunk result" where
  "locateWavData fs path = (case fs path of
     None \<Rightarrow> wav_error InvalidData (''Cannot open WAV part: '' @ path)
   | Some bs \<Rightarrow>
       (case riff_start bs of (tag, wave, s3) \<Rightarrow>
        if \<not> if_good s3 \<or> tag \<noteq> bytes_of ''RIFF'' \<or> wave \<noteq> bytes_of ''WAVE'' then
             wav_error InvalidData (''Not a RIFF/WAVE file: '' @ path)
           else (case locate_loop path s3 \<lparr>wc_channels = 0, wc_sampleRate = 0, wc_bitsPerSample = 0,
                                          wc_dataOffset = 0, wc_dataSize = 0\<rparr> False of
               Inl e \<Rightarrow> Inl e
             | Inr (info, haveFmt) \<Rightarrow>
                 if \<not> haveFmt \<or> wc_dataSize info = 0 then
                   wav_error InvalidData (''WAV part has no fmt/data chunk: '' @ path)
                 else Inr info)))"

text \<open>The two passes of \<open>stitchMultichannelWavs\<close>.\<close>

record stitched_info =
  totalDurationMs :: nat
  partDurationsMs :: "nat list"

fun locate_parts :: "files \<Rightarrow> wav_data_chunk list \<Rightarrow> string list \<Rightarrow> wav_data_chunk list result" where
  "locate_parts fs chunks [] = Inr chunks"
| "locate_parts fs chunks (part # parts) = (case locateWavData fs part of
     Inl e \<Rightarrow> Inl e
   | Inr chunk \<Rightarrow>
       (let first = hd (chunks @ [chunk])
        in if wc_channels chunk \<noteq> wc_channels first \<or> wc_sampleRate chunk \<noteq> wc_sampleRate first \<or>
              wc_bitsPerSample chunk \<noteq> wc_bitsPerSample first
           then wav_error InvalidData (''WAV part format mismatch: '' @ part)
           else locate_parts fs (chunks @ [chunk]) parts))"

text \<open>One part is copied through a buffer of a mebibyte; what is missing stays as remaining.\<close>

function copy_part :: "nat \<Rightarrow> ifs \<Rightarrow> u8 list \<times> nat" where
  "copy_part remaining s =
     (if 0 < remaining \<and> if_good s then
        (case stream_read (min remaining (2 ^ 20)) s of (got, s') \<Rightarrow>
           if got = [] then ([], remaining)
           else (case copy_part (remaining - length got) s' of (others, left) \<Rightarrow> (got @ others, left)))
      else ([], remaining))"
  by pat_completeness auto
termination by (relation "measure fst") (auto simp: stream_read_def Let_def split: if_splits)

declare copy_part.simps [simp del]

fun copy_parts :: "files \<Rightarrow> nat \<Rightarrow> (string \<times> wav_data_chunk) list \<Rightarrow> u8 list \<times> nat list \<times> string option" where
  "copy_parts fs bytesPerMs [] = ([], [], None)"
| "copy_parts fs bytesPerMs ((part, chunk) # rest) =
     (let (got, remaining) = (case fs part of
            None \<Rightarrow> ([], wc_dataSize chunk)
          | Some bs \<Rightarrow> copy_part (wc_dataSize chunk) (seek_beg (wc_dataOffset chunk) (open_stream bs)))
      in if 0 < remaining then (got, [], Some part)
         else (case copy_parts fs bytesPerMs rest of (others, durations, failed) \<Rightarrow>
           (got @ others, (if bytesPerMs = 0 then 0 else wc_dataSize chunk div bytesPerMs) # durations, failed)))"

definition stitchMultichannelWavs ::
    "disk \<Rightarrow> ('d \<Rightarrow> string) \<Rightarrow> files \<Rightarrow> string list \<Rightarrow> string \<Rightarrow> 'd wav_provenance \<Rightarrow> files \<times> stitched_info result" where
  "stitchMultichannelWavs d print3 fs parts out p =
     (if parts = [] then (fs, wav_error InvalidData ''No WAV parts to stitch'')
      else (case locate_parts fs [] parts of
          Inl e \<Rightarrow> (fs, Inl e)
        | Inr chunks \<Rightarrow>
            (let format = hd chunks; totalDataSize = sum_list (map wc_dataSize chunks);
                 ixmlChunk = provenance_chunk print3 (unat (wc_channels format)) p;
                 riffSize = 36 + totalDataSize + length ixmlChunk;
                 bytesPerSample = wc_bitsPerSample format div 8;
                 bytesPerMs = unat (wc_sampleRate format) * unat (wc_channels format) * unat bytesPerSample div 1000
             in if 2 ^ 32 - 1 < riffSize then
                  (fs, wav_error InvalidData ''Stitched WAV would exceed the RIFF 4 GB limit'')
                else (case create_file d fs out of
                    None \<Rightarrow> (fs, wav_error InternalError (''Cannot create WAV file: '' @ out))
                  | Some fs1 \<Rightarrow>
                      (let header = wav_header (of_nat riffSize) (wc_channels format) (wc_sampleRate format)
                             (wc_sampleRate format * ucast (wc_channels format) * ucast bytesPerSample)
                             (wc_channels format * bytesPerSample) (wc_bitsPerSample format) (of_nat totalDataSize);
                           (samples, durations, failed) = copy_parts fs1 bytesPerMs (zip parts chunks)
                       in (case failed of
                           Some part \<Rightarrow>
                             (fst (write_file d fs1 out (header @ samples)),
                              wav_error InternalError (''Short read stitching WAV part: '' @ part))
                         | None \<Rightarrow>
                             (let (fs2, ok) = write_file d fs1 out (header @ samples @ ixmlChunk)
                              in if \<not> ok then (fs2, wav_error InternalError (''Failed writing stitched WAV: '' @ out))
                                 else (fs2, Inr \<lparr>totalDurationMs = (if bytesPerMs = 0 then 0 else totalDataSize div bytesPerMs),
                                                partDurationsMs = durations\<rparr>)))))))) "

end
