(* ===== verification/Ixml_Roundtrip.thy ===== *)
theory Ixml_Roundtrip
  imports Ixml
begin

text \<open>
  Reading back what was written: escaping is undone by unescaping, escaped text cannot forge a tag, and
  \<open>parseIxmlProvenance\<close> inverts \<open>buildIxml\<close>. The document is seen as a list of tokens, tags and texts
  free of angle brackets; searching it for a tag is searching the list.
\<close>

section \<open>Escaping\<close>

lemma escape_char_no_bracket: "CHR 0x3C \<notin> set (escape_char c)"
  by (simp add: escape_char_def)

lemma escape_no_bracket [simp]: "CHR 0x3C \<notin> set (xmlEscape s)"
  using escape_char_no_bracket by (auto simp: xmlEscape_def)

lemma unescape_escape_char: "legal_char c \<Longrightarrow> xmlUnescape (escape_char c @ s) = c # xmlUnescape s"
  by (auto simp: escape_char_def)

lemma unescape_escape: "list_all legal_char s \<Longrightarrow> xmlUnescape (xmlEscape s) = s"
  by (induction s) (simp_all add: xmlEscape_def unescape_escape_char)

lemma xmlEscape_simps [simp]: "xmlEscape [] = []" "xmlEscape (s @ t) = xmlEscape s @ xmlEscape t"
  by (simp_all add: xmlEscape_def)

lemma escape_Nil [simp]: "xmlEscape s = [] \<longleftrightarrow> s = []"
  by (cases s) (simp_all add: xmlEscape_def escape_char_def)

section \<open>Searching\<close>

lemma find_skip:
  "c \<notin> set s \<Longrightarrow> find_sub (c # pat) (s @ r) = map_option (\<lambda>(b, r). (s @ b, r)) (find_sub (c # pat) r)"
proof (induction s)
  case (Cons x s)
  then show ?case by (cases "find_sub (c # pat) r") auto
qed (simp add: option.map_ident case_prod_unfold)

lemma find_hit: "pat \<noteq> [] \<Longrightarrow> find_sub pat (pat @ r) = Some ([], r)"
  by (cases "pat @ r") (auto, (metis append_eq_conv_conj)+)

lemma find_absent: "c \<notin> set s \<Longrightarrow> find_sub (c # pat) s = None"
  using find_skip [of c s pat "[]"] by simp

lemma find_first: "c \<notin> set s \<Longrightarrow> find_sub (c # pat) (s @ (c # pat) @ r) = Some (s, r)"
  using find_hit [of "c # pat" r] by (simp add: find_skip)

section \<open>Tokens\<close>

datatype xml_token = Tag string | Txt string

fun render_token :: "xml_token \<Rightarrow> string" where
  "render_token (Tag t) = CHR 0x3C # t @ [CHR 0x3E]"
| "render_token (Txt s) = s"

definition render :: "xml_token list \<Rightarrow> string" where
  "render ts = concat (map render_token ts)"

fun token_ok :: "xml_token \<Rightarrow> bool" where
  "token_ok (Tag t) \<longleftrightarrow> CHR 0x3C \<notin> set t \<and> CHR 0x3E \<notin> set t"
| "token_ok (Txt s) \<longleftrightarrow> CHR 0x3C \<notin> set s"

lemma render_simps [simp]:
  "render [] = []" "render (t # ts) = render_token t @ render ts" "render (ts @ us) = render ts @ render us"
  by (simp_all add: render_def)

fun find_token :: "string \<Rightarrow> xml_token list \<Rightarrow> (xml_token list \<times> xml_token list) option" where
  "find_token t [] = None"
| "find_token t (x # xs) =
     (if x = Tag t then Some ([], xs) else map_option (\<lambda>(us, vs). (x # us, vs)) (find_token t xs))"

lemma tag_prefix:
  assumes "CHR 0x3E \<notin> set t" "CHR 0x3E \<notin> set u" "take (length t + 1) (u @ CHR 0x3E # r) = t @ [CHR 0x3E]"
  shows "u = t"
proof -
  have "u @ CHR 0x3E # r = t @ CHR 0x3E # drop (length t + 1) (u @ CHR 0x3E # r)"
    using assms(3) append_take_drop_id [of "length t + 1" "u @ CHR 0x3E # r"] by simp
  moreover have "takeWhile (\<lambda>c. c \<noteq> CHR 0x3E) (v @ CHR 0x3E # w) = v" if "CHR 0x3E \<notin> set v" for v w
    using that by (subst takeWhile_append2) auto
  ultimately show ?thesis using assms(1,2) by metis
qed

lemma find_render:
  assumes "list_all token_ok ts" "CHR 0x3C \<notin> set t" "CHR 0x3E \<notin> set t"
  shows "find_sub (CHR 0x3C # t @ [CHR 0x3E]) (render ts) =
    map_option (\<lambda>(us, vs). (render us, render vs)) (find_token t ts)"
  using assms(1)
proof (induction ts)
  case (Cons x xs)
  then have IH: "find_sub (CHR 0x3C # t @ [CHR 0x3E]) (render xs) =
    map_option (\<lambda>(us, vs). (render us, render vs)) (find_token t xs)" by simp
  show ?case
  proof (cases x)
    case (Txt s)
    then show ?thesis
      using Cons.prems IH find_skip [of "CHR 0x3C" s "t @ [CHR 0x3E]" "render xs"]
      by (cases "find_token t xs") auto
  next
    case (Tag u)
    show ?thesis
    proof (cases "u = t")
      case True
      then show ?thesis using Tag find_hit [of "CHR 0x3C # t @ [CHR 0x3E]" "render xs"] by simp
    next
      case False
      have u: "CHR 0x3C \<notin> set (u @ [CHR 0x3E])" "CHR 0x3E \<notin> set u" using Cons.prems Tag by auto
      have "take (length t + 1) (u @ CHR 0x3E # render xs) \<noteq> t @ [CHR 0x3E]"
        using tag_prefix [OF assms(3) u(2)] False by blast
      then have "find_sub (CHR 0x3C # t @ [CHR 0x3E]) (render (x # xs)) =
          map_option (\<lambda>(b, r). (CHR 0x3C # b, r)) (find_sub (CHR 0x3C # t @ [CHR 0x3E]) ((u @ [CHR 0x3E]) @ render xs))"
        using Tag by simp
      also have "\<dots> = map_option (\<lambda>(us, vs). (render (x # us), render vs)) (find_token t xs)"
        unfolding find_skip [OF u(1)] IH using Tag by (cases "find_token t xs") auto
      finally show ?thesis using Tag False by (cases "find_token t xs") auto
    qed
  qed
qed simp

definition element :: "string \<Rightarrow> xml_token list \<Rightarrow> (xml_token list \<times> xml_token list) option" where
  "element t ts = Option.bind (find_token t ts) (\<lambda>(_, vs). find_token (CHR 0x2F # t) vs)"

definition plain_tag :: "string \<Rightarrow> bool" where
  "plain_tag t \<longleftrightarrow> CHR 0x3C \<notin> set t \<and> CHR 0x3E \<notin> set t"

lemma find_token_ok: "find_token t ts = Some (us, vs) \<Longrightarrow> list_all token_ok ts \<Longrightarrow> list_all token_ok us \<and> list_all token_ok vs"
  by (induction ts arbitrary: us) (auto split: if_splits)

lemma firstElement_render:
  assumes "list_all token_ok ts" "plain_tag t"
  shows "firstElement (render ts) t = map_option (\<lambda>(us, vs). (render us, render vs)) (element t ts)"
proof (cases "find_token t ts")
  case None
  then show ?thesis
    using find_render [OF assms(1), of t] assms(2) by (simp add: firstElement_def open_tag_def element_def plain_tag_def)
next
  case (Some x)
  then obtain us vs where x: "find_token t ts = Some (us, vs)" by (cases x) auto
  then have "list_all token_ok vs" using find_token_ok assms(1) by blast
  then show ?thesis
    using x find_render [OF assms(1), of t] find_render [of vs "CHR 0x2F # t"] assms(2)
    by (simp add: firstElement_def open_tag_def close_tag_def element_def plain_tag_def)
qed

section \<open>Fields of a token list\<close>

definition field_tokens :: "string \<Rightarrow> string \<Rightarrow> xml_token list" where
  "field_tokens t s = [Tag t, Txt (xmlEscape s), Tag (CHR 0x2F # t)]"

lemma find_token_skip: "Tag t \<notin> set us \<Longrightarrow> find_token t (us @ vs) = map_option (\<lambda>(a, b). (us @ a, b)) (find_token t vs)"
  by (induction us) (auto simp: option.map_ident case_prod_unfold option.map_comp o_def)

lemma find_token_absent: "Tag t \<notin> set us \<Longrightarrow> find_token t us = None"
  using find_token_skip [of t us "[]"] by simp

lemma element_skip: "Tag t \<notin> set us \<Longrightarrow> element t (us @ vs) = element t vs"
  by (cases "find_token t vs") (auto simp: element_def find_token_skip)

lemma element_absent: "Tag t \<notin> set us \<Longrightarrow> element t us = None"
  by (simp add: element_def find_token_absent)

lemma element_hit: "Tag (CHR 0x2F # t) \<notin> set us \<Longrightarrow> element t (Tag t # us @ Tag (CHR 0x2F # t) # vs) = Some (us, vs)"
  by (simp add: element_def find_token_skip)

lemma element_field: "element t (field_tokens t s @ vs) = Some ([Txt (xmlEscape s)], vs)"
  by (simp add: field_tokens_def element_def)

lemma extract_render:
  assumes "list_all token_ok ts" "plain_tag t"
  shows "extractField (render ts) t = map_option (\<lambda>(us, vs). xmlUnescape (render us)) (element t ts)"
  using firstElement_render [OF assms] by (simp add: extractField_def option.map_comp o_def case_prod_unfold)

lemma section_render:
  assumes "list_all token_ok ts" "plain_tag t"
  shows "sectionOf (render ts) t = map_option (\<lambda>(us, vs). render us) (element t ts)"
  using firstElement_render [OF assms] by (simp add: sectionOf_def option.map_comp o_def case_prod_unfold)

lemma extract_field:
  assumes "list_all token_ok (us @ field_tokens t s @ vs)" "plain_tag t" "Tag t \<notin> set us" "list_all legal_char s"
  shows "extractField (render (us @ field_tokens t s @ vs)) t = Some s"
  unfolding extract_render [OF assms(1,2)] element_skip [OF assms(3)] element_field
  using unescape_escape [OF assms(4)] by simp

lemma extract_in:
  assumes "list_all token_ok ts" "ts = us @ field_tokens t s @ vs" "plain_tag t" "Tag t \<notin> set us" "list_all legal_char s"
  shows "extractField (render ts) t = Some s"
  using extract_field [of us t s vs] assms by simp

lemma extract_absent:
  assumes "list_all token_ok ts" "plain_tag t" "Tag t \<notin> set ts"
  shows "extractField (render ts) t = None"
  using extract_render [OF assms(1,2)] element_absent [OF assms(3)] by simp

text \<open>A field that is written only when its text is not empty.\<close>

definition optional_field :: "string \<Rightarrow> string \<Rightarrow> xml_token list" where
  "optional_field t s = (if s \<noteq> [] then Txt ''  '' # field_tokens t s @ [Txt newline] else [])"

lemma extract_optional:
  assumes "list_all token_ok (us @ optional_field t s @ vs)" "plain_tag t" "Tag t \<notin> set us" "Tag t \<notin> set vs"
    "list_all legal_char s"
  shows "value_or_empty (extractField (render (us @ optional_field t s @ vs)) t) = s"
proof (cases "s = []")
  case True
  then show ?thesis
    using extract_absent [OF assms(1,2)] assms(3,4) by (simp add: optional_field_def value_or_empty_def)
next
  case False
  then have split: "us @ optional_field t s @ vs = (us @ [Txt ''  '']) @ field_tokens t s @ ([Txt newline] @ vs)"
    by (simp add: optional_field_def)
  show ?thesis
    using extract_field [OF assms(1) [unfolded split] assms(2) _ assms(5)] assms(3)
    by (simp add: split value_or_empty_def)
qed

text \<open>A list of fields with different tags.\<close>

definition plain_fields :: "(string \<times> string) list \<Rightarrow> xml_token list" where
  "plain_fields fs = concat (map (\<lambda>(t, s). Txt ''      '' # field_tokens t s @ [Txt newline]) fs)"

lemma plain_fields_Cons: "plain_fields ((t, s) # fs) = Txt ''      '' # field_tokens t s @ Txt newline # plain_fields fs"
  by (simp add: plain_fields_def)

lemma element_fields:
  assumes "(t, s) \<in> set fs" "distinct (map fst fs)" "CHR 0x2F \<notin> set t"
  shows "\<exists>ws. element t (plain_fields fs @ vs) = Some ([Txt (xmlEscape s)], ws)"
  using assms(1,2)
proof (induction fs)
  case (Cons f fs)
  obtain u v where f: "f = (u, v)" by fastforce
  show ?case
  proof (cases "u = t")
    case True
    then have "v = s" using Cons.prems f by (metis fst_conv image_eqI list.set_map list.simps(9) map_of_eq_Some_iff
          map_of_Cons_code(2) option.inject distinct.simps(2) set_ConsD snd_conv)
    then have "element t (plain_fields (f # fs) @ vs) = element t ([Txt ''      ''] @ field_tokens t s @ Txt newline # plain_fields fs @ vs)"
      using True f by (simp add: plain_fields_Cons)
    then show ?thesis by (subst (asm) element_skip) (simp_all add: element_field)
  next
    case False
    have "t \<noteq> CHR 0x2F # u" using assms(3) by auto
    moreover have "(t, s) \<in> set fs" "distinct (map fst fs)" using Cons.prems False f by auto
    moreover have "element t (plain_fields (f # fs) @ vs) = element t (plain_fields fs @ vs)"
      using element_skip [of t "Txt ''      '' # field_tokens u v @ [Txt newline]" "plain_fields fs @ vs"] False calculation(1) f
      by (simp add: plain_fields_Cons field_tokens_def)
    ultimately show ?thesis using Cons.IH by simp
  qed
qed simp

text \<open>The rows of a section.\<close>

definition row_tokens :: "string \<Rightarrow> xml_token list \<Rightarrow> xml_token list" where
  "row_tokens indent inner = Txt indent # Tag ''TRACK'' # inner @ [Tag ''/TRACK'', Txt newline]"

lemma track_rows_render:
  assumes "list_all token_ok (us @ concat (map (row_tokens indent) rows) @ vs)" "Tag ''TRACK'' \<notin> set us" "Tag ''TRACK'' \<notin> set vs"
    "\<forall>inner \<in> set rows. Tag ''/TRACK'' \<notin> set inner"
  shows "track_rows (render (us @ concat (map (row_tokens indent) rows) @ vs)) = map render rows"
  using assms
proof (induction rows arbitrary: us)
  case Nil
  have "firstElement (render (us @ vs)) ''TRACK'' = None"
    using Nil by (subst firstElement_render) (simp_all add: plain_tag_def element_absent)
  then show ?case by (subst track_rows.simps) simp
next
  case (Cons inner rows)
  define more where "more = concat (map (row_tokens indent) rows) @ vs"
  have split: "us @ concat (map (row_tokens indent) (inner # rows)) @ vs =
      (us @ [Txt indent]) @ Tag ''TRACK'' # inner @ Tag ''/TRACK'' # Txt newline # more"
    by (simp add: row_tokens_def more_def)
  have ok: "list_all token_ok (us @ concat (map (row_tokens indent) (inner # rows)) @ vs)" by (rule Cons.prems(1))
  have "element ''TRACK'' (us @ concat (map (row_tokens indent) (inner # rows)) @ vs) = Some (inner, Txt newline # more)"
    unfolding split using Cons.prems(2,4) element_hit [of "''TRACK''" inner "Txt newline # more"]
    by (subst element_skip) auto
  then have "firstElement (render (us @ concat (map (row_tokens indent) (inner # rows)) @ vs)) ''TRACK'' =
      Some (render inner, render (Txt newline # more))"
    using firstElement_render [OF ok, of "''TRACK''"] by (simp add: plain_tag_def)
  moreover have "list_all token_ok ([Txt newline] @ concat (map (row_tokens indent) rows) @ vs)"
    using Cons.prems(1) by (simp add: newline_def)
  then have "track_rows (render ([Txt newline] @ concat (map (row_tokens indent) rows) @ vs)) = map render rows"
    using Cons.IH [of "[Txt newline]"] Cons.prems(3,4) by simp
  then have "track_rows (render (Txt newline # more)) = map render rows" by (simp add: more_def)
  ultimately show ?case by (subst track_rows.simps) simp
qed


section \<open>Numbers\<close>

lemma of_char_digit: "d < 10 \<Longrightarrow> (of_char (char_of (48 + d :: nat)) :: nat) = 48 + d"
  by (simp add: of_char_of)

lemma isdigit_char: "d < 10 \<Longrightarrow> isdigit (char_of (48 + d :: nat))"
  by (simp add: isdigit_def of_char_digit)

lemma dec_digits: "list_all isdigit (dec n)"
proof (induction n rule: dec.induct)
  case (1 n)
  then show ?case using isdigit_char by (subst dec.simps) simp
qed

lemma dec_not_Nil: "dec n \<noteq> []"
  by (subst dec.simps) simp

lemma decimal_value_dec: "decimal_value (dec n) = n"
proof (induction n rule: dec.induct)
  case (1 n)
  show ?case
  proof (cases "n < 10")
    case True
    then show ?thesis by (subst dec.simps) (simp add: decimal_value_def of_char_digit)
  next
    case False
    then have "decimal_value (dec n) = 10 * decimal_value (dec (n div 10)) + n mod 10"
      by (subst dec.simps) (simp add: decimal_value_def of_char_digit)
    then show ?thesis using 1 False by simp
  qed
qed

lemma digit_legal: "isdigit c \<Longrightarrow> legal_char c \<and> \<not> isspace c \<and> c \<noteq> CHR 0x2D \<and> c \<noteq> CHR 0x2B"
  by (auto simp: isdigit_def legal_char_def isspace_def)

lemma takeWhile_all: "list_all P s \<Longrightarrow> takeWhile P s = s"
  by (induction s) simp_all

lemma signed_digits_dec: "signed_digits (dec n) = (False, n)"
proof -
  obtain c cs where c: "dec n = c # cs" using dec_not_Nil by (cases "dec n") auto
  then have "isdigit c" "takeWhile isdigit cs = cs" using dec_digits [of n] takeWhile_all by auto
  then show ?thesis
    using c digit_legal [of c] decimal_value_dec [of n] by (simp add: signed_digits_def del: takeWhile_eq_all_conv)
qed

lemma signed_digits_neg: "signed_digits (CHR 0x2D # dec n) = (True, n)"
  by (simp add: signed_digits_def isspace_def takeWhile_all [OF dec_digits] decimal_value_dec)

lemma strtoll_dec_int: "- (2 ^ 63) \<le> i \<Longrightarrow> i < 2 ^ 63 \<Longrightarrow> strtoll (dec_int i) = i"
  by (auto simp: strtoll_def dec_int_def signed_digits_dec signed_digits_neg)

lemma narrow_int_id: "- (2 ^ 31) \<le> i \<Longrightarrow> i < 2 ^ 31 \<Longrightarrow> narrow_int i = i"
  unfolding narrow_int_def by transfer (simp add: signed_take_bit_int_eq_self)

lemma parseChannel_dec: "n < 65536 \<Longrightarrow> parseChannel (Some (dec n)) = of_nat n"
  by (simp add: parseChannel_def strtoul_def signed_digits_dec unsigned_of_nat take_bit_nat_eq_self)

lemma legal_dec [simp]: "list_all legal_char (dec n)"
  using dec_digits [of n] digit_legal by (auto simp: list_all_iff)

lemma legal_dec_int [simp]: "list_all legal_char (dec_int i)"
  by (simp add: dec_int_def legal_char_def)

section \<open>Lists packed into a text\<close>

lemma find_mid: "c \<notin> set s \<Longrightarrow> find_sub [c] (s @ c # r) = Some (s, r)"
  using find_first [of c s "[]" r] by simp

lemma find_none: "c \<notin> set s \<Longrightarrow> find_sub [c] s = None"
  using find_absent [of c s "[]"] by simp

lemma split_join_ids:
  "ids \<noteq> [] \<Longrightarrow> \<forall>x \<in> set ids. CHR 0x2C \<notin> set x \<Longrightarrow> split_ids (join_with '','' ids) = ids"
proof (induction ids)
  case (Cons x ids)
  then have x: "CHR 0x2C \<notin> set x" by simp
  show ?case
  proof (cases ids)
    case Nil
    then show ?thesis using find_none [OF x] by (simp add: split_ids.simps)
  next
    case (Cons y ys)
    then show ?thesis using Cons.IH Cons.prems find_mid [OF x] by (subst split_ids.simps) simp
  qed
qed simp

definition line_ok :: "script_line \<Rightarrow> bool" where
  "line_ok l \<longleftrightarrow> list_all legal_char (sl_speaker l) \<and> list_all legal_char (sl_text l) \<and>
     CHR 0x3A \<notin> set (sl_speaker l) \<and> CHR 0x0A \<notin> set (sl_speaker l) \<and> CHR 0x0A \<notin> set (sl_text l)"

definition line_text :: "script_line \<Rightarrow> string" where
  "line_text l = sl_speaker l @ '': '' @ sl_text l"

lemma parse_turn_line: "line_ok l \<Longrightarrow> parse_turn (line_text l) = l"
  using find_first [of "CHR 0x3A" "sl_speaker l" "'' ''" "sl_text l"]
  by (simp add: parse_turn_def line_text_def line_ok_def)

lemma parse_script: "list_all line_ok ls \<Longrightarrow> parseDialogScriptTurns (script_blob ls) = ls"
proof (induction ls)
  case Nil
  then show ?case by (simp add: script_blob_def parseDialogScriptTurns.simps)
next
  case (Cons l ls)
  have l: "CHR 0x0A \<notin> set (line_text l)" "line_text l \<noteq> []" "parse_turn (line_text l) = l"
    using Cons.prems parse_turn_line by (auto simp: line_ok_def line_text_def)
  show ?case
  proof (cases ls)
    case Nil
    then have "script_blob (l # ls) = line_text l" by (simp add: script_blob_def line_text_def)
    then show ?thesis using l Nil find_none by (simp add: parseDialogScriptTurns.simps newline_def)
  next
    case (Cons l' ls')
    then have "script_blob (l # ls) = line_text l @ CHR 0x0A # script_blob ls"
      by (simp add: script_blob_def line_text_def newline_def)
    then show ?thesis
      using l Cons.IH Cons.prems find_mid [OF l(1)] by (subst parseDialogScriptTurns.simps) (simp add: newline_def)
  qed
qed

text \<open>A time that three decimals express, as the two library functions see it.\<close>

definition time_ok :: "('d \<Rightarrow> string) \<Rightarrow> (string \<Rightarrow> 'd) \<Rightarrow> 'd \<Rightarrow> bool" where
  "time_ok print3 strtod x \<longleftrightarrow> list_all legal_char (print3 x) \<and> CHR 0x20 \<notin> set (print3 x) \<and> CHR 0x3B \<notin> set (print3 x) \<and>
     length (print3 x) \<le> 22 \<and> (\<forall>s. strtod (print3 x @ CHR 0x20 # s) = x)"

definition token_valid :: "('d \<Rightarrow> string) \<Rightarrow> (string \<Rightarrow> 'd) \<Rightarrow> 'd timed_token \<Rightarrow> bool" where
  "token_valid print3 strtod t \<longleftrightarrow> time_ok print3 strtod (tt_start t) \<and> time_ok print3 strtod (tt_end t) \<and>
     list_all legal_char (tt_token t) \<and> CHR 0x3B \<notin> set (tt_token t)"

lemma pack_token_valid:
  assumes "token_valid print3 strtod t"
  shows "pack_token print3 t = print3 (tt_start t) @ CHR 0x20 # print3 (tt_end t) @ CHR 0x20 # tt_token t"
proof -
  have "map (\<lambda>c. if c = CHR 0x3B then CHR 0x2C else c) (tt_token t) = tt_token t"
    using assms by (intro map_idI) (auto simp: token_valid_def)
  moreover have "take 47 (print3 (tt_start t) @ '' '' @ print3 (tt_end t) @ '' '') = print3 (tt_start t) @ '' '' @ print3 (tt_end t) @ '' ''"
    using assms by (intro take_all) (auto simp: token_valid_def time_ok_def)
  ultimately show ?thesis unfolding pack_token_def by (metis append_Cons append_Nil append_assoc)
qed

lemma parse_entry_packed:
  assumes "token_valid print3 strtod t"
  shows "parse_entry strtod (pack_token print3 t) (pack_token print3 t @ s) = Some t"
proof -
  have "find_sub '' '' (pack_token print3 t) = Some (print3 (tt_start t), print3 (tt_end t) @ CHR 0x20 # tt_token t)"
    "find_sub '' '' (print3 (tt_end t) @ CHR 0x20 # tt_token t) = Some (print3 (tt_end t), tt_token t)"
    unfolding pack_token_valid [OF assms] using assms by (auto simp: token_valid_def time_ok_def intro: find_mid)
  then show ?thesis
    using assms pack_token_valid [OF assms] by (simp add: parse_entry_def token_valid_def time_ok_def)
qed

lemma unpack_pack:
  assumes "list_all (token_valid print3 strtod) ts"
  shows "parseTimedTokens strtod (packTimedTokens print3 ts) = ts"
  using assms
proof (induction ts)
  case Nil
  then show ?case by (simp add: packTimedTokens_def parseTimedTokens.simps)
next
  case (Cons t ts)
  then have v: "token_valid print3 strtod t" by simp
  have s: "CHR 0x3B \<notin> set (pack_token print3 t)" "pack_token print3 t \<noteq> []"
    using v by (auto simp: pack_token_valid [OF v] token_valid_def time_ok_def)
  show ?case
  proof (cases ts)
    case Nil
    then have "packTimedTokens print3 (t # ts) = pack_token print3 t" by (simp add: packTimedTokens_def)
    then show ?thesis
      using Nil s parse_entry_packed [OF v, of "[]"] find_none [OF s(1)] by (simp add: parseTimedTokens.simps)
  next
    case (Cons t' ts')
    then have "packTimedTokens print3 (t # ts) = pack_token print3 t @ CHR 0x3B # packTimedTokens print3 ts"
      by (simp add: packTimedTokens_def)
    then show ?thesis
      using s Cons.IH Cons.prems parse_entry_packed [OF v] find_mid [OF s(1)] by (subst parseTimedTokens.simps) simp
  qed
qed

lemma legal_packed: "list_all (token_valid print3 strtod) ts \<Longrightarrow> list_all legal_char (packTimedTokens print3 ts)"
proof -
  have join: "list_all legal_char sep \<Longrightarrow> list_all (list_all legal_char) xs \<Longrightarrow> list_all legal_char (join_with sep xs)" for sep xs
    by (induction sep xs rule: join_with.induct) simp_all
  assume "list_all (token_valid print3 strtod) ts"
  then have "list_all (list_all legal_char) (map (pack_token print3) ts)"
    by (induction ts) (auto simp: pack_token_valid token_valid_def time_ok_def legal_char_def)
  then show ?thesis unfolding packTimedTokens_def by (intro join) (simp_all add: legal_char_def)
qed


section \<open>The document as tokens\<close>

lemma escape_dec [simp]: "xmlEscape (dec n) = dec n"
proof -
  have "isdigit c \<Longrightarrow> escape_char c = [c]" for c
    using digit_legal [of c] by (auto simp: escape_char_def isdigit_def)
  then have "list_all isdigit s \<Longrightarrow> xmlEscape s = s" for s by (induction s) (simp_all add: xmlEscape_def)
  then show ?thesis using dec_digits by blast
qed

definition circled_text :: "bool option \<Rightarrow> string" where
  "circled_text c = (case c of None \<Rightarrow> [] | Some b \<Rightarrow> if b then ''TRUE'' else ''FALSE'')"

definition header_tokens :: "'d wav_provenance \<Rightarrow> xml_token list" where
  "header_tokens p =
     [Tag (''?xml version='' @ [CHR 0x22] @ ''1.0'' @ [CHR 0x22] @ '' encoding='' @ [CHR 0x22] @ ''UTF-8'' @ [CHR 0x22] @ ''?''),
      Txt newline, Tag ''BWFXML'', Txt (newline @ ''  ''), Tag ''IXML_VERSION'', Txt ''2.0'', Tag ''/IXML_VERSION'',
      Txt (newline @ ''  ''), Tag ''PROJECT'', Txt ''creature-server'', Tag ''/PROJECT'', Txt newline] @
     optional_field ''SCENE'' (wp_title p) @ optional_field ''TAKE'' (take_name p) @
     optional_field ''CIRCLED'' (circled_text (circled p)) @ optional_field ''FILE_UID'' (fileUid p) @
     [Txt ''  '', Tag ''SPEED'', Tag ''FILE_SAMPLE_RATE'', Txt ''48000'', Tag ''/FILE_SAMPLE_RATE'',
      Tag ''AUDIO_BIT_DEPTH'', Txt ''16'', Tag ''/AUDIO_BIT_DEPTH'', Tag ''/SPEED'', Txt (newline @ ''  '')] @
     field_tokens ''NOTE'' (''Dialog render'' @ (if wp_title p \<noteq> [] then '': '' @ wp_title p else [])) @ [Txt newline]"

definition track_row :: "track_info \<Rightarrow> xml_token list" where
  "track_row t = field_tokens ''CHANNEL_INDEX'' (dec (unat (ti_channel t))) @ field_tokens ''NAME'' (ti_name t) @
     field_tokens ''INTERLEAVE_INDEX'' (dec (unat (ti_channel t)))"

definition laid_out :: "nat \<Rightarrow> track_info list \<Rightarrow> track_info list" where
  "laid_out n ts = (if n = 0 then ts
     else map (\<lambda>c. \<lparr>ti_channel = of_nat (c + 1), ti_name = nameByChannel n ts ! c\<rparr>) [0..<n])"

definition track_tokens :: "track_info list \<Rightarrow> xml_token list" where
  "track_tokens ts = (if ts = [] then [] else
     [Txt ''  '', Tag ''TRACK_LIST'', Txt (newline @ ''    '')] @ field_tokens ''TRACK_COUNT'' (dec (length ts)) @
     [Txt newline] @ concat (map (row_tokens ''    '') (map track_row ts)) @
     [Txt ''  '', Tag ''/TRACK_LIST'', Txt newline])"

definition user_tokens :: "'d wav_provenance \<Rightarrow> xml_token list" where
  "user_tokens p = [Txt ''  '', Tag ''USER'', Txt (newline @ ''    '')] @
     field_tokens ''SOURCE_SCRIPT_ID'' (sourceScriptId p) @ [Txt (newline @ ''    '')] @
     field_tokens ''TITLE'' (wp_title p) @ [Txt (newline @ ''    '')] @
     field_tokens ''GENERATION_IDS'' (joinGenerationIds (generationIds p)) @ [Txt (newline @ ''    '')] @
     field_tokens ''DIALOG_SCRIPT'' (script_blob (wp_script p)) @ [Txt newline]"

definition music_tokens :: "music_provenance option \<Rightarrow> xml_token list" where
  "music_tokens mo = (case mo of None \<Rightarrow> [] | Some m \<Rightarrow> if music_empty m then [] else
     [Txt ''    '', Tag ''MUSIC_PROVENANCE'', Txt newline] @ plain_fields (music_fields m) @
     [Txt ''    '', Tag ''/MUSIC_PROVENANCE'', Txt newline])"

definition timed_row :: "('d \<Rightarrow> string) \<Rightarrow> string \<Rightarrow> u16 \<times> string \<times> 'd timed_token list \<Rightarrow> xml_token list" where
  "timed_row print3 payload r = (case r of (ch, name, ts) \<Rightarrow>
     field_tokens ''CHANNEL_INDEX'' (dec (unat ch)) @ field_tokens ''NAME'' name @
     field_tokens payload (packTimedTokens print3 ts))"

definition timed_tokens :: "('d \<Rightarrow> string) \<Rightarrow> string \<Rightarrow> string \<Rightarrow> (u16 \<times> string \<times> 'd timed_token list) list \<Rightarrow> xml_token list" where
  "timed_tokens print3 sec payload rs = (if rs = [] then [] else
     [Txt ''    '', Tag sec, Txt newline] @ concat (map (row_tokens ''      '') (map (timed_row print3 payload) rs)) @
     [Txt ''    '', Tag (CHR 0x2F # sec), Txt newline])"

definition lipsync_rows :: "'d lipsync_track list \<Rightarrow> (u16 \<times> string \<times> 'd timed_token list) list" where
  "lipsync_rows ts = map (\<lambda>t. (lt_channel t, lt_name t, map cue_token (lt_cues t))) ts"

definition word_rows :: "'d word_track list \<Rightarrow> (u16 \<times> string \<times> 'd timed_token list) list" where
  "word_rows ts = map (\<lambda>t. (wd_channel t, wd_name t, map word_token (wd_words t))) ts"

definition end_tokens :: "xml_token list" where
  "end_tokens = [Txt ''  '', Tag ''/USER'', Txt newline, Tag ''/BWFXML'', Txt newline]"

definition doc_tokens :: "('d \<Rightarrow> string) \<Rightarrow> 'd wav_provenance \<Rightarrow> nat \<Rightarrow> xml_token list" where
  "doc_tokens print3 p n = header_tokens p @ track_tokens (laid_out n (wp_tracks p)) @ user_tokens p @ music_tokens (wp_music p) @
     timed_tokens print3 ''LIPSYNC'' ''CUES'' (lipsync_rows (wp_lipsync p)) @
     timed_tokens print3 ''WORD_ALIGNMENT'' ''WORDS'' (word_rows (wordAlignment p)) @ end_tokens"

lemma escape_words [simp]: "xmlEscape ''TRUE'' = ''TRUE''" "xmlEscape ''FALSE'' = ''FALSE''"
  by (simp_all add: xmlEscape_def escape_char_def legal_char_def)

lemma render_header: "render (header_tokens p) = build_header p"
  by (cases "circled p")
    (simp_all add: header_tokens_def build_header_def optional_field_def field_tokens_def circled_text_def newline_def)

lemma render_rows: "render (concat (map g rows)) = concat (map (\<lambda>r. render (g r)) rows)"
  by (induction rows) simp_all

lemma render_track_row: "render (row_tokens ''    '' (track_row t)) = emitTrack (dec (unat (ti_channel t))) (ti_name t)"
  by (simp add: row_tokens_def track_row_def field_tokens_def emitTrack_def)

lemma render_tracks:
  assumes "n < 65536"
  shows "render (track_tokens (laid_out n ts)) = build_track_list n ts"
proof -
  have u: "c < n \<Longrightarrow> unat (of_nat (c + 1) :: u16) = c + 1" for c
    using assms by (simp add: unsigned_of_nat take_bit_nat_eq_self del: of_nat_Suc of_nat_add)
  have rows: "map (\<lambda>t. emitTrack (dec (unat (ti_channel t))) (ti_name t)) (laid_out n ts) =
      map (\<lambda>c. emitTrack (dec (c + 1)) (nameByChannel n ts ! c)) [0..<n]" if "n \<noteq> 0"
    using that u by (simp add: laid_out_def del: of_nat_Suc of_nat_add)
  have body: "render (concat (map (row_tokens ''    '') (map track_row us))) =
      concat (map (\<lambda>t. emitTrack (dec (unat (ti_channel t))) (ti_name t)) us)" for us
    by (simp add: render_rows render_track_row o_def)
  show ?thesis
  proof (cases "n = 0")
    case True
    then show ?thesis
      unfolding track_tokens_def build_track_list_def
      using body [of ts] by (simp add: laid_out_def field_tokens_def newline_def)
  next
    case False
    have "length (laid_out n ts) = n" "laid_out n ts \<noteq> []" using False by (auto simp: laid_out_def)
    then show ?thesis
      unfolding track_tokens_def build_track_list_def
      using False body [of "laid_out n ts"] rows by (simp add: field_tokens_def newline_def)
  qed
qed

lemma render_user: "render (user_tokens p) = build_user p"
  by (simp add: user_tokens_def build_user_def field_tokens_def newline_def)

lemma render_plain_fields: "render (plain_fields fs) = concat (map music_field fs)"
  by (induction fs) (auto simp: plain_fields_def field_tokens_def music_field_def open_tag_def close_tag_def)

lemma render_music: "render (music_tokens mo) = build_music mo"
  by (cases mo) (simp_all add: music_tokens_def build_music_def render_plain_fields newline_def)

lemma render_timed_row: "render (row_tokens ''      '' (timed_row print3 payload (ch, name, ts))) = emitTrackRow print3 payload ch name ts"
  by (simp add: row_tokens_def timed_row_def field_tokens_def emitTrackRow_def open_tag_def close_tag_def)

lemma render_lipsync: "render (timed_tokens print3 ''LIPSYNC'' ''CUES'' (lipsync_rows ts)) = build_lipsync print3 ts"
  by (simp add: timed_tokens_def build_lipsync_def lipsync_rows_def render_rows render_timed_row o_def newline_def)

lemma render_words: "render (timed_tokens print3 ''WORD_ALIGNMENT'' ''WORDS'' (word_rows ts)) = build_words print3 ts"
  by (simp add: timed_tokens_def build_words_def word_rows_def render_rows render_timed_row o_def newline_def)

lemma render_doc: "n < 65536 \<Longrightarrow> render (doc_tokens print3 p n) = buildIxml print3 p n"
  by (simp add: doc_tokens_def buildIxml_def render_header render_tracks render_user render_music render_lipsync render_words
      end_tokens_def newline_def)


section \<open>Tokens and tags of the document\<close>

lemma newline_ok [simp]: "CHR 0x3C \<notin> set newline"
  by (simp add: newline_def)

lemma field_ok [simp]: "list_all token_ok (field_tokens t s) \<longleftrightarrow> plain_tag t"
  by (auto simp: field_tokens_def plain_tag_def)

lemma optional_ok [simp]: "plain_tag t \<Longrightarrow> list_all token_ok (optional_field t s)"
  by (simp add: optional_field_def)

lemma plain_tag_simps [simp]: "plain_tag []" "plain_tag (c # t) \<longleftrightarrow> c \<noteq> CHR 0x3C \<and> c \<noteq> CHR 0x3E \<and> plain_tag t"
  by (auto simp: plain_tag_def)

lemma rows_ok:
  "CHR 0x3C \<notin> set i \<Longrightarrow> \<forall>r \<in> set rows. list_all token_ok r \<Longrightarrow> list_all token_ok (concat (map (row_tokens i) rows))"
  by (induction rows) (simp_all add: row_tokens_def)

lemma track_row_ok [simp]: "list_all token_ok (track_row t)"
  by (simp add: track_row_def)

lemma timed_row_ok: "plain_tag payload \<Longrightarrow> list_all token_ok (timed_row print3 payload r)"
  by (simp add: timed_row_def split: prod.splits)

lemma header_ok [simp]: "list_all token_ok (header_tokens p)"
  by (simp add: header_tokens_def)

lemma track_tokens_ok [simp]: "list_all token_ok (track_tokens ts)"
  using rows_ok [of "''    ''" "map track_row ts"] by (simp add: track_tokens_def)

lemma user_ok [simp]: "list_all token_ok (user_tokens p)"
  by (simp add: user_tokens_def)

lemma plain_fields_ok: "\<forall>f \<in> set fs. plain_tag (fst f) \<Longrightarrow> list_all token_ok (plain_fields fs)"
  by (induction fs) (auto simp: plain_fields_def)

lemma music_ok [simp]: "list_all token_ok (music_tokens mo)"
proof (cases mo)
  case (Some m)
  have "\<forall>f \<in> set (music_fields m). plain_tag (fst f)" by (simp add: music_fields_def)
  then have "list_all token_ok (plain_fields (music_fields m))" by (rule plain_fields_ok)
  then show ?thesis using Some by (simp add: music_tokens_def)
qed (simp add: music_tokens_def)

lemma timed_ok: "plain_tag sec \<Longrightarrow> plain_tag payload \<Longrightarrow> list_all token_ok (timed_tokens print3 sec payload rs)"
  using rows_ok [of "''      ''" "map (timed_row print3 payload) rs"] by (simp add: timed_tokens_def timed_row_ok plain_tag_def)

lemma end_ok [simp]: "list_all token_ok end_tokens"
  by (simp add: end_tokens_def)

lemma doc_ok: "list_all token_ok (doc_tokens print3 p n)"
  by (simp add: doc_tokens_def timed_ok)

text \<open>The opening tags each part can contain; closing tags begin with a slash.\<close>

definition tags_in :: "string list \<Rightarrow> xml_token list \<Rightarrow> bool" where
  "tags_in L ts \<longleftrightarrow> list_all (\<lambda>x. case x of Tag t \<Rightarrow> hd t = CHR 0x2F \<or> t \<in> set L | Txt _ \<Rightarrow> True) ts"

lemma tags_in_simps [simp]:
  "tags_in L []" "tags_in L (Tag t # ts) \<longleftrightarrow> (hd t = CHR 0x2F \<or> t \<in> set L) \<and> tags_in L ts"
  "tags_in L (Txt s # ts) \<longleftrightarrow> tags_in L ts" "tags_in L (us @ vs) \<longleftrightarrow> tags_in L us \<and> tags_in L vs"
  by (simp_all add: tags_in_def)

lemma tags_in_absent: "tags_in L ts \<Longrightarrow> hd t \<noteq> CHR 0x2F \<Longrightarrow> t \<notin> set L \<Longrightarrow> Tag t \<notin> set ts"
  by (auto simp: tags_in_def list_all_iff)

lemma tags_field [simp]: "tags_in L (field_tokens t s) \<longleftrightarrow> hd t = CHR 0x2F \<or> t \<in> set L"
  by (simp add: field_tokens_def)

lemma tags_optional: "t \<in> set L \<Longrightarrow> tags_in L (optional_field t s)"
  by (simp add: optional_field_def)

lemma tags_rows: "''TRACK'' \<in> set L \<Longrightarrow> \<forall>r \<in> set rows. tags_in L r \<Longrightarrow> tags_in L (concat (map (row_tokens i) rows))"
  by (induction rows) (simp_all add: row_tokens_def)

definition row_tags :: "string list" where
  "row_tags = [''TRACK'', ''CHANNEL_INDEX'', ''NAME'', ''INTERLEAVE_INDEX'', ''CUES'', ''WORDS'']"

lemma tags_tracks: "tags_in (''TRACK_LIST'' # ''TRACK_COUNT'' # row_tags) (track_tokens ts)"
proof -
  have "tags_in (''TRACK_LIST'' # ''TRACK_COUNT'' # row_tags) (concat (map (row_tokens ''    '') (map track_row ts)))"
    by (rule tags_rows) (simp_all add: row_tags_def track_row_def)
  then show ?thesis by (simp add: track_tokens_def)
qed

lemma tags_timed:
  assumes "payload \<in> set row_tags"
  shows "tags_in (sec # row_tags) (timed_tokens print3 sec payload rs)"
proof -
  have "tags_in (sec # row_tags) (concat (map (row_tokens ''      '') (map (timed_row print3 payload) rs)))"
    using assms by (intro tags_rows) (simp_all add: row_tags_def timed_row_def split: prod.splits)
  then show ?thesis by (simp add: timed_tokens_def)
qed

definition header_tags :: "string list" where
  "header_tags = [''?xml version='' @ [CHR 0x22] @ ''1.0'' @ [CHR 0x22] @ '' encoding='' @ [CHR 0x22] @ ''UTF-8'' @ [CHR 0x22] @ ''?'',
     ''BWFXML'', ''IXML_VERSION'', ''PROJECT'', ''SCENE'', ''TAKE'', ''CIRCLED'', ''FILE_UID'', ''SPEED'',
     ''FILE_SAMPLE_RATE'', ''AUDIO_BIT_DEPTH'', ''NOTE'']"

lemma tags_header: "tags_in header_tags (header_tokens p)"
  by (simp add: header_tokens_def header_tags_def tags_optional)

definition user_tags :: "string list" where
  "user_tags = [''USER'', ''SOURCE_SCRIPT_ID'', ''TITLE'', ''GENERATION_IDS'', ''DIALOG_SCRIPT'']"

lemma tags_user: "tags_in user_tags (user_tokens p)"
  by (simp add: user_tokens_def user_tags_def)

lemma tags_fields: "\<forall>f \<in> set fs. fst f \<in> set L \<Longrightarrow> tags_in L (plain_fields fs)"
  by (induction fs) (auto simp: plain_fields_def)

definition music_tags :: "string list" where
  "music_tags = [''PROVIDER'', ''ENDPOINT'', ''MODEL_ID'', ''OUTPUT_FORMAT'', ''SOURCE_CHANNELS'', ''CHANNEL_TRANSFORM'',
     ''GENERATION_MODE'', ''MUSIC_PROMPT'', ''SOURCE_DIALOG_DURATION_MS'', ''DURATION_EXTENSION_MS'', ''MUSIC_LENGTH_MS'',
     ''FORCE_INSTRUMENTAL'', ''REQUEST_JSON'', ''RESPONSE_METADATA_JSON'', ''COMPOSITION_PLAN_JSON'', ''SONG_METADATA_JSON'',
     ''SONG_ID'', ''REQUEST_ID'', ''GENERATED_AT'', ''MUSIC_GENERATION_ID'', ''SOURCE_DIALOG_GENERATION_ID'',
     ''SOURCE_DIALOG_CACHE_KEY'', ''SOURCE_SCRIPT_UPDATED_AT'', ''PCM_SHA256'']"

lemma music_field_tags: "map fst (music_fields m) = music_tags"
  by (simp add: music_fields_def music_tags_def)

lemma tags_music: "tags_in (''MUSIC_PROVENANCE'' # music_tags) (music_tokens mo)"
proof (cases mo)
  case (Some m)
  have "fst f \<in> set music_tags" if "f \<in> set (music_fields m)" for f
    using that unfolding music_field_tags [of m, symmetric] by simp
  then have "tags_in (''MUSIC_PROVENANCE'' # music_tags) (plain_fields (music_fields m))"
    by (intro tags_fields) simp
  then show ?thesis using Some by (simp add: music_tokens_def)
qed (simp add: music_tokens_def)

lemma tags_end: "tags_in [] end_tokens"
  by (simp add: end_tokens_def)


lemmas absent_rules = tags_in_absent [OF tags_header] tags_in_absent [OF tags_tracks] tags_in_absent [OF tags_user]
  tags_in_absent [OF tags_music] tags_in_absent [OF tags_end]

lemma absent_lipsync:
  "hd t \<noteq> CHR 0x2F \<Longrightarrow> t \<notin> set (''LIPSYNC'' # row_tags) \<Longrightarrow> Tag t \<notin> set (timed_tokens print3 ''LIPSYNC'' ''CUES'' rs)"
  by (rule tags_in_absent [OF tags_timed]) (simp_all add: row_tags_def)

lemma absent_words:
  "hd t \<noteq> CHR 0x2F \<Longrightarrow> t \<notin> set (''WORD_ALIGNMENT'' # row_tags) \<Longrightarrow>
   Tag t \<notin> set (timed_tokens print3 ''WORD_ALIGNMENT'' ''WORDS'' rs)"
  by (rule tags_in_absent [OF tags_timed]) (simp_all add: row_tags_def)

text \<open>The tags that are searched for outside their own part of the document.\<close>

definition tail_tokens :: "('d \<Rightarrow> string) \<Rightarrow> 'd wav_provenance \<Rightarrow> xml_token list" where
  "tail_tokens print3 p = timed_tokens print3 ''LIPSYNC'' ''CUES'' (lipsync_rows (wp_lipsync p)) @
     timed_tokens print3 ''WORD_ALIGNMENT'' ''WORDS'' (word_rows (wordAlignment p)) @ end_tokens"

definition after_tracks :: "('d \<Rightarrow> string) \<Rightarrow> 'd wav_provenance \<Rightarrow> xml_token list" where
  "after_tracks print3 p = user_tokens p @ music_tokens (wp_music p) @ tail_tokens print3 p"

lemma doc_split: "doc_tokens print3 p n = header_tokens p @ track_tokens (laid_out n (wp_tracks p)) @ after_tracks print3 p"
  by (simp add: doc_tokens_def after_tracks_def tail_tokens_def)

definition body_tags :: "string list" where
  "body_tags = [''TRACK_LIST'', ''TRACK_COUNT'', ''LIPSYNC'', ''WORD_ALIGNMENT'', ''MUSIC_PROVENANCE''] @ row_tags @ user_tags @ music_tags"

lemma absent_body:
  assumes "hd t \<noteq> CHR 0x2F" "t \<notin> set body_tags"
  shows "Tag t \<notin> set (track_tokens ts)" "Tag t \<notin> set (after_tracks print3 p)"
  using assms absent_rules [where t = t] absent_lipsync [of t print3] absent_words [of t print3]
  by (auto simp: body_tags_def after_tracks_def tail_tokens_def)

lemma extract_optional_doc:
  assumes "header_tokens p = us @ optional_field t s @ vs" "Tag t \<notin> set us" "Tag t \<notin> set vs"
    "plain_tag t" "hd t \<noteq> CHR 0x2F" "t \<notin> set body_tags" "list_all legal_char s"
  shows "extractField (render (doc_tokens print3 p n)) t = (if s = [] then None else Some s)"
proof -
  define ws where "ws = vs @ track_tokens (laid_out n (wp_tracks p)) @ after_tracks print3 p"
  have d: "doc_tokens print3 p n = us @ optional_field t s @ ws" by (simp add: doc_split assms(1) ws_def)
  have ok: "list_all token_ok (us @ optional_field t s @ ws)" using doc_ok [of print3 p n] by (simp add: d)
  have ws: "Tag t \<notin> set ws" using assms(3,5,6) absent_body [of t] by (simp add: ws_def)
  show ?thesis
  proof (cases "s = []")
    case True
    then show ?thesis using extract_absent [OF ok assms(4)] assms(2) ws d by (simp add: optional_field_def)
  next
    case False
    then have split: "us @ optional_field t s @ ws = (us @ [Txt ''  '']) @ field_tokens t s @ ([Txt newline] @ ws)"
      by (simp add: optional_field_def)
    show ?thesis
      using extract_field [OF ok [unfolded split] assms(4) _ assms(7)] assms(2) False by (simp add: d split)
  qed
qed


lemma absent_before_user:
  "hd t \<noteq> CHR 0x2F \<Longrightarrow> t \<notin> set header_tags \<Longrightarrow> t \<notin> set (''TRACK_LIST'' # ''TRACK_COUNT'' # row_tags) \<Longrightarrow>
   Tag t \<notin> set (header_tokens p @ track_tokens ts)"
  using tags_in_absent [OF tags_header [of p], of t] tags_in_absent [OF tags_tracks [of ts], of t] by auto

lemma extract_user_doc:
  assumes "user_tokens p = us @ field_tokens t s @ vs" "Tag t \<notin> set us" "plain_tag t" "hd t \<noteq> CHR 0x2F"
    "t \<notin> set header_tags" "t \<notin> set (''TRACK_LIST'' # ''TRACK_COUNT'' # row_tags)" "list_all legal_char s"
  shows "extractField (render (doc_tokens print3 p n)) t = Some s"
proof -
  define before where "before = header_tokens p @ track_tokens (laid_out n (wp_tracks p))"
  define behind where "behind = vs @ music_tokens (wp_music p) @ tail_tokens print3 p"
  have d: "doc_tokens print3 p n = (before @ us) @ field_tokens t s @ behind"
    by (simp add: doc_split after_tracks_def assms(1) before_def behind_def)
  have "Tag t \<notin> set (before @ us)"
    using assms(2) absent_before_user [OF assms(4,5,6), of p "laid_out n (wp_tracks p)"] by (simp add: before_def)
  then show ?thesis
    using extract_field [OF doc_ok [of print3 p n, unfolded d] assms(3) _ assms(7)] by (simp add: d)
qed

lemma rows_absent:
  "t \<noteq> ''TRACK'' \<Longrightarrow> t \<noteq> ''/TRACK'' \<Longrightarrow> \<forall>r \<in> set rows. Tag t \<notin> set r \<Longrightarrow> Tag t \<notin> set (concat (map (row_tokens i) rows))"
  by (induction rows) (simp_all add: row_tokens_def)

lemma section_doc:
  assumes "doc_tokens print3 p n = us @ Tag t # inner @ Tag (CHR 0x2F # t) # vs" "plain_tag t"
    "Tag t \<notin> set us" "Tag (CHR 0x2F # t) \<notin> set inner"
  shows "sectionOf (render (doc_tokens print3 p n)) t = Some (render inner)"
proof -
  have "element t (us @ Tag t # inner @ Tag (CHR 0x2F # t) # vs) = Some (inner, vs)"
    using assms(3,4) by (subst element_skip) (simp_all add: element_hit)
  then show ?thesis using section_render [OF doc_ok assms(2), of print3 p n] assms(1) by simp
qed

lemma section_absent:
  "plain_tag t \<Longrightarrow> Tag t \<notin> set (doc_tokens print3 p n) \<Longrightarrow> sectionOf (render (doc_tokens print3 p n)) t = None"
  by (simp add: section_render [OF doc_ok] element_absent)

lemma parse_rows_all:
  assumes "\<forall>x \<in> set xs. extractField (g x) ''CHANNEL_INDEX'' = Some (dec (unat (ch x)))"
  shows "parse_rows mk (map g xs) = map (\<lambda>x. mk (ch x) (g x)) xs"
  using assms
proof (induction xs)
  case (Cons x xs)
  have "parseChannel (Some (dec (unat (ch x)))) = ch x"
    using parseChannel_dec [of "unat (ch x)"] unsigned_less [of "ch x"] by simp
  then show ?case using Cons by (simp add: parse_rows_def List.map_filter_def)
qed (simp add: parse_rows_def List.map_filter_def)

lemma track_row_fields:
  assumes "list_all legal_char (ti_name t)"
  shows "extractField (render (track_row t)) ''CHANNEL_INDEX'' = Some (dec (unat (ti_channel t)))"
    "extractField (render (track_row t)) ''NAME'' = Some (ti_name t)"
proof -
  let ?ch = "dec (unat (ti_channel t))"
  show "extractField (render (track_row t)) ''CHANNEL_INDEX'' = Some ?ch"
    by (rule extract_in [where us = "[]" and vs = "field_tokens ''NAME'' (ti_name t) @ field_tokens ''INTERLEAVE_INDEX'' ?ch"])
      (simp_all add: track_row_def)
  show "extractField (render (track_row t)) ''NAME'' = Some (ti_name t)"
    by (rule extract_in [where us = "field_tokens ''CHANNEL_INDEX'' ?ch" and vs = "field_tokens ''INTERLEAVE_INDEX'' ?ch"])
      (simp_all add: track_row_def assms, simp add: field_tokens_def)
qed

lemma timed_row_fields:
  assumes "list_all legal_char name" "list_all (token_valid print3 strtod) ts" "payload = ''CUES'' \<or> payload = ''WORDS''"
  shows "extractField (render (timed_row print3 payload (ch, name, ts))) ''CHANNEL_INDEX'' = Some (dec (unat ch))"
    "extractField (render (timed_row print3 payload (ch, name, ts))) ''NAME'' = Some name"
    "extractField (render (timed_row print3 payload (ch, name, ts))) payload = Some (packTimedTokens print3 ts)"
proof -
  have p: "plain_tag payload" "hd payload \<noteq> CHR 0x2F" "payload \<noteq> ''CHANNEL_INDEX''" "payload \<noteq> ''NAME''"
    using assms(3) by auto
  note ok = timed_row_ok [OF p(1), of print3 "(ch, name, ts)"]
  let ?c = "field_tokens ''CHANNEL_INDEX'' (dec (unat ch))" and ?n = "field_tokens ''NAME'' name"
    and ?p = "field_tokens payload (packTimedTokens print3 ts)"
  have row: "timed_row print3 payload (ch, name, ts) = ?c @ ?n @ ?p" by (simp add: timed_row_def)
  show "extractField (render (timed_row print3 payload (ch, name, ts))) ''CHANNEL_INDEX'' = Some (dec (unat ch))"
    by (rule extract_in [OF ok, where us = "[]" and vs = "?n @ ?p"]) (simp_all add: row)
  show "extractField (render (timed_row print3 payload (ch, name, ts))) ''NAME'' = Some name"
    by (rule extract_in [OF ok, where us = ?c and vs = ?p]) (simp_all add: row assms(1), simp add: field_tokens_def)
  have "Tag payload \<notin> set (?c @ ?n)"
    using p by (auto simp: field_tokens_def)
  then show "extractField (render (timed_row print3 payload (ch, name, ts))) payload = Some (packTimedTokens print3 ts)"
    by (intro extract_in [OF ok, where us = "?c @ ?n" and vs = "[]"]) (simp_all add: row p(1) legal_packed [OF assms(2)])
qed


lemma tracks_back:
  fixes p :: "'d wav_provenance" and n :: nat
  defines "us \<equiv> laid_out n (wp_tracks p)"
  assumes "\<forall>t \<in> set us. list_all legal_char (ti_name t)"
  shows "parseIxmlTrackList (render (doc_tokens print3 p n)) = us"
proof (cases "us = []")
  case True
  have "Tag ''TRACK_LIST'' \<notin> set (header_tokens p)" "Tag ''TRACK_LIST'' \<notin> set (after_tracks print3 p)"
    using absent_rules [where t = "''TRACK_LIST''"] absent_lipsync [of "''TRACK_LIST''" print3] absent_words [of "''TRACK_LIST''" print3]
    by (simp_all add: after_tracks_def tail_tokens_def header_tags_def user_tags_def music_tags_def row_tags_def)
  then have "Tag ''TRACK_LIST'' \<notin> set (doc_tokens print3 p n)"
    using True by (simp add: doc_split us_def track_tokens_def)
  then show ?thesis using True section_absent [of "''TRACK_LIST''" print3 p n] by (simp add: parseIxmlTrackList_def)
next
  case False
  define first where "first = [Txt (newline @ ''    '')] @ field_tokens ''TRACK_COUNT'' (dec (length us)) @ [Txt newline]"
  define rows where "rows = concat (map (row_tokens ''    '') (map track_row us))"
  have first: "Tag ''TRACK'' \<notin> set first" "Tag ''/TRACK_LIST'' \<notin> set first"
    by (simp_all add: first_def field_tokens_def)
  have first_ok: "list_all token_ok first" by (simp add: first_def)
  have inner: "Tag ''/TRACK_LIST'' \<notin> set rows"
    unfolding rows_def by (rule rows_absent) (auto simp: track_row_def field_tokens_def)
  have rows: "list_all token_ok rows" unfolding rows_def by (rule rows_ok) simp_all
  have head: "Tag ''TRACK_LIST'' \<notin> set (header_tokens p @ [Txt ''  ''])"
    using tags_in_absent [OF tags_header [of p], of "''TRACK_LIST''"] by (simp add: header_tags_def)
  have "doc_tokens print3 p n = (header_tokens p @ [Txt ''  '']) @ Tag ''TRACK_LIST'' # (first @ rows @ [Txt ''  '']) @
      Tag (CHR 0x2F # ''TRACK_LIST'') # (Txt newline # after_tracks print3 p)"
    using False by (simp add: doc_split us_def [symmetric] track_tokens_def first_def rows_def)
  then have "sectionOf (render (doc_tokens print3 p n)) ''TRACK_LIST'' = Some (render (first @ rows @ [Txt ''  '']))"
    using first inner by (intro section_doc [OF _ _ head]) simp_all
  moreover have "track_rows (render (first @ rows @ [Txt ''  ''])) = map render (map track_row us)"
    unfolding rows_def
    using first first_ok rows [unfolded rows_def]
    by (intro track_rows_render) (auto simp: track_row_def field_tokens_def)
  moreover have "parse_rows (\<lambda>ch row. \<lparr>ti_channel = ch, ti_name = value_or_empty (extractField row ''NAME'')\<rparr>)
      (map (\<lambda>t. render (track_row t)) us) =
      map (\<lambda>t. \<lparr>ti_channel = ti_channel t, ti_name = value_or_empty (extractField (render (track_row t)) ''NAME'')\<rparr>) us"
    using assms track_row_fields by (intro parse_rows_all) blast
  moreover have "map (\<lambda>t. \<lparr>ti_channel = ti_channel t, ti_name = value_or_empty (extractField (render (track_row t)) ''NAME'')\<rparr>) us = us"
    using assms track_row_fields(2) by (intro map_idI) (simp add: value_or_empty_def)
  ultimately show ?thesis by (simp add: parseIxmlTrackList_def o_def)
qed

definition row_valid :: "('d \<Rightarrow> string) \<Rightarrow> (string \<Rightarrow> 'd) \<Rightarrow> u16 \<times> string \<times> 'd timed_token list \<Rightarrow> bool" where
  "row_valid print3 strtod r \<longleftrightarrow> list_all legal_char (fst (snd r)) \<and> list_all (token_valid print3 strtod) (snd (snd r))"

lemma timed_back:
  assumes doc: "doc_tokens print3 p n = us @ timed_tokens print3 sec payload rs @ vs"
    and absent: "Tag sec \<notin> set us" "Tag sec \<notin> set vs"
    and pl: "payload = ''CUES'' \<or> payload = ''WORDS''"
    and sec: "plain_tag sec" "hd sec \<noteq> CHR 0x2F" "CHR 0x2F # sec \<noteq> ''/TRACK''" "sec \<notin> set row_tags"
    and rs: "\<forall>r \<in> set rs. row_valid print3 strtod r"
  shows "parseTimedTrackSection strtod (render (doc_tokens print3 p n)) sec payload =
    map (\<lambda>r. \<lparr>tk_channel = fst r, tk_name = fst (snd r), tk_tokens = snd (snd r)\<rparr>) rs"
proof (cases "rs = []")
  case True
  then have "Tag sec \<notin> set (doc_tokens print3 p n)" using absent by (simp add: doc timed_tokens_def)
  then show ?thesis using True section_absent [OF sec(1), of print3 p n] by (simp add: parseTimedTrackSection_def)
next
  case False
  define rows where "rows = concat (map (row_tokens ''      '') (map (timed_row print3 payload) rs))"
  have pt: "plain_tag payload" using pl by auto
  have inner: "Tag (CHR 0x2F # sec) \<notin> set rows"
    unfolding rows_def using sec pl
    by (intro rows_absent) (auto simp: timed_row_def field_tokens_def row_tags_def)
  have rows: "list_all token_ok rows" unfolding rows_def using timed_row_ok [OF pt] by (intro rows_ok) auto
  have whole: "doc_tokens print3 p n = (us @ [Txt ''    '']) @ Tag sec # ([Txt newline] @ rows @ [Txt ''    '']) @
      Tag (CHR 0x2F # sec) # (Txt newline # vs)"
    using False by (simp add: doc timed_tokens_def rows_def)
  have "sectionOf (render (doc_tokens print3 p n)) sec = Some (render ([Txt newline] @ rows @ [Txt ''    '']))"
    by (rule section_doc [OF whole sec(1)]) (use absent inner in simp_all)
  moreover have "track_rows (render ([Txt newline] @ rows @ [Txt ''    ''])) = map render (map (timed_row print3 payload) rs)"
    unfolding rows_def using rows [unfolded rows_def] pl
    by (intro track_rows_render) (auto simp: timed_row_def field_tokens_def newline_def)
  moreover have fields: "extractField (render (timed_row print3 payload r)) ''CHANNEL_INDEX'' = Some (dec (unat (fst r)))"
    "extractField (render (timed_row print3 payload r)) ''NAME'' = Some (fst (snd r))"
    "extractField (render (timed_row print3 payload r)) payload = Some (packTimedTokens print3 (snd (snd r)))"
    "parseTimedTokens strtod (packTimedTokens print3 (snd (snd r))) = snd (snd r)"
    if "r \<in> set rs" for r
  proof -
    have v: "list_all legal_char (fst (snd r))" "list_all (token_valid print3 strtod) (snd (snd r))"
      using that rs by (auto simp: row_valid_def)
    show "extractField (render (timed_row print3 payload r)) ''CHANNEL_INDEX'' = Some (dec (unat (fst r)))"
      "extractField (render (timed_row print3 payload r)) ''NAME'' = Some (fst (snd r))"
      "extractField (render (timed_row print3 payload r)) payload = Some (packTimedTokens print3 (snd (snd r)))"
      using timed_row_fields [OF v pl, of "fst r"] by simp_all
    show "parseTimedTokens strtod (packTimedTokens print3 (snd (snd r))) = snd (snd r)" by (rule unpack_pack [OF v(2)])
  qed
  moreover have "parse_rows mk (map (\<lambda>r. render (timed_row print3 payload r)) rs) = map (\<lambda>r. mk (fst r) (render (timed_row print3 payload r))) rs"
    for mk :: "u16 \<Rightarrow> string \<Rightarrow> 'a timed_track"
    using fields(1) by (intro parse_rows_all) blast
  ultimately show ?thesis by (simp add: parseTimedTrackSection_def o_def value_or_empty_def)
qed


section \<open>The music section\<close>

definition music_readable :: "music_provenance \<Rightarrow> bool" where
  "music_readable m \<longleftrightarrow> \<not> music_empty m \<and> list_all (\<lambda>f. list_all legal_char (snd f)) (music_fields m) \<and>
     - (2 ^ 31) \<le> mp_sourceChannels m \<and> mp_sourceChannels m < 2 ^ 31 \<and>
     list_all (\<lambda>i. - (2 ^ 63) \<le> i \<and> i < 2 ^ 63)
       [mp_sourceDialogDurationMs m, mp_durationExtensionMs m, mp_musicLengthMs m, mp_sourceScriptUpdatedAt m]"

lemma music_tags_plain:
  "list_all (\<lambda>t. CHR 0x2F \<notin> set t \<and> hd t \<noteq> CHR 0x2F \<and> plain_tag t \<and> t \<notin> set header_tags \<and>
     t \<notin> set (''TRACK_LIST'' # ''TRACK_COUNT'' # row_tags) \<and> t \<notin> set user_tags \<and> t \<noteq> ''MUSIC_PROVENANCE'') music_tags"
  by (simp add: music_tags_def header_tags_def row_tags_def user_tags_def)

lemma music_tags_distinct: "distinct music_tags"
  by (simp add: music_tags_def)

lemma extract_music:
  assumes "wp_music p = Some m" "music_readable m" "(t, s) \<in> set (music_fields m)"
  shows "extractField (render (doc_tokens print3 p n)) t = Some s"
proof -
  have "t \<in> set music_tags" using assms(3) unfolding music_field_tags [of m, symmetric] by force
  then have t: "CHR 0x2F \<notin> set t" "hd t \<noteq> CHR 0x2F" "plain_tag t" "t \<notin> set header_tags"
    "t \<notin> set (''TRACK_LIST'' # ''TRACK_COUNT'' # row_tags)" "t \<notin> set user_tags" "t \<noteq> ''MUSIC_PROVENANCE''"
    using music_tags_plain unfolding list_all_iff by blast+
  define before where "before = header_tokens p @ track_tokens (laid_out n (wp_tracks p)) @ user_tokens p @
    [Txt ''    '', Tag ''MUSIC_PROVENANCE'', Txt newline]"
  define behind where "behind = [Txt ''    '', Tag ''/MUSIC_PROVENANCE'', Txt newline] @ tail_tokens print3 p"
  have d: "doc_tokens print3 p n = before @ plain_fields (music_fields m) @ behind"
    using assms(1,2) by (simp add: doc_split after_tracks_def music_tokens_def music_readable_def before_def behind_def)
  have "Tag t \<notin> set before"
    using absent_before_user [OF t(2,4,5), of p "laid_out n (wp_tracks p)"] tags_in_absent [OF tags_user t(2,6), of p] t(7)
    by (simp add: before_def)
  then have "element t (doc_tokens print3 p n) = element t (plain_fields (music_fields m) @ behind)"
    unfolding d by (rule element_skip)
  moreover obtain ws where "element t (plain_fields (music_fields m) @ behind) = Some ([Txt (xmlEscape s)], ws)"
    using element_fields [OF assms(3) _ t(1)] music_tags_distinct music_field_tags by metis
  moreover have "list_all legal_char s" using assms(2,3) by (auto simp: music_readable_def list_all_iff)
  ultimately show ?thesis using extract_render [OF doc_ok t(3), of print3 p n] unescape_escape by simp
qed

lemma music_back:
  assumes "wp_music p = Some m" "music_readable m"
  shows "parse_music (render (doc_tokens print3 p n)) = Some m"
proof -
  let ?x = "extractField (render (doc_tokens print3 p n))"
  have "list_all (\<lambda>f. ?x (fst f) = Some (snd f)) (music_fields m)"
    using extract_music [OF assms] by (auto simp: list_all_iff)
  note fields = this [unfolded music_fields_def list.pred_inject fst_conv snd_conv]
  have "Tag ''MUSIC_PROVENANCE'' \<in> set (doc_tokens print3 p n)"
    using assms by (simp add: doc_split after_tracks_def music_tokens_def music_readable_def)
  moreover have "Tag t \<in> set ts \<Longrightarrow> find_token t ts \<noteq> None" for t ts by (induction ts) auto
  ultimately have "find_sub ''<MUSIC_PROVENANCE>'' (render (doc_tokens print3 p n)) \<noteq> None"
    using find_render [OF doc_ok [of print3 p n], of "''MUSIC_PROVENANCE''"] by simp
  moreover have "strtoll (dec_int i) = i" if "i \<in> set [mp_sourceDialogDurationMs m, mp_durationExtensionMs m, mp_musicLengthMs m, mp_sourceScriptUpdatedAt m]" for i
    using that assms(2) by (intro strtoll_dec_int) (auto simp: music_readable_def)
  moreover have "narrow_int (strtoll (dec_int (mp_sourceChannels m))) = mp_sourceChannels m"
    using assms(2) narrow_int_id [of "mp_sourceChannels m"] strtoll_dec_int [of "mp_sourceChannels m"]
    by (simp add: music_readable_def)
  ultimately show ?thesis
    using fields by (simp add: parse_music_def Let_def value_or_empty_def)
qed

lemma music_none:
  assumes "wp_music p = None"
  shows "parse_music (render (doc_tokens print3 p n)) = None"
proof -
  have "Tag ''MUSIC_PROVENANCE'' \<notin> set (doc_tokens print3 p n)"
    using assms tags_in_absent [OF tags_header [of p], of "''MUSIC_PROVENANCE''"]
      absent_rules(2,5) [where t = "''MUSIC_PROVENANCE''"] tags_in_absent [OF tags_user [of p], of "''MUSIC_PROVENANCE''"] absent_lipsync [of "''MUSIC_PROVENANCE''" print3]
      absent_words [of "''MUSIC_PROVENANCE''" print3]
    by (simp add: doc_split after_tracks_def tail_tokens_def header_tags_def user_tags_def row_tags_def music_tokens_def)
  then have "find_sub ''<MUSIC_PROVENANCE>'' (render (doc_tokens print3 p n)) = None"
    using find_render [OF doc_ok [of print3 p n], of "''MUSIC_PROVENANCE''"] find_token_absent by simp
  then show ?thesis by (simp add: parse_music_def)
qed


section \<open>The whole document\<close>

definition readable :: "('d \<Rightarrow> string) \<Rightarrow> (string \<Rightarrow> 'd) \<Rightarrow> 'd wav_provenance \<Rightarrow> bool" where
  "readable print3 strtod p \<longleftrightarrow>
     list_all (list_all legal_char) [fileUid p, take_name p, sourceScriptId p, wp_title p] \<and>
     list_all (\<lambda>x. list_all legal_char x \<and> CHR 0x2C \<notin> set x) (generationIds p) \<and> generationIds p \<noteq> [[]] \<and>
     list_all (\<lambda>t. list_all legal_char (ti_name t)) (wp_tracks p) \<and> list_all line_ok (wp_script p) \<and>
     list_all (row_valid print3 strtod) (lipsync_rows (wp_lipsync p)) \<and>
     list_all (row_valid print3 strtod) (word_rows (wordAlignment p)) \<and>
     (case wp_music p of None \<Rightarrow> True | Some m \<Rightarrow> music_readable m)"

lemma legal_join: "list_all legal_char sep \<Longrightarrow> list_all (list_all legal_char) xs \<Longrightarrow> list_all legal_char (join_with sep xs)"
  by (induction sep xs rule: join_with.induct) simp_all

lemma legal_script: "list_all line_ok ls \<Longrightarrow> list_all legal_char (script_blob ls)"
  unfolding script_blob_def
  by (rule legal_join) (auto simp: legal_char_def newline_def list_all_iff line_ok_def)

lemma legal_ids: "list_all (\<lambda>x. list_all legal_char x \<and> CHR 0x2C \<notin> set x) ids \<Longrightarrow> list_all legal_char (joinGenerationIds ids)"
  unfolding joinGenerationIds_def by (rule legal_join) (auto simp: legal_char_def list_all_iff)

lemma laid_out_legal:
  assumes "list_all (\<lambda>t. list_all legal_char (ti_name t)) ts"
  shows "\<forall>t \<in> set (laid_out n ts). list_all legal_char (ti_name t)"
proof -
  have step: "list_all (list_all legal_char) names \<Longrightarrow> length names = n \<Longrightarrow>
      list_all (list_all legal_char) (fold (\<lambda>t names. if 1 \<le> unat (ti_channel t) \<and> unat (ti_channel t) \<le> n
        then names[unat (ti_channel t) - 1 := ti_name t] else names) ts names) \<and>
      length (fold (\<lambda>t names. if 1 \<le> unat (ti_channel t) \<and> unat (ti_channel t) \<le> n
        then names[unat (ti_channel t) - 1 := ti_name t] else names) ts names) = n" for names
    using assms
  proof (induction ts arbitrary: names)
    case (Cons t ts)
    have "list_all (list_all legal_char) (names[unat (ti_channel t) - 1 := ti_name t])"
      using Cons.prems set_update_subset_insert [of names "unat (ti_channel t) - 1" "ti_name t"] by (auto simp: list_all_iff)
    then show ?case using Cons by simp
  qed simp
  have "list_all (list_all legal_char) (nameByChannel n ts)" "length (nameByChannel n ts) = n"
    using step [of "replicate n []"] by (simp_all add: nameByChannel_def list_all_iff)
  then have "list_all legal_char (nameByChannel n ts ! c)" if "c < n" for c
    using that nth_mem [of c "nameByChannel n ts"] by (auto simp: list_all_iff)
  then show ?thesis using assms by (auto simp: laid_out_def list_all_iff)
qed

lemma ids_back:
  "list_all (\<lambda>x. list_all legal_char x \<and> CHR 0x2C \<notin> set x) ids \<Longrightarrow> ids \<noteq> [[]] \<Longrightarrow>
   parse_generation_ids (Some (joinGenerationIds ids)) = ids"
proof -
  assume ids: "list_all (\<lambda>x. list_all legal_char x \<and> CHR 0x2C \<notin> set x) ids" "ids \<noteq> [[]]"
  show ?thesis
  proof (cases "ids = []")
    case False
    have "join_with '','' ids \<noteq> []" using False ids(2) by (cases "('','', ids)" rule: join_with.cases) auto
    then show ?thesis
      using split_join_ids [OF False] ids by (auto simp: parse_generation_ids_def joinGenerationIds_def list_all_iff)
  qed (simp add: parse_generation_ids_def joinGenerationIds_def)
qed

lemma user_back:
  assumes "readable print3 strtod p"
  shows "extractField (render (doc_tokens print3 p n)) ''SOURCE_SCRIPT_ID'' = Some (sourceScriptId p)"
    "extractField (render (doc_tokens print3 p n)) ''TITLE'' = Some (wp_title p)"
    "extractField (render (doc_tokens print3 p n)) ''GENERATION_IDS'' = Some (joinGenerationIds (generationIds p))"
    "extractField (render (doc_tokens print3 p n)) ''DIALOG_SCRIPT'' = Some (script_blob (wp_script p))"
proof -
  note r = assms [unfolded readable_def]
  let ?a = "[Txt ''  '', Tag ''USER'', Txt (newline @ ''    '')]" and ?nl = "[Txt (newline @ ''    '')]"
  let ?s = "field_tokens ''SOURCE_SCRIPT_ID'' (sourceScriptId p)" and ?t = "field_tokens ''TITLE'' (wp_title p)"
    and ?g = "field_tokens ''GENERATION_IDS'' (joinGenerationIds (generationIds p))"
    and ?d = "field_tokens ''DIALOG_SCRIPT'' (script_blob (wp_script p))"
  have absent: "Tag t \<notin> set (field_tokens u s)" if "t \<noteq> u" "t \<noteq> CHR 0x2F # u" for t u s
    using that by (simp add: field_tokens_def)
  note ev = user_tokens_def header_tags_def row_tags_def absent
  show "extractField (render (doc_tokens print3 p n)) ''SOURCE_SCRIPT_ID'' = Some (sourceScriptId p)"
    by (rule extract_user_doc [where us = "?a" and vs = "?nl @ ?t @ ?nl @ ?g @ ?nl @ ?d @ [Txt newline]"])
      (use r in \<open>simp_all add: ev\<close>)
  show "extractField (render (doc_tokens print3 p n)) ''TITLE'' = Some (wp_title p)"
    by (rule extract_user_doc [where us = "?a @ ?s @ ?nl" and vs = "?nl @ ?g @ ?nl @ ?d @ [Txt newline]"])
      (use r in \<open>simp_all add: ev\<close>)
  show "extractField (render (doc_tokens print3 p n)) ''GENERATION_IDS'' = Some (joinGenerationIds (generationIds p))"
    by (rule extract_user_doc [where us = "?a @ ?s @ ?nl @ ?t @ ?nl" and vs = "?nl @ ?d @ [Txt newline]"])
      (use r in \<open>simp_all add: ev legal_ids\<close>)
  show "extractField (render (doc_tokens print3 p n)) ''DIALOG_SCRIPT'' = Some (script_blob (wp_script p))"
    by (rule extract_user_doc [where us = "?a @ ?s @ ?nl @ ?t @ ?nl @ ?g @ ?nl" and vs = "[Txt newline]"])
      (use r in \<open>simp_all add: ev legal_script\<close>)
qed


lemma header_back:
  assumes "readable print3 strtod p"
  shows "value_or_empty (extractField (render (doc_tokens print3 p n)) ''FILE_UID'') = fileUid p"
    "value_or_empty (extractField (render (doc_tokens print3 p n)) ''TAKE'') = take_name p"
    "map_option (\<lambda>s. s = ''TRUE'') (extractField (render (doc_tokens print3 p n)) ''CIRCLED'') = circled p"
proof -
  have r: "list_all legal_char (fileUid p)" "list_all legal_char (take_name p)" "list_all legal_char (circled_text (circled p))"
    using assms by (auto simp: readable_def circled_text_def legal_char_def split: option.splits)
  let ?scene = "optional_field ''SCENE'' (wp_title p)" and ?take = "optional_field ''TAKE'' (take_name p)"
    and ?circled = "optional_field ''CIRCLED'' (circled_text (circled p))" and ?uid = "optional_field ''FILE_UID'' (fileUid p)"
  define first where "first = take 12 (header_tokens p)"
  define last where "last = [Txt ''  '', Tag ''SPEED'', Tag ''FILE_SAMPLE_RATE'', Txt ''48000'', Tag ''/FILE_SAMPLE_RATE'',
      Tag ''AUDIO_BIT_DEPTH'', Txt ''16'', Tag ''/AUDIO_BIT_DEPTH'', Tag ''/SPEED'', Txt (newline @ ''  '')] @
     field_tokens ''NOTE'' (''Dialog render'' @ (if wp_title p \<noteq> [] then '': '' @ wp_title p else [])) @ [Txt newline]"
  have h: "header_tokens p = first @ ?scene @ ?take @ ?circled @ ?uid @ last"
    by (simp add: header_tokens_def first_def last_def)
  have absent: "Tag t \<notin> set first" "Tag t \<notin> set last"
    if "t = ''TAKE'' \<or> t = ''CIRCLED'' \<or> t = ''FILE_UID''" for t
    using that by (auto simp: first_def last_def header_tokens_def field_tokens_def)
  have field: "Tag t \<notin> set (optional_field u s)" if "t \<noteq> u" "t \<noteq> CHR 0x2F # u" for t u s
    using that by (simp add: optional_field_def field_tokens_def)
  note ev = body_tags_def row_tags_def user_tags_def music_tags_def absent field
  have "extractField (render (doc_tokens print3 p n)) ''TAKE'' = (if take_name p = [] then None else Some (take_name p))"
    by (rule extract_optional_doc [where us = "first @ ?scene" and vs = "?circled @ ?uid @ last"]) (use r in \<open>simp_all add: h ev\<close>)
  then show "value_or_empty (extractField (render (doc_tokens print3 p n)) ''TAKE'') = take_name p" by (simp add: value_or_empty_def)
  have "extractField (render (doc_tokens print3 p n)) ''FILE_UID'' = (if fileUid p = [] then None else Some (fileUid p))"
    by (rule extract_optional_doc [where us = "first @ ?scene @ ?take @ ?circled" and vs = last]) (use r in \<open>simp_all add: h ev\<close>)
  then show "value_or_empty (extractField (render (doc_tokens print3 p n)) ''FILE_UID'') = fileUid p" by (simp add: value_or_empty_def)
  have "extractField (render (doc_tokens print3 p n)) ''CIRCLED'' =
      (if circled_text (circled p) = [] then None else Some (circled_text (circled p)))"
    by (rule extract_optional_doc [where us = "first @ ?scene @ ?take" and vs = "?uid @ last"]) (use r in \<open>simp_all add: h ev\<close>)
  then show "map_option (\<lambda>s. s = ''TRUE'') (extractField (render (doc_tokens print3 p n)) ''CIRCLED'') = circled p"
    by (simp add: circled_text_def split: option.splits)
qed

lemma cue_back [simp]: "token_cue (cue_token c) = c"
  by (simp add: token_cue_def cue_token_def)

lemma word_back [simp]: "token_word (word_token w) = w"
  by (simp add: token_word_def word_token_def)

lemma timed_rows_back:
  assumes "readable print3 strtod p"
  shows "parseIxmlLipsync strtod (render (doc_tokens print3 p n)) = wp_lipsync p"
    "parseIxmlWordAlignment strtod (render (doc_tokens print3 p n)) = wordAlignment p"
proof -
  define before where "before = header_tokens p @ track_tokens (laid_out n (wp_tracks p)) @ user_tokens p @ music_tokens (wp_music p)"
  let ?lips = "timed_tokens print3 ''LIPSYNC'' ''CUES'' (lipsync_rows (wp_lipsync p))"
    and ?words = "timed_tokens print3 ''WORD_ALIGNMENT'' ''WORDS'' (word_rows (wordAlignment p))"
  have d: "doc_tokens print3 p n = before @ ?lips @ ?words @ end_tokens" "doc_tokens print3 p n = (before @ ?lips) @ ?words @ end_tokens"
    by (simp_all add: doc_tokens_def before_def)
  have absent: "Tag t \<notin> set before"
    if "hd t \<noteq> CHR 0x2F" "t \<notin> set header_tags" "t \<notin> set (''TRACK_LIST'' # ''TRACK_COUNT'' # row_tags)" "t \<notin> set user_tags"
      "t \<notin> set (''MUSIC_PROVENANCE'' # music_tags)" for t
    using that absent_before_user [OF that(1,2,3), of p "laid_out n (wp_tracks p)"] tags_in_absent [OF tags_user [of p], of t]
      tags_in_absent [OF tags_music [of "wp_music p"], of t]
    by (simp add: before_def)
  have b: "Tag ''LIPSYNC'' \<notin> set before" "Tag ''WORD_ALIGNMENT'' \<notin> set before"
    by (rule absent, simp_all add: header_tags_def row_tags_def user_tags_def music_tags_def)+
  have l: "Tag ''LIPSYNC'' \<notin> set (?words @ end_tokens)"
    using absent_words [of "''LIPSYNC''" print3 "word_rows (wordAlignment p)"] by (simp add: row_tags_def end_tokens_def)
  have w: "Tag ''WORD_ALIGNMENT'' \<notin> set (before @ ?lips)" "Tag ''WORD_ALIGNMENT'' \<notin> set end_tokens"
    using b absent_lipsync [of "''WORD_ALIGNMENT''" print3 "lipsync_rows (wp_lipsync p)"] by (simp_all add: row_tags_def end_tokens_def)
  have rs: "\<forall>r \<in> set (lipsync_rows (wp_lipsync p)). row_valid print3 strtod r"
    "\<forall>r \<in> set (word_rows (wordAlignment p)). row_valid print3 strtod r"
    using assms by (auto simp: readable_def list_all_iff)
  have "parseTimedTrackSection strtod (render (doc_tokens print3 p n)) ''LIPSYNC'' ''CUES'' =
      map (\<lambda>r. \<lparr>tk_channel = fst r, tk_name = fst (snd r), tk_tokens = snd (snd r)\<rparr>) (lipsync_rows (wp_lipsync p))"
    by (rule timed_back [OF d(1) b(1) l _ _ _ _ _ rs(1)]) (simp_all add: row_tags_def)
  then show "parseIxmlLipsync strtod (render (doc_tokens print3 p n)) = wp_lipsync p"
    by (auto simp: parseIxmlLipsync_def lipsync_rows_def o_def intro: map_idI)
  have "parseTimedTrackSection strtod (render (doc_tokens print3 p n)) ''WORD_ALIGNMENT'' ''WORDS'' =
      map (\<lambda>r. \<lparr>tk_channel = fst r, tk_name = fst (snd r), tk_tokens = snd (snd r)\<rparr>) (word_rows (wordAlignment p))"
    by (rule timed_back [OF d(2) w _ _ _ _ _ rs(2)]) (simp_all add: row_tags_def)
  then show "parseIxmlWordAlignment strtod (render (doc_tokens print3 p n)) = wordAlignment p"
    by (auto simp: parseIxmlWordAlignment_def word_rows_def o_def intro: map_idI)
qed

lemma parse_build:
  assumes "n < 65536" "readable print3 strtod p"
  shows "parseIxmlProvenance strtod (buildIxml print3 p n) = p\<lparr>wp_tracks := laid_out n (wp_tracks p)\<rparr>"
proof -
  note r = assms(2) [unfolded readable_def]
  have doc: "buildIxml print3 p n = render (doc_tokens print3 p n)" by (simp only: render_doc [OF assms(1)])
  have m: "parse_music (render (doc_tokens print3 p n)) = wp_music p"
    using r music_back [of p] music_none [of p] by (cases "wp_music p") auto
  have "generationIds p \<noteq> [[]]" "list_all (\<lambda>x. list_all legal_char x \<and> CHR 0x2C \<notin> set x) (generationIds p)" using r by auto
  note ids = ids_back [OF this(2,1)]
  have s: "parseDialogScriptTurns (script_blob (wp_script p)) = wp_script p" using r parse_script by blast
  have "parseIxmlTrackList (render (doc_tokens print3 p n)) = laid_out n (wp_tracks p)"
    using r by (intro tracks_back laid_out_legal) blast
  then show ?thesis
    unfolding doc parseIxmlProvenance_def header_back [OF assms(2)] user_back [OF assms(2)] timed_rows_back [OF assms(2)] m ids
    using s by (simp add: value_or_empty_def)
qed



text \<open>A recording with two speakers, its times counted in milliseconds.\<close>

definition ms_print :: "nat \<Rightarrow> string" where
  "ms_print n = dec (n div 1000) @ CHR 0x2E # map (\<lambda>d. char_of (48 + d)) [n div 100 mod 10, n div 10 mod 10, n mod 10]"

definition ms_read :: "string \<Rightarrow> nat" where
  "ms_read s = 1000 * decimal_value (takeWhile isdigit s) + decimal_value (take 3 (tl (dropWhile isdigit s)))"

definition sample_provenance :: "nat wav_provenance" where
  "sample_provenance = \<lparr>fileUid = ''f-1'', take_name = [], circled = Some True, sourceScriptId = ''s<1>'', wp_title = ''Fish & Chips'',
     generationIds = [''g1'', ''g2''], wp_tracks = [\<lparr>ti_channel = 2, ti_name = ''Mango''\<rparr>],
     wp_script = [\<lparr>sl_speaker = ''Beaky'', sl_text = ''hi: there''\<rparr>, \<lparr>sl_speaker = ''Mango'', sl_text = []\<rparr>],
     wp_lipsync = [\<lparr>lt_channel = 2, lt_name = ''Mango'', lt_cues = [\<lparr>lc_start = 0, lc_end = 1500, lc_shape = ''A''\<rparr>]\<rparr>],
     wordAlignment = [], wp_music = None\<rparr>"

lemma sample_times: "time_ok ms_print ms_read 0" "time_ok ms_print ms_read 1500"
proof -
  have c: "char_of (48 :: nat) = CHR ''0''" "char_of (49 :: nat) = CHR ''1''" "char_of (53 :: nat) = CHR ''5''"
    using char_of_char [of "CHR ''0''", where ?'a = nat] char_of_char [of "CHR ''1''", where ?'a = nat]
      char_of_char [of "CHR ''5''", where ?'a = nat] by simp_all
  have d: "dec 0 = ''0''" "dec (Suc 0) = ''1''" by (simp_all add: dec.simps c)
  show "time_ok ms_print ms_read 0" "time_ok ms_print ms_read 1500"
    by (simp_all add: time_ok_def ms_print_def ms_read_def d c legal_char_def isdigit_def decimal_value_def)
qed


end
