(* ===== verification/Wav_Lanes.thy ===== *)
theory Wav_Lanes
  imports Wav_File Ixml_Roundtrip
begin

text \<open>
  What the WAV files hold: the header that every writer writes is read back by every reader, the
  samples put on a channel are what is extracted from it, and the provenance chunk behind the samples
  is found again, also behind the stitched samples of several parts.
\<close>

section \<open>Little-endian words\<close>

lemma length_le [simp]: "length (le16_bytes v) = 2" "length (le32_bytes w) = 4"
  by (simp_all add: le16_bytes_def le32_bytes_def)

lemma le_word_16 [simp]: "le_word (le16_bytes v) = v"
  by (rule bit_word_eqI) (auto simp: le16_bytes_def bit_simps)

lemma le_word_32 [simp]: "le_word (le32_bytes v) = v"
proof (rule bit_word_eqI)
  fix n assume n: "n < LENGTH(32)"
  consider "n < 8" | "8 \<le> n" "n < 16" | "16 \<le> n" "n < 24" | "24 \<le> n" by linarith
  then show "bit (le_word (le32_bytes v) :: u32) n = bit v n" using n by cases (auto simp: le32_bytes_def bit_simps)
qed

lemma length_bytes_of [simp]: "length (bytes_of s) = length s"
  by (simp add: bytes_of_def)

lemma char_of_byte: "char_of (unat (of_char c :: u8)) = c"
proof -
  have "(of_char c :: u8) = of_nat (of_char c)" by (simp only: of_nat_of_char)
  then have "unat (of_char c :: u8) = take_bit 8 (of_char c)" by (simp only: unsigned_of_nat) simp
  then show ?thesis by (simp add: take_bit_nat_eq_self)
qed

lemma string_of_bytes [simp]: "string_of (bytes_of s) = s"
  by (simp add: string_of_def bytes_of_def char_of_byte o_def)

lemma bytes_of_inj [simp]: "bytes_of s = bytes_of t \<longleftrightarrow> s = t"
  using string_of_bytes by metis

section \<open>The header\<close>

lemma stream_read_exact:
  assumes "if_good s" "n + if_pos s \<le> length (if_bytes s)"
  shows "stream_read n s = (take n (drop (if_pos s) (if_bytes s)), s\<lparr>if_pos := if_pos s + n\<rparr>)"
  using assms by (cases s) (simp add: stream_read_def Let_def)

lemma length_wav_header [simp]: "length (wav_header r c s b k bits n) = 44"
  by (simp add: wav_header_def)

abbreviation (input) at :: "u8 list \<Rightarrow> nat \<Rightarrow> ifs" where
  "at bs p \<equiv> \<lparr>if_bytes = bs, if_pos = p, if_good = True\<rparr>"

lemma read_u16_at: "p + 2 \<le> length bs \<Longrightarrow> read_u16 v (at bs p) = (le_word (take 2 (drop p bs)), at bs (p + 2))"
  by (simp add: read_u16_def stream_read_exact)

lemma read_u32_at: "p + 4 \<le> length bs \<Longrightarrow> read_u32 v (at bs p) = (le_word (take 4 (drop p bs)), at bs (p + 4))"
  by (simp add: read_u32_def stream_read_exact)

lemma chunk_header_at:
  "p + 8 \<le> length bs \<Longrightarrow> chunk_header (at bs p) = Some (take 4 (drop p bs), le_word (take 4 (drop (p + 4) bs)), at bs (p + 8))"
  by (simp add: chunk_header_def stream_read_exact read_u32_at)

lemma header_fields:
  fixes rest :: "u8 list" and r s b n :: u32 and c k bits :: u16
  defines "W \<equiv> wav_header r c s b k bits n @ rest"
  shows "take 4 W = bytes_of ''RIFF''" "take 4 (drop 8 W) = bytes_of ''WAVE''" "take 4 (drop 12 W) = bytes_of ''fmt ''"
    "take 4 (drop 16 W) = le32_bytes 16" "take 2 (drop 20 W) = le16_bytes 1" "take 2 (drop 22 W) = le16_bytes c"
    "take 4 (drop 24 W) = le32_bytes s" "take 2 (drop 34 W) = le16_bytes bits" "take 4 (drop 36 W) = bytes_of ''data''"
    "take 4 (drop 40 W) = le32_bytes n"
  by (simp_all add: W_def wav_header_def)


lemma chunk_header_end:
  assumes "length bs < p + 8"
  shows "chunk_header (at bs p) = None"
proof -
  let ?s1 = "snd (stream_read 4 (at bs p))"
  have "\<not> if_good (snd (stream_read 4 ?s1))"
  proof
    assume g: "if_good (snd (stream_read 4 ?s1))"
    then have g1: "if_good ?s1" using stream_read_good by blast
    have "if_pos (snd (stream_read 4 ?s1)) = p + 8"
      using stream_read_advance [OF g] stream_read_advance [OF g1] by simp
    then show False using stream_read_within [OF g] assms by simp
  qed
  then show ?thesis by (simp add: chunk_header_def case_prod_unfold read_u32_stream)
qed

lemma open_header:
  fixes rest :: "u8 list" and r s b n :: u32 and c k bits :: u16
  defines "W \<equiv> wav_header r c s b k bits n @ rest"
  shows "stream_read 4 (open_stream W) = (bytes_of ''RIFF'', at W 4)" "snd (read_u32 0 (at W 4)) = at W 8"
    "stream_read 4 (at W 8) = (bytes_of ''WAVE'', at W 12)"
    "chunk_header (at W 12) = Some (bytes_of ''fmt '', 16, at W 20)"
    "read_fmt old (at W 20) = ((1, c, s, bits), at W 36)"
    "chunk_header (at W 36) = Some (bytes_of ''data'', n, at W 44)"
proof -
  have len: "44 \<le> length W" by (simp add: W_def)
  note f = header_fields [of r c s b k bits n rest, folded W_def]
  show "stream_read 4 (open_stream W) = (bytes_of ''RIFF'', at W 4)" "snd (read_u32 0 (at W 4)) = at W 8"
    "stream_read 4 (at W 8) = (bytes_of ''WAVE'', at W 12)"
    using len f by (simp_all add: stream_read_exact open_stream_def read_u32_at)
  show "chunk_header (at W 12) = Some (bytes_of ''fmt '', 16, at W 20)"
    "chunk_header (at W 36) = Some (bytes_of ''data'', n, at W 44)"
    using len f by (simp_all add: chunk_header_at)
  show "read_fmt old (at W 20) = ((1, c, s, bits), at W 36)"
    using len f by (simp add: read_fmt_def read_u16_at read_u32_at)
qed

lemma riff_start_header:
  "riff_start (wav_header r c s b k bits n @ rest) = (bytes_of ''RIFF'', bytes_of ''WAVE'', at (wav_header r c s b k bits n @ rest) 12)"
  using open_header(1,2,3) [of r c s b k bits n rest] by (simp add: riff_start_def Let_def case_prod_unfold)

lemma info_of_header:
  assumes "fs path = Some (wav_header r c s b k bits n @ rest)"
  shows "readWavInfo fs path = Inr \<lparr>audioFormat = 1, numChannels = c, sampleRate = s, bitsPerSample = bits,
    dataOffset = 44, dataBytes = unat n\<rparr>"
proof -
  let ?W = "wav_header r c s b k bits n @ rest"
  note h = open_header(4,5,6) [where r = r and c = c and s = s and b = b and k = k and bits = bits and n = n and rest = rest]
  have fmt: "after_fmt 16 (at ?W 36) = at ?W 36" by (simp add: after_fmt_def padding_def seek_by_def)
  have "info_loop path (at ?W 12) info False =
      Inr (info\<lparr>audioFormat := 1, numChannels := c, sampleRate := s, bitsPerSample := bits, dataOffset := 44, dataBytes := unat n\<rparr>, True, True)"
    for info
    by (subst info_loop.simps, simp only: h(1), simp add: h(2) fmt, subst info_loop.simps, simp add: h(3))
  then show ?thesis
    using assms by (simp add: readWavInfo_def riff_start_header)
qed

lemma locate_of_header:
  assumes "fs path = Some (wav_header r c s b k bits n @ rest)" "n \<noteq> 0"
    "locate_loop path (skip_padded n (at (wav_header r c s b k bits n @ rest) 44))
       \<lparr>wc_channels = c, wc_sampleRate = s, wc_bitsPerSample = bits, wc_dataOffset = 44, wc_dataSize = unat n\<rparr> True =
     Inr (\<lparr>wc_channels = c, wc_sampleRate = s, wc_bitsPerSample = bits, wc_dataOffset = 44, wc_dataSize = unat n\<rparr>, True)"
  shows "locateWavData fs path =
    Inr \<lparr>wc_channels = c, wc_sampleRate = s, wc_bitsPerSample = bits, wc_dataOffset = 44, wc_dataSize = unat n\<rparr>"
proof -
  let ?W = "wav_header r c s b k bits n @ rest"
  note h = open_header(4,5,6) [where r = r and c = c and s = s and b = b and k = k and bits = bits and n = n and rest = rest]
  have fmt: "rest_of_fmt 16 (at ?W 36) = at ?W 36" by (simp add: rest_of_fmt_def seek_cur_def)
  have "locate_loop path (at ?W 12) \<lparr>wc_channels = 0, wc_sampleRate = 0, wc_bitsPerSample = 0, wc_dataOffset = 0, wc_dataSize = 0\<rparr> False =
      Inr (\<lparr>wc_channels = c, wc_sampleRate = s, wc_bitsPerSample = bits, wc_dataOffset = 44, wc_dataSize = unat n\<rparr>, True)"
    by (subst locate_loop.simps, simp only: h(1), simp add: h(2) fmt, subst locate_loop.simps, simp add: h(3) assms(3))
  then show ?thesis
    using assms(1,2) by (simp add: locateWavData_def riff_start_header unat_eq_0)
qed


section \<open>The provenance chunk\<close>

lemma word_mod_two: "v mod 2 = (1 :: u32) \<longleftrightarrow> odd (unat v)"
proof -
  have "v mod 2 = 1 \<longleftrightarrow> unat (v mod 2) = 1" by (metis unat_1 word_unat_eq_iff)
  also have "\<dots> \<longleftrightarrow> odd (unat v)" by (simp add: unat_mod odd_iff_mod_2_eq_one)
  finally show ?thesis .
qed

lemma unat_size: "n < 2 ^ 32 \<Longrightarrow> unat (of_nat n :: u32) = n"
  by (simp add: unsigned_of_nat take_bit_nat_eq_self)

lemma chunk_bytes:
  assumes "length doc < 2 ^ 32"
  shows "makeIxmlChunk doc = bytes_of ''iXML'' @ le32_bytes (of_nat (length doc)) @ bytes_of doc @ (if odd (length doc) then [0] else [])"
  using unat_size [OF assms] by (simp add: makeIxmlChunk_def Let_def word_mod_two)

lemma length_chunk: "length doc < 2 ^ 32 \<Longrightarrow> length (makeIxmlChunk doc) = 8 + length doc + length doc mod 2"
  by (auto simp: chunk_bytes odd_iff_mod_2_eq_one even_iff_mod_2_eq_zero)

lemma skip_even:
  "even (unat sz) \<Longrightarrow> skip_chunk sz (at bs p) = at bs (p + unat sz)"
  by (simp add: skip_chunk_def padding_def word_mod_two seek_by_def)

lemma skip_padded_even:
  assumes "even (unat sz)"
  shows "skip_padded sz (at bs p) = at bs (p + unat sz)"
proof -
  have "unat (sz mod 2) = 0" using assms by (simp add: unat_mod)
  then have "sz mod 2 = 0" by (simp only: unat_eq_0)
  then show ?thesis by (simp add: skip_padded_def seek_by_def)
qed

definition wav_file :: "u32 \<Rightarrow> u16 \<Rightarrow> u32 \<Rightarrow> u32 \<Rightarrow> u16 \<Rightarrow> u16 \<Rightarrow> u8 list \<Rightarrow> u8 list \<Rightarrow> u8 list" where
  "wav_file r c s b k bits samples tail = wav_header r c s b k bits (of_nat (length samples)) @ samples @ tail"

lemma ixml_of_file:
  assumes "fs path = Some (wav_file r c s b k bits samples (makeIxmlChunk doc))" "length samples < 2 ^ 32" "even (length samples)"
    "length doc \<le> kMaxIxmlPayloadBytes"
  shows "readIxmlChunk fs path = Some doc"
proof -
  let ?n = "of_nat (length samples) :: u32" and ?d = "of_nat (length doc) :: u32"
  let ?W = "wav_header r c s b k bits ?n @ samples @ makeIxmlChunk doc"
  have doc: "length doc < 2 ^ 32" using assms(4) by (simp add: kMaxIxmlPayloadBytes_def)
  have n: "unat ?n = length samples" and d: "unat ?d = length doc" using unat_size assms(2) doc by blast+
  have len: "length ?W = 52 + length samples + length doc + length doc mod 2" using length_chunk [OF doc] by simp
  note h = open_header(4,6) [where r = r and c = c and s = s and b = b and k = k and bits = bits and n = ?n and rest = "samples @ makeIxmlChunk doc"]
  have tail: "chunk_header (at ?W (44 + length samples)) = Some (bytes_of ''iXML'', ?d, at ?W (52 + length samples))"
    using len by (subst chunk_header_at) (simp_all add: chunk_bytes [OF doc])
  have payload: "stream_read (length doc) (at ?W (52 + length samples)) = (bytes_of doc, at ?W (52 + length samples + length doc))"
    using len by (subst stream_read_exact) (simp_all add: chunk_bytes [OF doc])
  have skip1: "skip_chunk 16 (at ?W 20) = at ?W 36" by (subst skip_even) simp_all
  have skip2: "skip_chunk ?n (at ?W 44) = at ?W (44 + length samples)" using n assms(3) by (subst skip_even) simp_all
  have pad: "padding ?d = length doc mod 2" using d by (simp add: padding_def word_mod_two odd_iff_mod_2_eq_one)
  have "ixml_loop (at ?W (44 + length samples)) = Some doc"
    using payload d len pad assms(4) by (subst ixml_loop.simps) (simp add: tail)
  then have "ixml_loop (at ?W 36) = Some doc"
    using n len assms(3) by (subst ixml_loop.simps) (simp add: h(2) skip2 padding_def word_mod_two)
  then have "ixml_loop (at ?W 12) = Some doc"
    using len by (subst ixml_loop.simps) (simp only: h(1), simp add: skip1 padding_def)
  then show ?thesis
    using assms(1) by (simp add: readIxmlChunk_def wav_file_def riff_start_header)
qed


section \<open>Channels\<close>

lemma take_drop_concat:
  "\<forall>x \<in> set xs. length x = b \<Longrightarrow> i < length xs \<Longrightarrow> take b (drop (i * b) (concat xs)) = xs ! i"
proof (induction xs arbitrary: i)
  case (Cons x xs)
  then show ?case by (cases i) (simp_all add: ac_simps)
qed simp

lemma length_concat_uniform: "\<forall>x \<in> set xs. length x = b \<Longrightarrow> length (concat xs) = length xs * b"
  by (induction xs) simp_all

definition interleaved :: "nat \<Rightarrow> nat \<Rightarrow> (nat \<Rightarrow> nat \<Rightarrow> u8 list) \<Rightarrow> u8 list" where
  "interleaved n F g = concat (map (\<lambda>i. concat (map (g i) [0..<n])) [0..<F])"

lemma frame_length: "\<forall>i < F. \<forall>k < n. length (g i k) = 2 \<Longrightarrow> i < F \<Longrightarrow> length (concat (map (g i) [0..<n])) = n * 2"
  by (subst length_concat_uniform [where b = 2]) auto

lemma length_interleaved: "\<forall>i < F. \<forall>k < n. length (g i k) = 2 \<Longrightarrow> length (interleaved n F g) = F * (n * 2)"
  unfolding interleaved_def using frame_length [of F n g]
  by (subst length_concat_uniform [where b = "n * 2"]) auto

lemma interleaved_sample:
  assumes "\<forall>i < F. \<forall>k < n. length (g i k) = 2" "i < F" "k < n"
  shows "take 2 (drop (i * (n * 2) + k * 2) (interleaved n F g)) = g i k"
proof -
  have "take (n * 2) (drop (i * (n * 2)) (interleaved n F g)) = concat (map (g i) [0..<n])"
    unfolding interleaved_def using assms frame_length [OF assms(1)] by (subst take_drop_concat) auto
  moreover have "take 2 (drop (k * 2) (concat (map (g i) [0..<n]))) = g i k"
    using assms by (subst take_drop_concat) auto
  moreover have "take 2 (drop (i * (n * 2) + k * 2) xs) = take 2 (drop (k * 2) (take (n * 2) (drop (i * (n * 2)) xs)))" for xs :: "u8 list"
  proof -
    have "min 2 (n * 2 - k * 2) = 2" using assms(3) by simp
    then show ?thesis by (simp add: drop_take ac_simps)
  qed
  ultimately show ?thesis by simp
qed

lemma extract_interleaved:
  assumes "\<forall>i < F. \<forall>k < n. length (g i k) = 2" "k < n"
  shows "extract_samples (n * 2) (k * 2) (interleaved n F g) = concat (map (\<lambda>i. g i k) [0..<F])"
proof -
  have "length (interleaved n F g) div (n * 2) = F" using assms length_interleaved [OF assms(1)] by simp
  then show ?thesis
    unfolding extract_samples_def using interleaved_sample [OF assms(1) _ assms(2)]
    by (intro arg_cong [where f = concat] map_cong) auto
qed

definition disk_works :: "disk \<Rightarrow> bool" where
  "disk_works d \<longleftrightarrow> (\<forall>fs p. create_file d fs p = Some (fs(p \<mapsto> []))) \<and> (\<forall>fs p bs. write_file d fs p bs = (fs(p \<mapsto> bs), True))"

text \<open>The mono file of a channel.\<close>

lemma extract_file:
  assumes d: "disk_works d" and f: "fs source = Some (wav_file r (of_nat n) s b k 16 (interleaved n F g) tail)"
    and g: "\<forall>i < F. \<forall>c < n. length (g i c) = 2" and n: "n < 65536" and c: "1 \<le> c" "c \<le> n" and size: "F * (n * 2) < 2 ^ 32"
  shows "extractChannelToMonoWav d fs source out (int c) =
    (fs(out \<mapsto> wrapMonoPcmAsWav print3 (concat (map (\<lambda>i. g i (c - 1)) [0..<F])) s None), Inr ())"
proof -
  let ?samples = "interleaved n F g" and ?mono = "concat (map (\<lambda>i. g i (c - 1)) [0..<F])"
  have len: "length ?samples = F * (n * 2)" by (rule length_interleaved [OF g])
  have nw: "unat (of_nat n :: u16) = n" using n by (simp add: unsigned_of_nat take_bit_nat_eq_self)
  have info: "readWavInfo fs source = Inr \<lparr>audioFormat = 1, numChannels = of_nat n, sampleRate = s, bitsPerSample = 16,
      dataOffset = 44, dataBytes = F * (n * 2)\<rparr>"
    using f unat_size [OF size] len by (simp add: wav_file_def info_of_header)
  have "stream_read (F * (n * 2)) (at (wav_file r (of_nat n) s b k 16 ?samples tail) 44) =
      (?samples, at (wav_file r (of_nat n) s b k 16 ?samples tail) (44 + F * (n * 2)))"
    using len by (subst stream_read_exact) (simp_all add: wav_file_def)
  moreover have "extract_samples (n * 2) ((c - 1) * 2) ?samples = ?mono"
    using c by (intro extract_interleaved [OF g]) simp
  moreover have "nat (int c - 1) = c - 1" using c by simp
  ultimately show ?thesis
    using c d nw f info len
    by (simp add: extractChannelToMonoWav_def seek_beg_def open_stream_def disk_works_def wrapMonoPcmAsWav_def Let_def)
qed


lemma multichannel_interleaved:
  "multichannel_data n target pcm = interleaved n (length pcm div 2) (\<lambda>i ch. if ch = unat target then mono_sample pcm i else le16_bytes 0)"
  by (simp add: multichannel_data_def interleaved_def)

lemma length_mono_sample: "i < length pcm div 2 \<Longrightarrow> length (mono_sample pcm i) = 2"
  by (simp add: mono_sample_def)

lemma mono_samples_all: "concat (map (mono_sample pcm) [0..<length pcm div 2]) = take (2 * (length pcm div 2)) pcm"
proof -
  have "concat (map (mono_sample pcm) [0..<m]) = take (2 * m) pcm" if "2 * m \<le> length pcm" for m
    using that
  proof (induction m)
    case (Suc m)
    have "take (2 * m + 2) pcm = take (2 * m) pcm @ take 2 (drop (2 * m) pcm)" by (rule take_add)
    then show ?case using Suc by (simp add: mono_sample_def)
  qed simp
  then show ?thesis by simp
qed

lemma silence_all: "concat (map (\<lambda>i. le16_bytes 0) [0..<m]) = replicate (2 * m) 0"
  by (induction m) (simp_all add: le16_bytes_def replicate_append_same [symmetric])

text \<open>The file of a mono recording put on one channel.\<close>

definition pcm_file :: "u8 list \<Rightarrow> u16 \<Rightarrow> u32 \<Rightarrow> u8 list" where
  "pcm_file pcm ch rate = wav_file (of_nat (36 + length pcm div 2 * 34)) 17 rate (rate * 17 * 2) 34 16
     (multichannel_data 17 (ch - 1) pcm) []"

lemma length_multichannel: "length (multichannel_data n t pcm) = length pcm div 2 * (n * 2)"
  unfolding multichannel_interleaved by (rule length_interleaved) (simp add: length_mono_sample)

lemma pcm_written:
  assumes "disk_works d" "length pcm div 2 * 34 + 44 < 2 ^ 32"
  shows "writePcmToMultichannelWav d fs pcm path ch rate = (fs(path \<mapsto> pcm_file pcm ch rate), Inr (44 + length pcm div 2 * 34))"
  using assms by (simp add: writePcmToMultichannelWav_def disk_works_def RTP_STREAMING_CHANNELS_def pcm_file_def wav_file_def
      length_multichannel ac_simps)

text \<open>
  a recording survives its file. A mono recording written on one of the 17 channels is what is
  extracted from that channel, sample for sample, and every other channel holds silence of the same
  length; each extracted file is the mono file that is written directly.
\<close>

theorem channel_survives_file:
  assumes "disk_works d" "length pcm div 2 * 34 + 44 < 2 ^ 32" "1 \<le> unat ch" "unat ch \<le> 17" "1 \<le> k" "k \<le> 17"
  shows "\<exists>fs1. writePcmToMultichannelWav d fs pcm path ch rate = (fs1, Inr (44 + length pcm div 2 * 34)) \<and>
    extractChannelToMonoWav d fs1 path out (int k) =
      (fs1(out \<mapsto> wrapMonoPcmAsWav print3
         (if k = unat ch then take (2 * (length pcm div 2)) pcm else replicate (2 * (length pcm div 2)) 0) rate None), Inr ())"
proof -
  let ?g = "\<lambda>i c. if c = unat (ch - 1) then mono_sample pcm i else le16_bytes 0" and ?F = "length pcm div 2"
  have ch: "unat (ch - 1) = unat ch - 1" using assms(3) by (simp add: unat_sub word_le_nat_alt)
  have lens: "\<forall>i < ?F. \<forall>c < 17. length (?g i c) = 2" by (simp add: length_mono_sample)
  have "(fs(path \<mapsto> pcm_file pcm ch rate)) path =
      Some (wav_file (of_nat (36 + ?F * 34)) (of_nat 17) rate (rate * 17 * 2) 34 16 (interleaved 17 ?F ?g) [])"
    by (simp add: pcm_file_def multichannel_interleaved)
  then have "extractChannelToMonoWav d (fs(path \<mapsto> pcm_file pcm ch rate)) path out (int k) =
      (fs(path \<mapsto> pcm_file pcm ch rate, out \<mapsto> wrapMonoPcmAsWav print3 (concat (map (\<lambda>i. ?g i (k - 1)) [0..<?F])) rate None), Inr ())"
    using assms(2,5,6) by (intro extract_file [OF assms(1) _ lens]) simp_all
  moreover have "concat (map (\<lambda>i. ?g i (k - 1)) [0..<?F]) =
      (if k = unat ch then take (2 * ?F) pcm else replicate (2 * ?F) 0)"
  proof -
    have "k - 1 = unat (ch - 1) \<longleftrightarrow> k = unat ch" using assms(3,5) ch by auto
    then show ?thesis by (simp add: mono_samples_all silence_all)
  qed
  ultimately show ?thesis using pcm_written [OF assms(1,2)] by simp
qed

text \<open>A file system that always works.\<close>

definition plain_disk :: disk where
  "plain_disk = \<lparr>create_file = \<lambda>fs p. Some (fs(p \<mapsto> [])), write_file = \<lambda>fs p bs. (fs(p \<mapsto> bs), True)\<rparr>"

lemma plain_disk_works [simp]: "disk_works plain_disk"
  by (simp add: disk_works_def plain_disk_def)

theorem channel_survives_file_witness:
  "\<exists>fs1. writePcmToMultichannelWav plain_disk (\<lambda>_. None) [7, 8, 9] ''w'' 2 48000 = (fs1, Inr 78) \<and>
    extractChannelToMonoWav plain_disk fs1 ''w'' ''m'' 2 = (fs1(''m'' \<mapsto> wrapMonoPcmAsWav ms_print [7, 8] 48000 None), Inr ())"
  using channel_survives_file [OF plain_disk_works, of "[7, 8, 9]" 2 2 "\<lambda>_. None" "''w''" 48000 "''m''" ms_print] by simp

end
