(* ===== verification/Wav_Stitch.thy ===== *)
theory Wav_Stitch
  imports Wav_Lanes
begin

text \<open>
  Stitching the parts of an exchange: the file holds the samples of all parts in order, and its
  provenance chunk is found and parsed again.
\<close>

lemma copy_part_all:
  "p + n \<le> length bs \<Longrightarrow> copy_part n (at bs p) = (take n (drop p bs), 0)"
proof (induction n arbitrary: p rule: less_induct)
  case (less n)
  show ?case
  proof (cases "n = 0")
    case True
    then show ?thesis by (simp add: copy_part.simps)
  next
    case False
    let ?w = "min n (2 ^ 20)"
    have w: "0 < ?w" "?w \<le> n" using False by auto
    have "stream_read ?w (at bs p) = (take ?w (drop p bs), at bs (p + ?w))"
      using less.prems w by (subst stream_read_exact) simp_all
    moreover have "length (take ?w (drop p bs)) = ?w" "take ?w (drop p bs) \<noteq> []"
      using less.prems w by auto
    moreover have "copy_part (n - ?w) (at bs (p + ?w)) = (take (n - ?w) (drop (p + ?w) bs), 0)"
      using less.IH [of "n - ?w" "p + ?w"] less.prems w False by auto
    moreover have "take ?w (drop p bs) @ take (n - ?w) (drop (p + ?w) bs) = take n (drop p bs)"
      using take_add [of ?w "n - ?w" "drop p bs"] w by (simp add: add.commute)
    ultimately show ?thesis using False by (subst copy_part.simps) simp
  qed
qed

definition part_chunk :: "u32 \<Rightarrow> nat \<Rightarrow> wav_data_chunk" where
  "part_chunk rate n = \<lparr>wc_channels = 17, wc_sampleRate = rate, wc_bitsPerSample = 16, wc_dataOffset = 44, wc_dataSize = n\<rparr>"

definition data_size :: "u8 list \<Rightarrow> nat" where
  "data_size pcm = length pcm div 2 * 34"

lemma length_data [simp]: "length (multichannel_data 17 t pcm) = data_size pcm"
  by (simp add: length_multichannel data_size_def)

lemma locate_pcm:
  assumes "fs path = Some (pcm_file pcm ch rate)" "1 < length pcm" "data_size pcm < 2 ^ 32"
  shows "locateWavData fs path = Inr (part_chunk rate (data_size pcm))"
proof -
  let ?n = "of_nat (data_size pcm) :: u32"
  have n: "unat ?n = data_size pcm" using unat_size assms(3) by blast
  have "?n \<noteq> 0" using n assms(2) by (auto simp: data_size_def unat_eq_0 [symmetric])
  have even: "even (unat ?n)" unfolding n by (simp add: data_size_def)
  define W where "W = pcm_file pcm ch rate"
  have "length W = 44 + data_size pcm" by (simp add: W_def pcm_file_def wav_file_def)
  then have "chunk_header (at W (44 + data_size pcm)) = None" by (intro chunk_header_end) simp
  then have "locate_loop path (skip_padded ?n (at W 44)) info True = Inr (info, True)" for info
    using n by (subst skip_padded_even [OF even]) (simp add: locate_loop.simps)
  then show ?thesis
    using locate_of_header [of fs path _ _ _ _ _ _ ?n] assms(1) \<open>?n \<noteq> 0\<close> n
    by (simp add: W_def pcm_file_def wav_file_def part_chunk_def)
qed

lemma locate_parts_all:
  assumes "\<forall>c \<in> set chunks. \<exists>n. c = part_chunk rate n"
    "list_all2 (\<lambda>part pcm. locateWavData fs part = Inr (part_chunk rate (data_size pcm))) parts pcms"
  shows "locate_parts fs chunks parts = Inr (chunks @ map (\<lambda>pcm. part_chunk rate (data_size pcm)) pcms)"
  using assms(2,1)
proof (induction parts pcms arbitrary: chunks rule: list_all2_induct)
  case (Cons part parts pcm pcms)
  have "\<exists>n. hd (chunks @ [part_chunk rate (data_size pcm)]) = part_chunk rate n"
    using Cons.prems by (cases chunks) auto
  then obtain n where "hd (chunks @ [part_chunk rate (data_size pcm)]) = part_chunk rate n" by blast
  then show ?case using Cons by (simp add: part_chunk_def Let_def)
qed simp

lemma copy_parts_all:
  assumes "list_all2 (\<lambda>part pcm. fs part = Some (pcm_file pcm ch rate)) parts pcms"
  shows "copy_parts fs m (zip parts (map (\<lambda>pcm. part_chunk rate (data_size pcm)) pcms)) =
    (concat (map (multichannel_data 17 (ch - 1)) pcms), map (\<lambda>pcm. if m = 0 then 0 else data_size pcm div m) pcms, None)"
  using assms
proof (induction parts pcms rule: list_all2_induct)
  case (Cons part parts pcm pcms)
  have "copy_part (data_size pcm) (at (pcm_file pcm ch rate) 44) = (multichannel_data 17 (ch - 1) pcm, 0)"
    by (subst copy_part_all) (simp_all add: pcm_file_def wav_file_def)
  then show ?case using Cons by (simp add: part_chunk_def seek_beg_def open_stream_def Let_def)
qed simp

lemma mono_sample_append:
  assumes "even (length xs)"
  shows "i < length xs div 2 \<Longrightarrow> mono_sample (xs @ ys) i = mono_sample xs i"
    "mono_sample (xs @ ys) (length xs div 2 + j) = mono_sample ys j"
proof -
  obtain m where m: "length xs = 2 * m" using assms by (rule evenE)
  show "i < length xs div 2 \<Longrightarrow> mono_sample (xs @ ys) i = mono_sample xs i" by (simp add: mono_sample_def m)
  have "drop (2 * m + 2 * j) (xs @ ys) = drop (2 * j) ys" using m by simp
  then show "mono_sample (xs @ ys) (length xs div 2 + j) = mono_sample ys j" by (simp add: mono_sample_def m distrib_left)
qed

lemma multichannel_append:
  assumes "even (length xs)"
  shows "multichannel_data n t (xs @ ys) = multichannel_data n t xs @ multichannel_data n t ys"
proof -
  let ?f = "\<lambda>pcm i. concat (map (\<lambda>ch. if ch = unat t then mono_sample pcm i else le16_bytes 0) [0..<n])"
  have len: "length (xs @ ys) div 2 = length xs div 2 + length ys div 2" using assms by auto
  have "map (?f (xs @ ys)) [0..<length xs div 2] = map (?f xs) [0..<length xs div 2]"
    by (intro map_cong refl) (simp add: mono_sample_append(1) [OF assms] cong: if_cong)
  moreover have shift: "map g [a..<a + b] = map (\<lambda>j. g (a + j)) [0..<b]" for g :: "nat \<Rightarrow> u8 list" and a b
    by (induction b) simp_all
  have "map (?f (xs @ ys)) [length xs div 2..<length xs div 2 + length ys div 2] = map (?f ys) [0..<length ys div 2]"
    unfolding shift mono_sample_append(2) [OF assms] ..
  ultimately show ?thesis
    unfolding multichannel_data_def len by (simp only: upt_add_eq_append [OF le0] map_append concat_append)
qed

lemma multichannel_concat:
  "\<forall>pcm \<in> set pcms. even (length pcm) \<Longrightarrow> concat (map (multichannel_data n t) pcms) = multichannel_data n t (concat pcms)"
  by (induction pcms) (simp_all add: multichannel_append, simp add: multichannel_data_def)

lemma data_size_sum:
  "\<forall>pcm \<in> set pcms. even (length pcm) \<Longrightarrow> sum_list (map data_size pcms) = data_size (concat pcms)"
proof (induction pcms)
  case (Cons pcm pcms)
  then obtain m where "length pcm = 2 * m" by (auto elim: evenE)
  then show ?case using Cons by (simp add: data_size_def distrib_right)
qed (simp add: data_size_def)


definition recorded :: "files \<Rightarrow> u16 \<Rightarrow> u32 \<Rightarrow> string list \<Rightarrow> u8 list list \<Rightarrow> bool" where
  "recorded fs ch rate parts pcms \<longleftrightarrow>
     list_all2 (\<lambda>part pcm. fs part = Some (pcm_file pcm ch rate) \<and> pcm \<noteq> [] \<and> even (length pcm)) parts pcms"

lemma recorded_chunks:
  assumes parts: "recorded fs ch rate parts pcms" and size: "data_size (concat pcms) < 2 ^ 32"
  shows "\<forall>pcm \<in> set pcms. even (length pcm)" "length pcms = length parts"
    "locate_parts fs [] parts = Inr (map (\<lambda>pcm. part_chunk rate (data_size pcm)) pcms)"
proof -
  show even: "\<forall>pcm \<in> set pcms. even (length pcm)"
    using parts by (auto simp: recorded_def list_all2_conv_all_nth in_set_conv_nth)
  show len: "length pcms = length parts" using parts by (simp add: recorded_def list_all2_lengthD)
  have "list_all2 (\<lambda>part pcm. locateWavData fs part = Inr (part_chunk rate (data_size pcm))) parts pcms"
  proof (rule list_all2_all_nthI)
    fix i assume i: "i < length parts"
    then have p: "fs (parts ! i) = Some (pcm_file (pcms ! i) ch rate)" "pcms ! i \<noteq> []" "even (length (pcms ! i))"
      using parts by (auto simp: recorded_def list_all2_conv_all_nth)
    have "data_size (pcms ! i) \<le> sum_list (map data_size pcms)" using i len by (intro member_le_sum_list) auto
    then have "data_size (pcms ! i) < 2 ^ 32" using size data_size_sum [OF even] by simp
    moreover have "length (pcms ! i) \<noteq> 1" "length (pcms ! i) \<noteq> 0" using p(2,3) by auto
    then have "1 < length (pcms ! i)" by linarith
    ultimately show "locateWavData fs (parts ! i) = Inr (part_chunk rate (data_size (pcms ! i)))" using locate_pcm p(1) by blast
  qed (simp add: len)
  from locate_parts_all [OF _ this, of "[]"]
  show "locate_parts fs [] parts = Inr (map (\<lambda>pcm. part_chunk rate (data_size pcm)) pcms)" by simp
qed

definition stitched_file :: "u8 list list \<Rightarrow> u16 \<Rightarrow> u32 \<Rightarrow> u8 list \<Rightarrow> u8 list" where
  "stitched_file pcms ch rate chunk = wav_file (of_nat (36 + data_size (concat pcms) + length chunk)) 17 rate (rate * 17 * 2) 34 16
     (multichannel_data 17 (ch - 1) (concat pcms)) chunk"

lemma stitch_result:
  assumes d: "disk_works d" and out: "out \<notin> set parts" "parts \<noteq> []" and parts: "recorded fs ch rate parts pcms"
    and size: "36 + data_size (concat pcms) + length (provenance_chunk print3 17 prov) < 2 ^ 32"
  shows "\<exists>info. stitchMultichannelWavs d print3 fs parts out prov =
    (fs(out \<mapsto> stitched_file pcms ch rate (provenance_chunk print3 17 prov)), Inr info) \<and>
    length (partDurationsMs info) = length parts"
proof -
  have "data_size (concat pcms) < 2 ^ 32" using size by simp
  note chunks = recorded_chunks [OF parts this]
  have copied: "list_all2 (\<lambda>part pcm. (fs(out \<mapsto> [])) part = Some (pcm_file pcm ch rate)) parts pcms"
    using parts out(1) by (auto simp: recorded_def list_all2_conv_all_nth)
  have total: "sum_list (map (\<lambda>pcm. wc_dataSize (part_chunk rate (data_size pcm))) pcms) = data_size (concat pcms)"
    using data_size_sum [OF chunks(1)] by (simp add: part_chunk_def)
  have first: "hd (map (\<lambda>pcm. part_chunk rate (data_size pcm)) pcms) = part_chunk rate (data_size (hd pcms))"
    using out(2) chunks(2) by (cases pcms) auto
  let ?m = "unat rate * 17 * 2 div 1000"
  have fields: "wc_channels (part_chunk rate n) = 17" "wc_sampleRate (part_chunk rate n) = rate"
    "wc_bitsPerSample (part_chunk rate n) = 16" for n
    by (simp_all add: part_chunk_def)
  show ?thesis
    using d out(2) size chunks(2)
    by (simp add: stitchMultichannelWavs_def Let_def chunks(3) first total fields o_def disk_works_def
        copy_parts_all [OF copied] multichannel_concat [OF chunks(1)] stitched_file_def wav_file_def)
qed

text \<open>
  C20: the exchange of a streaming session is what was heard and says what was said. When its parts
  are recordings of one channel, stitching them succeeds, with one duration for each part; the mono
  file extracted from that channel of the result holds the samples of all parts in order; and the
  provenance is found behind the samples and parsed back, its tracks laid out on the 17 channels.
\<close>

theorem stitched_exchange_reads_back:
  assumes "disk_works d" "out \<notin> set parts" "parts \<noteq> []" "recorded fs ch rate parts pcms"
    and "data_size (concat pcms) + 2 ^ 21 < 2 ^ 32" "1 \<le> unat ch" "unat ch \<le> 17" "\<not> provenance_empty prov"
    and "length (buildIxml print3 prov 17) \<le> kMaxIxmlPayloadBytes" "readable print3 strtod prov"
  shows "\<exists>fs' info doc. stitchMultichannelWavs d print3 fs parts out prov = (fs', Inr info) \<and>
    length (partDurationsMs info) = length parts \<and>
    extractChannelToMonoWav d fs' out lane (int (unat ch)) =
      (fs'(lane \<mapsto> wrapMonoPcmAsWav print3 (concat pcms) rate None), Inr ()) \<and>
    readIxmlChunk fs' out = Some doc \<and> parseIxmlProvenance strtod doc = prov\<lparr>wp_tracks := laid_out 17 (wp_tracks prov)\<rparr>"
proof -
  let ?doc = "buildIxml print3 prov 17" and ?F = "length (concat pcms) div 2"
  let ?g = "\<lambda>i c. if c = unat (ch - 1) then mono_sample (concat pcms) i else le16_bytes 0"
  have chunk: "provenance_chunk print3 17 prov = makeIxmlChunk ?doc" using assms(8) by (simp add: provenance_chunk_def)
  have small: "length ?doc \<le> 2 ^ 20" using assms(9) by (simp add: kMaxIxmlPayloadBytes_def)
  then have "length (makeIxmlChunk ?doc) \<le> 9 + 2 ^ 20" using length_chunk [of ?doc] by simp
  then have size: "36 + data_size (concat pcms) + length (provenance_chunk print3 17 prov) < 2 ^ 32" using assms(5) chunk by simp
  obtain info where st: "stitchMultichannelWavs d print3 fs parts out prov =
      (fs(out \<mapsto> stitched_file pcms ch rate (makeIxmlChunk ?doc)), Inr info)" "length (partDurationsMs info) = length parts"
    using stitch_result [OF assms(1,2,3,4) size] chunk by auto
  let ?fs = "fs(out \<mapsto> stitched_file pcms ch rate (makeIxmlChunk ?doc))"
  have "\<forall>pcm \<in> set pcms. even (length pcm)" using recorded_chunks(1) [OF assms(4)] assms(5) by simp
  then have "even (length (concat pcms))" by (induction pcms) simp_all
  then have all: "concat (map (mono_sample (concat pcms)) [0..<?F]) = concat pcms"
    using mono_samples_all [of "concat pcms"] by simp
  have "?fs out = Some (wav_file (of_nat (36 + data_size (concat pcms) + length (makeIxmlChunk ?doc))) (of_nat 17) rate (rate * 17 * 2) 34 16
      (interleaved 17 ?F ?g) (makeIxmlChunk ?doc))"
    by (simp add: stitched_file_def multichannel_interleaved)
  then have "extractChannelToMonoWav d ?fs out lane (int (unat ch)) =
      (?fs(lane \<mapsto> wrapMonoPcmAsWav print3 (concat (map (\<lambda>i. ?g i (unat ch - 1)) [0..<?F])) rate None), Inr ())"
    using assms(5,6,7) by (intro extract_file [OF assms(1)]) (auto simp: length_mono_sample data_size_def)
  moreover have "unat (ch - 1) = unat ch - 1" using assms(6) by (simp add: unat_sub word_le_nat_alt)
  moreover have "readIxmlChunk ?fs out = Some ?doc"
    using assms(5,9) by (intro ixml_of_file) (auto simp: stitched_file_def data_size_def length_multichannel)
  moreover have "parseIxmlProvenance strtod ?doc = prov\<lparr>wp_tracks := laid_out 17 (wp_tracks prov)\<rparr>"
    by (rule parse_build) (simp, rule assms(10))
  ultimately show ?thesis using st all by (intro exI [of _ ?fs] exI [of _ info] exI [of _ ?doc]) simp
qed


lemma length_dec: "length (dec n) \<le> n + 1"
proof (induction n rule: dec.induct)
  case (1 n)
  then show ?case by (subst dec.simps) (auto simp: div_le_dividend intro: order_trans)
qed

lemma length_concat_bound: "\<forall>x \<in> set xs. length x \<le> b \<Longrightarrow> length (concat xs) \<le> length xs * b"
  by (induction xs) auto

definition short_provenance :: "nat wav_provenance" where
  "short_provenance = \<lparr>fileUid = [], take_name = [], circled = None, sourceScriptId = ''s'', wp_title = ''Hi'',
     generationIds = [''g''], wp_tracks = [], wp_script = [\<lparr>sl_speaker = ''A'', sl_text = ''x''\<rparr>],
     wp_lipsync = [], wordAlignment = [], wp_music = None\<rparr>"

lemma short_readable: "readable ms_print ms_read short_provenance"
  by (simp add: readable_def short_provenance_def line_ok_def lipsync_rows_def word_rows_def legal_char_def)

lemma short_document: "length (buildIxml ms_print short_provenance 17) \<le> kMaxIxmlPayloadBytes"
proof -
  have names: "nameByChannel 17 [] ! c = []" if "c < 17" for c using that by (simp add: nameByChannel_def)
  have "length (emitTrack (dec (c + 1)) []) \<le> 200" if "c < 17" for c
    using that length_dec [of "c + 1"] by (simp add: emitTrack_def newline_def)
  then have "length (concat (map (\<lambda>c. emitTrack (dec (c + 1)) (nameByChannel 17 [] ! c)) [0..<17])) \<le>
      length (map (\<lambda>c. emitTrack (dec (c + 1)) (nameByChannel 17 [] ! c)) [0..<17]) * 200"
    by (intro length_concat_bound) (auto simp: names)
  moreover have "length (dec 17) \<le> 18" using length_dec [of 17] by simp
  ultimately have "length (build_track_list 17 []) \<le> 4000" by (simp add: build_track_list_def newline_def)
  moreover have "length (build_header short_provenance) \<le> 1000" "length (build_user short_provenance) \<le> 1000"
    by (simp_all add: build_header_def build_user_def short_provenance_def newline_def xmlEscape_def escape_char_def
        legal_char_def script_blob_def joinGenerationIds_def)
  ultimately show ?thesis
    by (simp add: buildIxml_def kMaxIxmlPayloadBytes_def newline_def short_provenance_def build_music_def build_lipsync_def build_words_def)
qed

theorem stitched_exchange_reads_back_witness:
  "\<exists>fs' info doc. stitchMultichannelWavs plain_disk ms_print
       [''a'' \<mapsto> pcm_file [1, 2] 2 48000, ''b'' \<mapsto> pcm_file [3, 4] 2 48000] [''a'', ''b''] ''c'' short_provenance = (fs', Inr info) \<and>
    length (partDurationsMs info) = length [''a'', ''b''] \<and>
    extractChannelToMonoWav plain_disk fs' ''c'' ''m'' 2 = (fs'(''m'' \<mapsto> wrapMonoPcmAsWav ms_print [1, 2, 3, 4] 48000 None), Inr ()) \<and>
    readIxmlChunk fs' ''c'' = Some doc \<and>
    parseIxmlProvenance ms_read doc = short_provenance\<lparr>wp_tracks := laid_out 17 (wp_tracks short_provenance)\<rparr>"
proof -
  let ?fs = "[''a'' \<mapsto> pcm_file [1, 2] 2 48000, ''b'' \<mapsto> pcm_file [3, 4] 2 48000]"
  have r: "recorded ?fs 2 48000 [''a'', ''b''] [[1, 2], [3, 4]]" by (simp add: recorded_def)
  have e: "\<not> provenance_empty short_provenance" by (simp add: provenance_empty_def short_provenance_def)
  show ?thesis
    using stitched_exchange_reads_back [OF plain_disk_works _ _ r _ _ _ e short_document short_readable, of "''c''" "''m''"]
    by (simp add: data_size_def)
qed

end
