(* ===== verification/Dialog_Wav.thy ===== *)
theory Dialog_Wav
  imports Wav_Stitch Rtp_Clock
begin

text \<open>
  The sound file of a rendered dialog (src/src/server/voice/DialogWav.cpp, with the two structs of
  DialogPipeline.h): every voice on the channel of its creature, the background music on the last one,
  written in blocks of 4096 frames. Spans and logs are not modelled.
\<close>

section \<open>Data\<close>

record dialog_voice =
  voiceId :: string
  voice_pcm :: "u16 list"

record dialog_assembled =
  perCreature :: "dialog_voice list"
  totalSamples :: nat
  da_sampleRate :: u32

definition dialogPlaybackSampleCount :: "dialog_assembled \<Rightarrow> u16 list \<Rightarrow> nat" where
  "dialogPlaybackSampleCount a music = max (totalSamples a) (length music)"

section \<open>Lanes\<close>

text \<open>The channel of each voice, checked one after the other; \<open>used\<close> are the channels taken.\<close>

fun resolve_lanes :: "nat \<Rightarrow> (string \<Rightarrow> u16 option) \<Rightarrow> u16 set \<Rightarrow> dialog_voice list \<Rightarrow> (u16 list \<times> nat) list result" where
  "resolve_lanes n channelOf used [] = Inr []"
| "resolve_lanes n channelOf used (v # vs) = (case channelOf (voiceId v) of
     None \<Rightarrow> wav_error InvalidData (''writeDialogWav: voice '' @ quoted (voiceId v) @ '' is in the scene but not in the channel map'')
   | Some ch \<Rightarrow>
       if unat ch < 1 \<or> RTP_STREAMING_CHANNELS \<le> unat ch then
         wav_error InvalidData (''writeDialogWav: voice '' @ quoted (voiceId v) @ '' has audio_channel '' @ dec (unat ch) @
           '' (must be 1..'' @ dec (RTP_STREAMING_CHANNELS - 1) @ ''; '' @ dec RTP_STREAMING_CHANNELS @ '' is BGM)'')
       else if ch \<in> used then
         wav_error InvalidData (''writeDialogWav: audio_channel '' @ dec (unat ch) @ '' is assigned to more than one voice in this scene'')
       else if length (voice_pcm v) \<noteq> n then
         wav_error InvalidData (''writeDialogWav: voice '' @ quoted (voiceId v) @ '' PCM length '' @ dec (length (voice_pcm v)) @
           '' != assembled totalSamples '' @ dec n)
       else (case resolve_lanes n channelOf (insert ch used) vs of
           Inl e \<Rightarrow> Inl e
         | Inr lanes \<Rightarrow> Inr ((voice_pcm v, unat ch - 1) # lanes)))"

section \<open>Interleaving\<close>

definition kInterleaveBlockFrames :: nat where
  "kInterleaveBlockFrames = 4096"

text \<open>One lane of a block: \<open>n\<close> samples of the source from \<open>base\<close> on.\<close>

definition write_lane :: "nat \<Rightarrow> nat \<Rightarrow> u16 list \<times> nat \<Rightarrow> u16 list \<Rightarrow> u16 list" where
  "write_lane base n src block = fold (\<lambda>frame b. b[frame * RTP_STREAMING_CHANNELS + snd src := fst src ! (base + frame)]) [0..<n] block"

definition dialog_block :: "(u16 list \<times> nat) list \<Rightarrow> u16 list \<Rightarrow> nat \<Rightarrow> nat \<Rightarrow> nat \<Rightarrow> u16 list" where
  "dialog_block lanes music n play base =
     (let frames = min kInterleaveBlockFrames (play - base);
          silent = replicate (frames * RTP_STREAMING_CHANNELS) 0;
          spoken = (if base < n then fold (write_lane base (min frames (n - base))) lanes silent else silent)
      in if base < length music
         then write_lane base (min frames (length music - base)) (music, RTP_STREAMING_CHANNELS - 1) spoken
         else spoken)"

function dialog_samples :: "(u16 list \<times> nat) list \<Rightarrow> u16 list \<Rightarrow> nat \<Rightarrow> nat \<Rightarrow> nat \<Rightarrow> u16 list" where
  "dialog_samples lanes music n play base =
     (if base < play then dialog_block lanes music n play base @
        dialog_samples lanes music n play (base + kInterleaveBlockFrames) else [])"
  by pat_completeness auto
termination by (relation "measure (\<lambda>(_, _, _, play, base). play - base)") (auto simp: kInterleaveBlockFrames_def)

declare dialog_samples.simps [simp del]

definition samples_bytes :: "u16 list \<Rightarrow> u8 list" where
  "samples_bytes xs = concat (map le16_bytes xs)"

section \<open>The file\<close>

definition writeDialogWav ::
    "disk \<Rightarrow> ('d \<Rightarrow> string) \<Rightarrow> files \<Rightarrow> dialog_assembled \<Rightarrow> (string \<Rightarrow> u16 option) \<Rightarrow> string \<Rightarrow> 'd wav_provenance option \<Rightarrow>
     u16 list \<Rightarrow> files \<times> unit result" where
  "writeDialogWav d print3 fs a channelOf path po music =
     (let play = dialogPlaybackSampleCount a music
      in if da_sampleRate a \<noteq> of_int RTP_SRATE then
           (fs, wav_error InvalidData (''writeDialogWav: sample rate '' @ dec (unat (da_sampleRate a)) @
              '' is not the required '' @ dec_int RTP_SRATE @ '' Hz''))
         else if totalSamples a = 0 then (fs, wav_error InvalidData ''writeDialogWav: assembled scene has 0 samples'')
         else if perCreature a = [] then (fs, wav_error InvalidData ''writeDialogWav: assembled scene has no voices'')
         else (case resolve_lanes (totalSamples a) channelOf {} (perCreature a) of
             Inl e \<Rightarrow> (fs, Inl e)
           | Inr lanes \<Rightarrow>
               (let dataBytes = play * RTP_STREAMING_CHANNELS * 2
                in if 2 ^ 32 - 1 - 44 < dataBytes then
                     (fs, wav_error InvalidData (''writeDialogWav: output '' @ dec dataBytes @
                        '' bytes exceeds the 4 GiB WAV size-field cap (scene too long)''))
                   else
                     (let chunk0 = (case po of None \<Rightarrow> [] | Some p \<Rightarrow> provenance_chunk print3 RTP_STREAMING_CHANNELS p);
                          chunk = (if 2 ^ 32 - 1 < 36 + dataBytes + length chunk0 then [] else chunk0)
                      in (case create_file d fs path of
                          None \<Rightarrow> (fs, wav_error InternalError (''writeDialogWav: failed to open '' @ path @ '' for writing''))
                        | Some fs1 \<Rightarrow>
                            (case write_file d fs1 path
                               (wav_header (of_nat (36 + dataBytes + length chunk)) (of_nat RTP_STREAMING_CHANNELS) (of_int RTP_SRATE)
                                  (of_int RTP_SRATE * of_nat RTP_STREAMING_CHANNELS * 2) (of_nat (RTP_STREAMING_CHANNELS * 2)) 16
                                  (of_nat dataBytes) @
                                samples_bytes (dialog_samples lanes music (totalSamples a) play 0) @ chunk) of (fs2, ok) \<Rightarrow>
                             if ok then (fs2, Inr ())
                             else (fs2, wav_error InternalError (''writeDialogWav: write or flush failed for '' @ path))))))))"


section \<open>What is on the channels\<close>

definition silent_after :: "nat \<Rightarrow> u16 list \<Rightarrow> u16 list" where
  "silent_after n xs = xs @ replicate (n - length xs) 0"

definition lane_sample :: "(u16 list \<times> nat) list \<Rightarrow> u16 list \<Rightarrow> nat \<Rightarrow> nat \<Rightarrow> nat \<Rightarrow> u16" where
  "lane_sample lanes music n f c =
     (if c = 16 \<and> f < length music then music ! f
      else (case find (\<lambda>l. snd l = c) lanes of None \<Rightarrow> 0 | Some l \<Rightarrow> if f < n then fst l ! f else 0))"

lemma length_write_lane [simp]: "length (write_lane base n src block) = length block"
proof -
  have "length (fold (\<lambda>frame b. b[i frame := x frame]) js block) = length block" for i x js and block :: "u16 list"
    by (induction js arbitrary: block) simp_all
  then show ?thesis by (simp add: write_lane_def)
qed

lemma nth_write_lane:
  assumes "snd src < 17" "n * 17 \<le> length block" "j < length block"
  shows "write_lane base n src block ! j = (if j mod 17 = snd src \<and> j div 17 < n then fst src ! (base + j div 17) else block ! j)"
  using assms(2)
proof (induction n)
  case (Suc n)
  then have IH: "write_lane base n src block ! j =
      (if j mod 17 = snd src \<and> j div 17 < n then fst src ! (base + j div 17) else block ! j)" by simp
  have step: "write_lane base (Suc n) src block = (write_lane base n src block)[n * 17 + snd src := fst src ! (base + n)]"
    by (simp add: write_lane_def RTP_STREAMING_CHANNELS_def)
  have "n * 17 + snd src = j \<longleftrightarrow> j div 17 = n \<and> j mod 17 = snd src"
    using assms(1) div_mult_mod_eq [of j 17] by (metis add_right_cancel div_mult_self4 div_less mod_less mod_mult_self4
        mult.commute add.commute add_0 zero_neq_numeral mod_mult_self3 div_mult_self3)
  then show ?case
    using IH Suc.prems assms(1,3) unfolding step by (auto simp: nth_list_update)
qed (simp add: write_lane_def)

lemma nth_write_lanes:
  assumes "\<forall>l \<in> set lanes. snd l < 17" "n * 17 \<le> length block" "j < length block" "distinct (map snd lanes)"
  shows "fold (write_lane base n) lanes block ! j =
    (case find (\<lambda>l. snd l = j mod 17) lanes of None \<Rightarrow> block ! j
     | Some l \<Rightarrow> if j div 17 < n then fst l ! (base + j div 17) else block ! j)"
  using assms
proof (induction lanes arbitrary: block)
  case (Cons l lanes)
  then have IH: "fold (write_lane base n) lanes (write_lane base n l block) ! j =
      (case find (\<lambda>l. snd l = j mod 17) lanes of None \<Rightarrow> write_lane base n l block ! j
       | Some l' \<Rightarrow> if j div 17 < n then fst l' ! (base + j div 17) else write_lane base n l block ! j)" by simp
  have here: "write_lane base n l block ! j = (if j mod 17 = snd l \<and> j div 17 < n then fst l ! (base + j div 17) else block ! j)"
    using Cons.prems by (intro nth_write_lane) simp_all
  show ?case
  proof (cases "snd l = j mod 17")
    case True
    have "snd l \<notin> snd ` set lanes" using Cons.prems(4) by simp
    then have "find (\<lambda>l. snd l = j mod 17) lanes = None" using True by (force simp: find_None_iff)
    then show ?thesis using True IH here by simp
  next
    case False
    then show ?thesis using IH here by (simp split: option.splits)
  qed
qed simp

lemma length_write_lanes [simp]: "length (fold (write_lane base n) lanes block) = length block"
  by (induction lanes arbitrary: block) simp_all

lemma dialog_block_samples:
  assumes "\<forall>l \<in> set lanes. snd l < 16" "distinct (map snd lanes)" "base < play" "n \<le> play" "length music \<le> play"
  defines "frames \<equiv> min kInterleaveBlockFrames (play - base)"
  shows "dialog_block lanes music n play base =
    map (\<lambda>j. lane_sample lanes music n (base + j div 17) (j mod 17)) [0..<frames * 17]"
proof (rule nth_equalityI)
  let ?silent = "replicate (frames * 17) (0 :: u16)"
  let ?spoken = "if base < n then fold (write_lane base (min frames (n - base))) lanes ?silent else ?silent"
  have block: "dialog_block lanes music n play base =
      (if base < length music then write_lane base (min frames (length music - base)) (music, 16) ?spoken else ?spoken)"
    by (simp add: dialog_block_def frames_def RTP_STREAMING_CHANNELS_def Let_def)
  have len: "length ?spoken = frames * 17" by simp
  show "length (dialog_block lanes music n play base) = length (map (\<lambda>j. lane_sample lanes music n (base + j div 17) (j mod 17)) [0..<frames * 17])"
    using len by (simp add: block)
  fix j assume "j < length (dialog_block lanes music n play base)"
  then have j: "j < frames * 17" using len by (simp add: block split: if_splits)
  then have frame: "j div 17 < frames" by (simp add: less_mult_imp_div_less)
  have lanes17: "\<forall>l \<in> set lanes. snd l < 17" using assms(1) by force
  have spoken: "?spoken ! j = (case find (\<lambda>l. snd l = j mod 17) lanes of None \<Rightarrow> 0
      | Some l \<Rightarrow> if base + j div 17 < n then fst l ! (base + j div 17) else 0)"
    using j frame nth_write_lanes [OF lanes17 _ _ assms(2), of "min frames (n - base)" ?silent j base]
    by (auto split: option.splits)
  have "dialog_block lanes music n play base ! j =
      (if j mod 17 = 16 \<and> base + j div 17 < length music then music ! (base + j div 17) else ?spoken ! j)"
    using j frame len nth_write_lane [of "(music, 16)" "min frames (length music - base)" ?spoken j base]
    by (auto simp: block)
  then show "dialog_block lanes music n play base ! j =
      map (\<lambda>j. lane_sample lanes music n (base + j div 17) (j mod 17)) [0..<frames * 17] ! j"
    using j by (simp add: spoken lane_sample_def split: option.splits)
qed


lemma dialog_samples_all:
  assumes "\<forall>l \<in> set lanes. snd l < 16" "distinct (map snd lanes)" "n \<le> play" "length music \<le> play"
  shows "dialog_samples lanes music n play base =
    map (\<lambda>j. lane_sample lanes music n (base + j div 17) (j mod 17)) [0..<(play - base) * 17]"
proof (induction "play - base" arbitrary: base rule: less_induct)
  case less
  show ?case
  proof (cases "base < play")
    case False
    then show ?thesis by (simp add: dialog_samples.simps)
  next
    case True
    let ?f = "\<lambda>base j. lane_sample lanes music n (base + j div 17) (j mod 17)"
    let ?next = "base + kInterleaveBlockFrames" and ?frames = "min kInterleaveBlockFrames (play - base)"
    have "play - ?next < play - base" using True by (simp add: kInterleaveBlockFrames_def)
    note IH = less.hyps [OF this]
    have "map (?f ?next) [0..<(play - ?next) * 17] = map (?f base) [?frames * 17..<?frames * 17 + (play - ?next) * 17]"
    proof (cases "?next \<le> play")
      case le: True
      then have frames: "?frames = kInterleaveBlockFrames" by simp
      have shift: "map g [a..<a + b] = map (\<lambda>j. g (a + j)) [0..<b]" for g :: "nat \<Rightarrow> u16" and a b
        by (induction b) simp_all
      show ?thesis unfolding frames shift by (simp add: ac_simps)
    qed simp
    then have "dialog_samples lanes music n play ?next = map (?f base) [?frames * 17..<?frames * 17 + (play - ?next) * 17]"
      using IH by simp
    moreover have "?frames + (play - ?next) = play - base" using True by (simp add: min_def)
    then have "?frames * 17 + (play - ?next) * 17 = (play - base) * 17" by (metis distrib_right)
    moreover have "dialog_samples lanes music n play base = map (?f base) [0..<?frames * 17] @ dialog_samples lanes music n play ?next"
      using True dialog_block_samples [OF assms(1,2) True assms(3,4)] by (subst dialog_samples.simps) simp
    ultimately show ?thesis using upt_add_eq_append [of 0 "?frames * 17" "(play - ?next) * 17"] by (simp only: map_append)
  qed
qed

lemma samples_interleaved:
  "samples_bytes (map (\<lambda>j. h (j div n) (j mod n)) [0..<F * n]) = interleaved n F (\<lambda>i c. le16_bytes (h i c))" if "0 < n"
proof (induction F)
  case (Suc F)
  have "map (\<lambda>j. h (j div n) (j mod n)) [F * n..<F * n + n] = map (h F) [0..<n]"
  proof (rule nth_equalityI)
    fix i assume "i < length (map (\<lambda>j. h (j div n) (j mod n)) [F * n..<F * n + n])"
    then have "i < n" by simp
    then show "map (\<lambda>j. h (j div n) (j mod n)) [F * n..<F * n + n] ! i = map (h F) [0..<n] ! i"
      using \<open>0 < n\<close> by (simp add: div_add1_eq)
  qed simp
  then show ?case
    using Suc by (simp add: interleaved_def samples_bytes_def upt_add_eq_append [of 0 "F * n" n] add.commute [of n "F * n"] o_def)
qed (simp add: interleaved_def samples_bytes_def)


section \<open>Accepted scenes\<close>

definition voices_ok :: "nat \<Rightarrow> (string \<Rightarrow> u16 option) \<Rightarrow> dialog_voice list \<Rightarrow> bool" where
  "voices_ok n channelOf vs \<longleftrightarrow>
     list_all (\<lambda>v. case channelOf (voiceId v) of None \<Rightarrow> False | Some ch \<Rightarrow> 1 \<le> unat ch \<and> unat ch < 17 \<and> length (voice_pcm v) = n) vs \<and>
     distinct (map (\<lambda>v. channelOf (voiceId v)) vs)"

definition voice_lane :: "(string \<Rightarrow> u16 option) \<Rightarrow> dialog_voice \<Rightarrow> u16 list \<times> nat" where
  "voice_lane channelOf v = (voice_pcm v, unat (the (channelOf (voiceId v))) - 1)"

lemma resolve_lanes_spec:
  "if voices_ok n channelOf vs \<and> (\<forall>v \<in> set vs. \<forall>ch \<in> used. channelOf (voiceId v) \<noteq> Some ch)
   then resolve_lanes n channelOf used vs = Inr (map (voice_lane channelOf) vs)
   else \<exists>msg. resolve_lanes n channelOf used vs = Inl (ServerError InvalidData msg)"
proof (induction vs arbitrary: used)
  case Nil
  then show ?case by (simp add: voices_ok_def)
next
  case (Cons v vs)
  show ?case
  proof (cases "channelOf (voiceId v)")
    case None
    then show ?thesis by (simp add: voices_ok_def wav_error_def)
  next
    case (Some ch)
    show ?thesis
    proof (cases "1 \<le> unat ch \<and> unat ch < 17 \<and> ch \<notin> used \<and> length (voice_pcm v) = n")
      case False
      then have "\<exists>msg. resolve_lanes n channelOf used (v # vs) = Inl (ServerError InvalidData msg)"
        using Some by (auto simp: wav_error_def RTP_STREAMING_CHANNELS_def)
      then show ?thesis using Some False by (auto simp: voices_ok_def)
    next
      case True
      then have "resolve_lanes n channelOf used (v # vs) = (case resolve_lanes n channelOf (insert ch used) vs of
          Inl e \<Rightarrow> Inl e | Inr lanes \<Rightarrow> Inr ((voice_pcm v, unat ch - 1) # lanes))"
        using Some by (simp add: RTP_STREAMING_CHANNELS_def)
      moreover have "(voices_ok n channelOf vs \<and> (\<forall>v \<in> set vs. \<forall>c \<in> insert ch used. channelOf (voiceId v) \<noteq> Some c)) \<longleftrightarrow>
          voices_ok n channelOf (v # vs) \<and> (\<forall>v \<in> set (v # vs). \<forall>c \<in> used. channelOf (voiceId v) \<noteq> Some c)"
      proof -
        have "Some ch \<notin> (\<lambda>v. channelOf (voiceId v)) ` set vs \<longleftrightarrow> (\<forall>v \<in> set vs. channelOf (voiceId v) \<noteq> Some ch)"
          by force
        then show ?thesis using Some True by (simp add: voices_ok_def) blast
      qed
      ultimately show ?thesis using Cons.IH [of "insert ch used"] Some by (auto simp: voice_lane_def split: if_splits)
    qed
  qed
qed

definition scene_ok :: "dialog_assembled \<Rightarrow> (string \<Rightarrow> u16 option) \<Rightarrow> u16 list \<Rightarrow> bool" where
  "scene_ok a channelOf music \<longleftrightarrow> da_sampleRate a = 48000 \<and> totalSamples a \<noteq> 0 \<and> perCreature a \<noteq> [] \<and>
     voices_ok (totalSamples a) channelOf (perCreature a) \<and> dialogPlaybackSampleCount a music * 34 + 44 < 2 ^ 32"

definition channel_content :: "dialog_assembled \<Rightarrow> (string \<Rightarrow> u16 option) \<Rightarrow> u16 list \<Rightarrow> nat \<Rightarrow> u16 list" where
  "channel_content a channelOf music k =
     silent_after (dialogPlaybackSampleCount a music)
       (if k = 17 then music
        else (case find (\<lambda>v. channelOf (voiceId v) = Some (of_nat k)) (perCreature a) of None \<Rightarrow> [] | Some v \<Rightarrow> voice_pcm v))"

definition dialog_file :: "('d \<Rightarrow> string) \<Rightarrow> dialog_assembled \<Rightarrow> (string \<Rightarrow> u16 option) \<Rightarrow> 'd wav_provenance option \<Rightarrow> u16 list \<Rightarrow> u8 list" where
  "dialog_file print3 a channelOf po music =
     (let play = dialogPlaybackSampleCount a music;
          lanes = map (voice_lane channelOf) (perCreature a);
          chunk0 = (case po of None \<Rightarrow> [] | Some p \<Rightarrow> provenance_chunk print3 17 p);
          chunk = (if 2 ^ 32 - 1 < 36 + play * 34 + length chunk0 then [] else chunk0)
      in wav_file (of_nat (36 + play * 34 + length chunk)) 17 48000 (48000 * 17 * 2) 34 16
           (interleaved 17 play (\<lambda>f c. le16_bytes (lane_sample lanes music (totalSamples a) f c))) chunk)"


lemma find_map: "find P (map f xs) = map_option f (find (\<lambda>x. P (f x)) xs)"
  by (induction xs) simp_all

lemma find_cong_on: "\<forall>x \<in> set xs. P x = Q x \<Longrightarrow> find P xs = find Q xs"
  by (induction xs) simp_all

lemma map_silent_after: "length xs \<le> n \<Longrightarrow> map (\<lambda>f. if f < length xs then xs ! f else 0) [0..<n] = silent_after n xs"
  by (rule nth_equalityI) (auto simp: silent_after_def nth_append)

lemma lane_content:
  assumes ok: "voices_ok n channelOf vs" and k: "1 \<le> k" "k \<le> 17" and len: "n \<le> play" "length music \<le> play"
  shows "map (\<lambda>f. lane_sample (map (voice_lane channelOf) vs) music n f (k - 1)) [0..<play] =
    silent_after play (if k = 17 then music
      else (case find (\<lambda>v. channelOf (voiceId v) = Some (of_nat k)) vs of None \<Rightarrow> [] | Some v \<Rightarrow> voice_pcm v))"
proof -
  have lane: "snd (voice_lane channelOf v) = k - 1 \<longleftrightarrow> channelOf (voiceId v) = Some (of_nat k)" if v: "v \<in> set vs" for v
  proof -
    obtain ch where ch: "channelOf (voiceId v) = Some ch" "1 \<le> unat ch" "unat ch < 17"
      using ok v by (auto simp: voices_ok_def list_all_iff split: option.splits)
    have "unat (of_nat k :: u16) = k" using k by (simp add: unsigned_of_nat take_bit_nat_eq_self)
    then have "ch = of_nat k \<longleftrightarrow> unat ch = k" by (metis word_unat_eq_iff)
    then show ?thesis using ch k by (auto simp: voice_lane_def)
  qed
  have find: "find (\<lambda>l. snd l = k - 1) (map (voice_lane channelOf) vs) =
      map_option (voice_lane channelOf) (find (\<lambda>v. channelOf (voiceId v) = Some (of_nat k)) vs)"
    unfolding find_map using lane by (intro arg_cong [where f = "map_option _"] find_cong_on) blast
  show ?thesis
  proof (cases "k = 17")
    case True
    have "find (\<lambda>v. channelOf (voiceId v) = Some (of_nat k)) vs = None"
      using ok True by (auto simp: find_None_iff voices_ok_def list_all_iff split: option.splits)
    then show ?thesis using True find map_silent_after [OF len(2)] by (simp add: lane_sample_def cong: if_cong)
  next
    case False
    then have k16: "k - 1 \<noteq> 16" using k by simp
    show ?thesis
    proof (cases "find (\<lambda>v. channelOf (voiceId v) = Some (of_nat k)) vs")
      case None
      then show ?thesis
        using False find k16 by (simp add: lane_sample_def silent_after_def map_replicate_const)
    next
      case (Some v)
      then have "v \<in> set vs" by (auto simp: find_Some_iff)
      then have "length (voice_pcm v) = n" using ok by (auto simp: voices_ok_def list_all_iff split: option.splits)
      then show ?thesis
        using Some False find k16 map_silent_after [of "voice_pcm v" play] len(1) by (simp add: lane_sample_def voice_lane_def cong: if_cong)
    qed
  qed
qed

lemma scene_lanes:
  assumes "voices_ok n channelOf vs"
  shows "\<forall>l \<in> set (map (voice_lane channelOf) vs). snd l < 16" "distinct (map snd (map (voice_lane channelOf) vs))"
proof -
  have v: "\<exists>ch. channelOf (voiceId v) = Some ch \<and> 1 \<le> unat ch \<and> unat ch < 17" if "v \<in> set vs" for v
    using assms that by (auto simp: voices_ok_def list_all_iff split: option.splits)
  then show "\<forall>l \<in> set (map (voice_lane channelOf) vs). snd l < 16" by (fastforce simp: voice_lane_def)
  have "inj_on (\<lambda>ch. unat (the ch) - 1) ((\<lambda>v. channelOf (voiceId v)) ` set vs)"
  proof (rule inj_onI)
    fix x y assume xy: "x \<in> (\<lambda>v. channelOf (voiceId v)) ` set vs" "y \<in> (\<lambda>v. channelOf (voiceId v)) ` set vs"
      "unat (the x) - 1 = unat (the y) - 1"
    then obtain v1 v2 where vs: "v1 \<in> set vs" "v2 \<in> set vs" "x = channelOf (voiceId v1)" "y = channelOf (voiceId v2)" by blast
    obtain a b where "x = Some a" "y = Some b" "1 \<le> unat a" "1 \<le> unat b" using v [OF vs(1)] v [OF vs(2)] vs(3,4) by auto
    then show "x = y" using xy(3) by (auto simp: word_unat_eq_iff)
  qed
  then have "distinct (map (\<lambda>ch. unat (the ch) - 1) (map (\<lambda>v. channelOf (voiceId v)) vs))"
    using assms by (subst distinct_map) (simp add: voices_ok_def)
  moreover have "map snd (map (voice_lane channelOf) vs) = map (\<lambda>ch. unat (the ch) - 1) (map (\<lambda>v. channelOf (voiceId v)) vs)"
    by (simp add: voice_lane_def)
  ultimately show "distinct (map snd (map (voice_lane channelOf) vs))" by (simp only:)
qed

lemma written_dialog:
  assumes "disk_works d"
  shows "if scene_ok a channelOf music
    then writeDialogWav d print3 fs a channelOf path po music = (fs(path \<mapsto> dialog_file print3 a channelOf po music), Inr ())
    else \<exists>msg. writeDialogWav d print3 fs a channelOf path po music = (fs, Inl (ServerError InvalidData msg))"
proof -
  note lanes = resolve_lanes_spec [of "totalSamples a" channelOf "perCreature a" "{}"]
  have rate: "(of_int RTP_SRATE :: u32) = 48000" by (simp add: RTP_SRATE_def)
  let ?play = "dialogPlaybackSampleCount a music"
  show ?thesis
  proof (cases "scene_ok a channelOf music")
    case False
    then have "\<exists>msg. writeDialogWav d print3 fs a channelOf path po music = (fs, Inl (ServerError InvalidData msg))"
      using lanes by (auto simp: writeDialogWav_def scene_ok_def Let_def rate wav_error_def RTP_STREAMING_CHANNELS_def split: if_splits)
    then show ?thesis using False by simp
  next
    case True
    then have ok: "voices_ok (totalSamples a) channelOf (perCreature a)" by (simp add: scene_ok_def)
    let ?lanes = "map (voice_lane channelOf) (perCreature a)"
    have "totalSamples a \<le> ?play" "length music \<le> ?play" by (simp_all add: dialogPlaybackSampleCount_def)
    note all = dialog_samples_all [OF scene_lanes [OF ok] this, of 0]
    have samples: "samples_bytes (dialog_samples ?lanes music (totalSamples a) ?play 0) =
        interleaved 17 ?play (\<lambda>f c. le16_bytes (lane_sample ?lanes music (totalSamples a) f c))"
      using samples_interleaved [of 17 "lane_sample ?lanes music (totalSamples a)" ?play] by (simp add: all)
    have len: "length (interleaved 17 ?play (\<lambda>f c. le16_bytes (lane_sample ?lanes music (totalSamples a) f c))) = ?play * 34"
      by (subst length_interleaved) simp_all
    have "resolve_lanes (totalSamples a) channelOf {} (perCreature a) = Inr ?lanes" using lanes ok by simp
    then show ?thesis
      using True assms unfolding writeDialogWav_def RTP_STREAMING_CHANNELS_def
      by (simp add: scene_ok_def Let_def rate disk_works_def samples dialog_file_def wav_file_def len mult.assoc)
  qed
qed


lemma dialog_channel:
  assumes "disk_works d" "scene_ok a channelOf music" "fs path = Some (dialog_file print3 a channelOf po music)" "1 \<le> k" "k \<le> 17"
  shows "extractChannelToMonoWav d fs path out (int k) =
    (fs(out \<mapsto> wrapMonoPcmAsWav print3 (samples_bytes (channel_content a channelOf music k)) 48000 None), Inr ())"
proof -
  let ?play = "dialogPlaybackSampleCount a music"
  let ?g = "\<lambda>f c. le16_bytes (lane_sample (map (voice_lane channelOf) (perCreature a)) music (totalSamples a) f c)"
  have "voices_ok (totalSamples a) channelOf (perCreature a)" using assms(2) by (simp add: scene_ok_def)
  moreover have "totalSamples a \<le> ?play" "length music \<le> ?play" by (simp_all add: dialogPlaybackSampleCount_def)
  ultimately have content: "map (\<lambda>f. lane_sample (map (voice_lane channelOf) (perCreature a)) music (totalSamples a) f (k - 1)) [0..<?play] =
      channel_content a channelOf music k"
    unfolding channel_content_def by (intro lane_content assms)
  obtain r chunk where "fs path = Some (wav_file r (of_nat 17) 48000 (48000 * 17 * 2) 34 16 (interleaved 17 ?play ?g) chunk)"
    using assms(3) by (simp add: dialog_file_def Let_def)
  then have "extractChannelToMonoWav d fs path out (int k) =
      (fs(out \<mapsto> wrapMonoPcmAsWav print3 (concat (map (\<lambda>i. ?g i (k - 1)) [0..<?play])) 48000 None), Inr ())"
    using assms(2,4,5) by (intro extract_file [OF assms(1)]) (auto simp: scene_ok_def)
  moreover have "concat (map (\<lambda>i. ?g i (k - 1)) [0..<?play]) = samples_bytes (channel_content a channelOf music k)"
    unfolding content [symmetric] by (simp add: samples_bytes_def o_def)
  ultimately show ?thesis by simp
qed

lemma dialog_provenance:
  assumes "fs path = Some (dialog_file print3 a channelOf (Some p) music)" "\<not> provenance_empty p"
    "length (buildIxml print3 p 17) \<le> kMaxIxmlPayloadBytes" "dialogPlaybackSampleCount a music * 34 + 2 ^ 21 < 2 ^ 32"
  shows "readIxmlChunk fs path = Some (buildIxml print3 p 17)"
proof -
  let ?play = "dialogPlaybackSampleCount a music" and ?doc = "buildIxml print3 p 17"
  let ?data = "interleaved 17 ?play (\<lambda>f c. le16_bytes (lane_sample (map (voice_lane channelOf) (perCreature a)) music (totalSamples a) f c))"
  have len: "length ?data = ?play * 34" by (subst length_interleaved) simp_all
  have small: "length ?doc \<le> 2 ^ 20" using assms(3) by (simp add: kMaxIxmlPayloadBytes_def)
  then have "length (makeIxmlChunk ?doc) \<le> 9 + 2 ^ 20" using length_chunk [of ?doc] by simp
  then have "36 + ?play * 34 + length (makeIxmlChunk ?doc) \<le> 2 ^ 32 - 1" using assms(4) by simp
  then obtain r where "fs path = Some (wav_file r 17 48000 (48000 * 17 * 2) 34 16 ?data (makeIxmlChunk ?doc))"
    using assms(1,2) by (simp add: dialog_file_def Let_def provenance_chunk_def)
  then show ?thesis using assms(3,4) len by (intro ixml_of_file) auto
qed

text \<open>
  C11: a rendered dialog is written whole or refused. A scene is refused, with an error and no file,
  exactly when its rate is not 48 kHz, it is empty, a voice has no channel of its own between 1 and 16
  or another length than the scene, or the file would exceed its 32-bit sizes. Otherwise the mono
  file extracted from the channel of a voice is that voice, then silence; that of channel 17 is the
  music, then silence; every other channel is silent; and the provenance document can be read back.
\<close>

theorem dialog_written_or_refused:
  assumes "disk_works d"
  shows "if scene_ok a channelOf music
    then \<exists>fs'. writeDialogWav d print3 fs a channelOf path po music = (fs', Inr ()) \<and>
      (\<forall>k \<in> {1..17}. extractChannelToMonoWav d fs' path out (int k) =
        (fs'(out \<mapsto> wrapMonoPcmAsWav print3 (samples_bytes (channel_content a channelOf music k)) 48000 None), Inr ())) \<and>
      (case po of None \<Rightarrow> True | Some p \<Rightarrow>
        \<not> provenance_empty p \<and> length (buildIxml print3 p 17) \<le> kMaxIxmlPayloadBytes \<and>
        dialogPlaybackSampleCount a music * 34 + 2 ^ 21 < 2 ^ 32 \<longrightarrow> readIxmlChunk fs' path = Some (buildIxml print3 p 17))
    else \<exists>msg. writeDialogWav d print3 fs a channelOf path po music = (fs, Inl (ServerError InvalidData msg))"
proof (cases "scene_ok a channelOf music")
  case True
  let ?fs = "fs(path \<mapsto> dialog_file print3 a channelOf po music)"
  have "writeDialogWav d print3 fs a channelOf path po music = (?fs, Inr ())"
    using written_dialog [OF assms, of a channelOf music print3 fs path po] True by simp
  moreover have "\<forall>k \<in> {1..17}. extractChannelToMonoWav d ?fs path out (int k) =
      (?fs(out \<mapsto> wrapMonoPcmAsWav print3 (samples_bytes (channel_content a channelOf music k)) 48000 None), Inr ())"
    using dialog_channel [OF assms True, of ?fs path print3 po] by simp
  moreover have "case po of None \<Rightarrow> True | Some p \<Rightarrow>
        \<not> provenance_empty p \<and> length (buildIxml print3 p 17) \<le> kMaxIxmlPayloadBytes \<and>
        dialogPlaybackSampleCount a music * 34 + 2 ^ 21 < 2 ^ 32 \<longrightarrow> readIxmlChunk ?fs path = Some (buildIxml print3 p 17)"
    using dialog_provenance [of ?fs path print3 a channelOf _ music] by (auto split: option.splits)
  ultimately show ?thesis using True by (simp only: if_True) blast
next
  case False
  then show ?thesis using written_dialog [OF assms, of a channelOf music print3 fs path po] by simp
qed


definition sample_scene :: dialog_assembled where
  "sample_scene = \<lparr>perCreature = [\<lparr>voiceId = ''v'', voice_pcm = [5, 6]\<rparr>], totalSamples = 2, da_sampleRate = 48000\<rparr>"

theorem dialog_written_or_refused_witness:
  "\<exists>fs'. writeDialogWav plain_disk ms_print (\<lambda>_. None) sample_scene [''v'' \<mapsto> 3] ''d'' (Some short_provenance) [9] = (fs', Inr ()) \<and>
     extractChannelToMonoWav plain_disk fs' ''d'' ''m'' 3 =
       (fs'(''m'' \<mapsto> wrapMonoPcmAsWav ms_print (samples_bytes [5, 6]) 48000 None), Inr ()) \<and>
     extractChannelToMonoWav plain_disk fs' ''d'' ''m'' 17 =
       (fs'(''m'' \<mapsto> wrapMonoPcmAsWav ms_print (samples_bytes [9, 0]) 48000 None), Inr ()) \<and>
     readIxmlChunk fs' ''d'' = Some (buildIxml ms_print short_provenance 17)"
proof -
  have ok: "scene_ok sample_scene [''v'' \<mapsto> 3] [9]"
    by (simp add: scene_ok_def sample_scene_def voices_ok_def dialogPlaybackSampleCount_def)
  have "\<not> provenance_empty short_provenance" by (simp add: provenance_empty_def short_provenance_def)
  with ok dialog_written_or_refused [OF plain_disk_works, of sample_scene "[''v'' \<mapsto> 3]" "[9]" ms_print "\<lambda>_. None" "''d''" "Some short_provenance" "''m''"]
  obtain fs' where fs': "writeDialogWav plain_disk ms_print (\<lambda>_. None) sample_scene [''v'' \<mapsto> 3] ''d'' (Some short_provenance) [9] = (fs', Inr ())"
    and channels: "\<forall>k \<in> {1..17}. extractChannelToMonoWav plain_disk fs' ''d'' ''m'' (int k) =
        (fs'(''m'' \<mapsto> wrapMonoPcmAsWav ms_print (samples_bytes (channel_content sample_scene [''v'' \<mapsto> 3] [9] k)) 48000 None), Inr ())"
    and doc: "readIxmlChunk fs' ''d'' = Some (buildIxml ms_print short_provenance 17)"
    using short_document by (auto simp: dialogPlaybackSampleCount_def sample_scene_def)
  have content: "channel_content sample_scene [''v'' \<mapsto> 3] [9] 3 = [5, 6]" "channel_content sample_scene [''v'' \<mapsto> 3] [9] 17 = [9, 0]"
    by (simp_all add: channel_content_def sample_scene_def dialogPlaybackSampleCount_def silent_after_def)
  show ?thesis
    using fs' doc bspec [OF channels, of 3] bspec [OF channels, of 17] by (auto simp: content)
qed

end
