(* ===== verification/Spec2Isabelle.thy ===== *)
theory Spec2Isabelle
  imports Rtp_Protocol Live_Stream Dialog_Wav
begin

text \<open>
  A verification development for creature-server, the C++ server that plays animations on
  animatronic creatures: it streams DMX frames to their servos and to stage fixtures over E1.31 and
  audio over RTP, all in step with one event loop of one-millisecond frames.

  How the program works. Requests (REST, websocket, playlists, idle animations) reach the animation
  scheduler, which turns an animation into a playback session, adopts it in the session manager
  (cancelling whatever it conflicts with), records the activity of its creatures in the runtime store
  and schedules a playback-runner event, at once or after a loader thread has prepared the sound. The
  event loop executes runner events, which emit DMX events and hand audio packets to the transport;
  the transport queues them under a lease for the output worker of the RTP server. Activity changes
  also trigger patterns on DMX fixtures, rendered by a tick event. Live control over the websocket
  preempts all of this for one creature at a time.

  The model is a shallow embedding: a component's state is a record, each operation or critical
  section a function on it, errors are values of \<open>Result\<close>, a thrown exception is \<open>None\<close> or
  an \<open>Inl\<close>, machine integers are words of their width. Maps of the code are association lists;
  where an unordered map is iterated nothing proved depends on the order. The world the components
  share is one record that grows with the layers: \<open>world\<close> (sessions, registry, runtime store, the
  events scheduled so far in \<open>outbox\<close>), \<open>runner_world\<close> (caches), \<open>server_world\<close> (fixtures, DMX),
  \<open>scheduler_world\<close> (loader, RTP server, configuration), \<open>stream_world\<close> (live control).
  Sessions live in a heap and are named by their address, as the code shares them by pointer.

  Theories, in dependency order, with the code they model (paths below src/src/server unless given):
  \<^item> Prelude: machine integers, \<open>Result\<close> (src/src/util/Result.h), association lists, shared lemmas.
  \<^item> Object_Cache: src/src/util/cache.h, with the interface \<open>cache_interface\<close> its clients rely on.
  \<^item> Event_Loop: eventloop/event.h and eventloop.cpp; the drain loop is \<open>partial_function\<close> and a
    relation, so that ending is a theorem, not an assumption.
  \<^item> Dmx_Universe: src/lib/e131_service/src and the DMX event.
  \<^item> Animation_Data, Activity: the animation values and the creature runtime store
    (ws/service/CreatureService.cpp): versioned activity writes, idle toggle, streaming registry.
  \<^item> Playback_Session, Session_Manager: animation/PlaybackSession and animation/SessionManager: who
    drives what, playlist states, adoption generations.
  \<^item> Playback_Runner: eventloop/events/playback-runner.cpp.
  \<^item> Fixture_Model, Fixture_Json: src/src/model/DmxFixture and the validation of fixture documents.
  \<^item> Binary64, Fixture_Runner, Fixture_Lifecycle, Fixture_Dispatch, Fixture_Output: the pattern runner
    in fixture/, its fades in rounded binary64, its tick protocol and its triggers.
  \<^item> Server_Loop: the loop executing playback, fixture and DMX events together.
  \<^item> Rtp_Health, Rtp_Coordination, Rtp_Clock, Rtcp, Rtp_Server, Rtp_Protocol: rtp/: circuit breaker,
    leases and command queue, clocks, RTCP reports, the output server, and every interleaving of its
    clients with its worker.
  \<^item> Audio_Loader, Rtp_Transport: rtp/AudioLoadExecutor and audio/RtpAudioTransport with the
    encoder-reset events.
  \<^item> Scheduler, Scheduling: animation/CooperativeAnimationScheduler, animation/player.cpp, interrupts
    and idle restarts, and what a schedule guarantees.
  \<^item> Playlist_Event: eventloop/events/playlist.cpp.
  \<^item> Live_Stream: ws/messaging/StreamFrameHandler.cpp, alone and interleaved.
  \<^item> Ixml, Ixml_Roundtrip: voice/IxmlWriter, IxmlTimedTokens and IxmlReader: the provenance document of
    a sound file, written and read back.
  \<^item> Wav_File, Wav_Lanes, Wav_Stitch, Dialog_Wav: voice/PcmWavWriter, WavFileReader, DialogWav and
    \<open>readIxmlChunk\<close>: the sound files themselves, what is on their channels, stitching, dialog renders.

  What the lemmas show. Exclusivity: two live sessions of a universe never share an output, an
  adoption takes over exactly the conflicting ones, late writes and late failures of a replaced
  session change nothing. Completion: a session's end callback runs at most once, also on errors.
  Timing: every frame of an animation goes to the right universe, channel and event-loop frame, audio
  packets within their own ten milliseconds. Playlists: the states follow an abstract automaton, a
  stopped playlist stays stopped, an active one is never orphaned. Fixtures: an accepted document is
  well formed and its writes reach the wire, fades stay between their ends, patterns and live control
  end. RTP: a lost lease goes silent, the circuit breaker trips exactly when its specification says,
  a tripped generation is reported, reports carry the counts. Resources: the loader never overbooks,
  a tick is never lost, a streaming creature is never stuck. Each frame of the loop ends. Recordings: a
  dialog is written whole or refused, stitched parts play in order, provenance survives its document.

  Interfaces are locales, each interpreted on the model's own definitions in the theory of the
  component that provides them; the properties rest on the facts of the interpretations.

  Bounds and parameters. Frames are 64-bit and one millisecond long; theorems about future frames
  exclude the last hundred before the counter wraps (\<open>last_safe_frame\<close>), half a billion years away.
  \<open>EVENT_LOOP_PERIOD_MS\<close> and the other constants are the code's. Steady-clock times are unbounded
  integers of nanoseconds. Doubles are binary64 without fused operations. The circuit breaker's ring,
  the seventeen audio channels and the loader's sizes are as configured. A drain of the last audio
  packet is waited for at most 2001 ticks, the code's own bound. Concurrency is explicit: where other
  threads can run between two steps, either every interleaving is a step relation or their effect is
  an arbitrary function argument (\<open>others\<close>). Random choices are the n-th value of a stream of draws.

  Not modelled: the HTTP and websocket framework (oatpp) with its controllers and transfer objects,
  MongoDB, the voice services and the procedures of the job worker that call them, audio devices and
  codecs, lip-sync heuristics, the caches on disk, GPIO, start-up, spans, metrics and logs. The
  database, Base64, JSON, sockets, codecs and clocks that the modelled code uses are parameters.
  The database fills the creature cache when it loads a creature; this is modelled where the scheduler
  and the stream handler load one, not for the lookup of a creature's name.
\<close>

end
